(* ===== verification/Prelude.thy ===== *)
theory Prelude
  imports Main "HOL-Library.Word" "HOL-Library.Monad_Syntax" "HOL-Library.Char_ord"
    "HOL-Library.List_Lexorder"
begin

unbundle bit_operations_syntax

text \<open>
  Shared material of the development.

  \<^item> the machine integer types of the C++ code and the conversions it relies on;
  \<^item> byte memory: a fixed array is a list of bytes, an access outside it is \<open>None\<close>
    (C++ leaves it undefined), so memory safety is the statement that no \<open>None\<close> appears;
  \<^item> little-endian encodings, as the reinterpreting casts of the code produce them;
  \<^item> decimal output (\<open>std::to_string\<close>, \<open>%d\<close>, \<open>operator<<\<close>) and \<open>atoi\<close>;
  \<^item> \<open>std::map\<close> with its sorted iteration order, behind the interface \<open>std_map\<close>;
  \<^item> the interface \<open>guarded_machine\<close> of a step function with an invariant, and
    \<open>stepwise_inverse\<close> of an operation undone by another.
\<close>

section \<open>Machine integers\<close>

type_synonym u8 = "8 word"
type_synonym u16 = "16 word"
type_synonym u32 = "32 word"
type_synonym u64 = "64 word"

text \<open>A conversion of a value to \<open>int32_t\<close> keeps the value modulo \<open>2 ^ 32\<close>.\<close>

definition to_i32 :: "int \<Rightarrow> int" where
  "to_i32 x = signed_take_bit 31 x"

definition to_i64 :: "int \<Rightarrow> int" where
  "to_i64 x = signed_take_bit 63 x"

definition u32_of_int :: "int \<Rightarrow> u32" where
  "u32_of_int x = word_of_int x"

definition u16_of_int :: "int \<Rightarrow> u16" where
  "u16_of_int x = word_of_int x"

lemma unat_u32_of_int: "0 \<le> x \<Longrightarrow> x < 2 ^ 32 \<Longrightarrow> unat (u32_of_int x) = nat x"
  by (simp add: u32_of_int_def unat_eq_nat_uint uint_word_of_int)

lemma unat_u32_of_neg: "- (2 ^ 32) \<le> x \<Longrightarrow> x < 0 \<Longrightarrow> unat (u32_of_int x) = nat (x + 2 ^ 32)"
proof -
  assume "- (2 ^ 32) \<le> x" "x < 0"
  then have "(x + 2 ^ 32) mod 2 ^ 32 = x + 2 ^ 32" by (intro mod_pos_pos_trivial) simp_all
  then show ?thesis by (simp add: u32_of_int_def unat_eq_nat_uint uint_word_of_int)
qed

lemma unat_u16_of_int: "0 \<le> x \<Longrightarrow> x < 2 ^ 16 \<Longrightarrow> unat (u16_of_int x) = nat x"
  by (simp add: u16_of_int_def unat_eq_nat_uint uint_word_of_int)

lemma unat_u16_less: "unat (w :: u16) < 65536"
  using unsigned_less [of w, where 'a = nat] by simp

lemma unat_u32_less: "unat (w :: u32) < 4294967296"
  using unsigned_less [of w, where 'a = nat] by simp

lemma unat_u16_add:
  "unat (p :: u16) + n < 65536 \<Longrightarrow> unat (p + of_nat n) = unat p + n"
  by (simp add: unat_word_ariths unat_of_nat mod_simps)

text \<open>Integer division of C++ rounds towards zero; the divisors of the code are positive.\<close>

definition c_div :: "int \<Rightarrow> int \<Rightarrow> int" where
  "c_div a b = (if a < 0 then - ((- a) div b) else a div b)"

named_theorems mem_simps "reading and writing byte memory"
named_theorems layout "sizes of the buffers and headers"

lemma to_i32_id: "- (2 ^ 31) \<le> x \<Longrightarrow> x < 2 ^ 31 \<Longrightarrow> to_i32 x = x"
  unfolding to_i32_def by (rule signed_take_bit_int_eq_self) simp_all

lemma to_i32_bounds: "- (2 ^ 31) \<le> to_i32 x \<and> to_i32 x < 2 ^ 31"
  unfolding to_i32_def
  using signed_take_bit_int_greater_eq_minus_exp [of 31 x] signed_take_bit_int_less_exp [of 31 x]
  by simp

lemma to_i32_sint [simp]: "to_i32 (sint (w :: u32)) = sint w"
  by (rule to_i32_id) (use sint_range_size [of w] in \<open>simp_all add: word_size\<close>)

section \<open>Byte memory\<close>

definition mem_read :: "u8 list \<Rightarrow> nat \<Rightarrow> nat \<Rightarrow> u8 list option" where
  "mem_read buf off n = (if off + n \<le> length buf then Some (take n (drop off buf)) else None)"

definition mem_write :: "u8 list \<Rightarrow> nat \<Rightarrow> u8 list \<Rightarrow> u8 list option" where
  "mem_write buf off bs =
     (if off + length bs \<le> length buf
      then Some (take off buf @ bs @ drop (off + length bs) buf) else None)"

lemma mem_read_Some [mem_simps]:
  "off + n \<le> length buf \<Longrightarrow> mem_read buf off n = Some (take n (drop off buf))"
  by (simp add: mem_read_def)

lemma mem_write_Some [mem_simps]:
  "off + length bs \<le> length buf \<Longrightarrow>
   mem_write buf off bs = Some (take off buf @ bs @ drop (off + length bs) buf)"
  by (simp add: mem_write_def)

lemma mem_read_length: "mem_read buf off n = Some bs \<Longrightarrow> length bs = n"
  by (auto simp: mem_read_def split: if_splits)

lemma mem_write_length: "mem_write buf off bs = Some buf' \<Longrightarrow> length buf' = length buf"
  by (auto simp: mem_write_def split: if_splits)

lemma mem_read_write_same:
  "mem_write buf off bs = Some buf' \<Longrightarrow> n = length bs \<Longrightarrow> mem_read buf' off n = Some bs"
  by (auto simp: mem_write_def mem_read_def split: if_splits)

lemma mem_read_write_below:
  assumes "mem_write buf off bs = Some buf'" and "i + n \<le> off"
  shows "mem_read buf' i n = mem_read buf i n"
  using assms by (auto simp: mem_write_def mem_read_def drop_take min_def split: if_splits)

lemma mem_read_write_above:
  assumes "mem_write buf off bs = Some buf'" and "off + length bs \<le> i"
  shows "mem_read buf' i n = mem_read buf i n"
  using assms by (auto simp: mem_write_def mem_read_def split: if_splits)

section \<open>Little-endian encodings\<close>

text \<open>
  A cast of the buffer address to a pointer to an unsigned type of \<open>n\<close> bytes reads or
  writes these \<open>n\<close> bytes least significant first, as on the x86-64 and ARM64 targets
  of the build.
\<close>

fun le_decode :: "u8 list \<Rightarrow> 'a::len word" where
  "le_decode [] = 0"
| "le_decode (b # bs) = ucast b OR push_bit 8 (le_decode bs)"

fun le_encode :: "nat \<Rightarrow> 'a::len word \<Rightarrow> u8 list" where
  "le_encode 0 w = []"
| "le_encode (Suc n) w = ucast w # le_encode n (drop_bit 8 w)"

lemma length_le_encode [simp, layout]: "length (le_encode n w) = n"
  by (induction n arbitrary: w) auto

lemma ucast_byte_or_push:
  "(ucast (ucast w :: u8) :: 'a::len word) OR push_bit 8 (take_bit m (drop_bit 8 w)) = take_bit (m + 8) w"
  by (rule bit_word_eqI)
    (auto simp: bit_simps not_less algebra_simps)

lemma le_decode_encode: "le_decode (le_encode n w) = take_bit (8 * n) w"
proof (induction n arbitrary: w)
  case (Suc n)
  have "le_decode (le_encode (Suc n) w) = ucast (ucast w :: u8) OR push_bit 8 (take_bit (8 * n) (drop_bit 8 w))"
    by (simp add: Suc.IH)
  also have "\<dots> = take_bit (8 * Suc n) w"
    by (simp add: ucast_byte_or_push add.commute)
  finally show ?case .
qed simp

lemma le_roundtrip: "LENGTH('a) \<le> 8 * n \<Longrightarrow> le_decode (le_encode n (w :: 'a::len word)) = w"
  by (simp add: le_decode_encode take_bit_word_eq_self)

lemma le_decode_Cons_low:
  assumes "8 \<le> LENGTH('a)"
  shows "(ucast (le_decode (b # bs) :: 'a::len word) :: u8) = b"
  using assms by (auto intro!: bit_word_eqI simp: bit_simps)

lemma bit_le_decode_less: "bit (le_decode bs :: 'a::len word) k \<Longrightarrow> k < 8 * length bs"
proof (induction bs arbitrary: k)
  case (Cons b bs)
  from Cons.prems consider "bit b k" | "8 \<le> k" "bit (le_decode bs :: 'a word) (k - 8)"
    by (auto simp: bit_simps)
  then show ?case
  proof cases
    case 1
    then show ?thesis using bit_imp_le_length [of b k] by simp
  next
    case 2
    then show ?thesis using Cons.IH [of "k - 8"] by simp
  qed
qed simp

lemma le_decode_Cons_high:
  assumes "8 * Suc (length bs) \<le> LENGTH('a)"
  shows "drop_bit 8 (le_decode (b # bs) :: 'a::len word) = le_decode bs"
proof (rule bit_word_eqI)
  fix k assume "k < LENGTH('a)"
  have "k + 8 < LENGTH('a)" if "bit (le_decode bs :: 'a word) k"
    using bit_le_decode_less [OF that] assms by simp
  moreover have "\<not> bit b (8 + k)"
    using bit_imp_le_length [of b "8 + k"] by auto
  ultimately show "bit (drop_bit 8 (le_decode (b # bs) :: 'a word)) k = bit (le_decode bs :: 'a word) k"
    by (auto simp: bit_simps add.commute)
qed

lemma le_encode_decode:
  "8 * length bs \<le> LENGTH('a) \<Longrightarrow> le_encode (length bs) (le_decode bs :: 'a::len word) = bs"
proof (induction bs)
  case (Cons b bs)
  from Cons.prems have "(ucast (le_decode (b # bs) :: 'a word) :: u8) = b"
    by (intro le_decode_Cons_low) simp
  moreover from Cons.prems have "drop_bit 8 (le_decode (b # bs) :: 'a word) = le_decode bs"
    by (intro le_decode_Cons_high) simp
  ultimately show ?case
    using Cons by (simp del: le_decode.simps)
qed simp

section \<open>Strings\<close>

text \<open>
  A \<open>std::string\<close> is a list of characters, each one byte. \<open>char\<close> is signed on the
  build's targets, so a comparison of a \<open>char\<close> with a number uses its signed value.
\<close>

definition byte_of_char :: "char \<Rightarrow> u8" where
  "byte_of_char c = word_of_nat (of_char c)"

definition char_of_byte :: "u8 \<Rightarrow> char" where
  "char_of_byte b = char_of (unat b)"

definition schar :: "char \<Rightarrow> int" where
  "schar c = (let n = int (of_char c) in if n < 128 then n else n - 256)"

lemma of_char_nat_less: "of_char c < (256 :: nat)"
  by (metis mod_less_divisor of_char_mod_256 zero_less_numeral)

lemma char_of_byte_of_char [simp]: "char_of_byte (byte_of_char c) = c"
  using of_char_nat_less [of c] by (simp add: char_of_byte_def byte_of_char_def unat_of_nat)

lemma byte_of_char_of_byte [simp]: "byte_of_char (char_of_byte b) = b"
proof -
  have "unat b < 256" using unsigned_less [of b, where 'a = nat] by simp
  then have "(of_char (char_of_byte b) :: nat) = unat b"
    by (simp add: char_of_byte_def of_char_of)
  then show ?thesis by (simp add: byte_of_char_def)
qed

definition bytes_of_string :: "string \<Rightarrow> u8 list" where
  "bytes_of_string s = map byte_of_char s"

definition string_of_bytes :: "u8 list \<Rightarrow> string" where
  "string_of_bytes bs = map char_of_byte bs"

lemma string_of_bytes_of_string [simp]: "string_of_bytes (bytes_of_string s) = s"
  by (induction s) (auto simp: string_of_bytes_def bytes_of_string_def)

lemma bytes_of_string_of_bytes [simp]: "bytes_of_string (string_of_bytes bs) = bs"
  by (induction bs) (auto simp: string_of_bytes_def bytes_of_string_def)

lemma length_bytes_of_string [simp]: "length (bytes_of_string s) = length s"
  by (simp add: bytes_of_string_def)

lemma length_string_of_bytes [simp]: "length (string_of_bytes bs) = length bs"
  by (simp add: string_of_bytes_def)

section \<open>Decimal numbers\<close>

definition digit_char :: "nat \<Rightarrow> char" where
  "digit_char d = char_of (48 + d)"

fun show_nat :: "nat \<Rightarrow> string" where
  "show_nat n = (if n < 10 then [digit_char n] else show_nat (n div 10) @ [digit_char (n mod 10)])"

declare show_nat.simps [simp del]

definition show_int :: "int \<Rightarrow> string" where
  "show_int i = (if i < 0 then ''-'' @ show_nat (nat (- i)) else show_nat (nat i))"

definition is_digit_char :: "char \<Rightarrow> bool" where
  "is_digit_char c = (let n = (of_char c :: nat) in 48 \<le> n \<and> n \<le> 57)"

definition digit_val :: "char \<Rightarrow> nat" where
  "digit_val c = of_char c - 48"

fun read_digits :: "nat \<Rightarrow> string \<Rightarrow> nat" where
  "read_digits acc [] = acc"
| "read_digits acc (c # cs) =
     (if is_digit_char c then read_digits (10 * acc + digit_val c) cs else acc)"

text \<open>\<open>isspace\<close> in the C locale: space and the characters 9 to 13.\<close>

definition is_space_char :: "char \<Rightarrow> bool" where
  "is_space_char c = (let n = (of_char c :: nat) in n = 32 \<or> (9 \<le> n \<and> n \<le> 13))"

text \<open>
  \<open>strtol\<close>: leading white space, an optional sign, digits up to the first other
  character, the result clamped to the range of \<open>long\<close>. \<open>atoi\<close> converts it to \<open>int\<close>.
\<close>

definition strtol :: "string \<Rightarrow> int" where
  "strtol s =
     (let t = dropWhile is_space_char s;
          v = (case t of [] \<Rightarrow> 0
               | c # cs \<Rightarrow> if c = CHR ''-'' then - int (read_digits 0 cs)
                          else if c = CHR ''+'' then int (read_digits 0 cs)
                          else int (read_digits 0 (c # cs)))
      in max (- (2 ^ 63)) (min (2 ^ 63 - 1) v))"

definition atoi :: "string \<Rightarrow> int" where
  "atoi s = to_i32 (strtol s)"

lemma of_char_digit_char: "d < 10 \<Longrightarrow> of_char (digit_char d) = (48 + d :: nat)"
  by (simp add: digit_char_def of_char_of)

lemma is_digit_digit_char [simp]: "d < 10 \<Longrightarrow> is_digit_char (digit_char d)"
  by (simp add: is_digit_char_def of_char_digit_char)

lemma digit_val_digit_char [simp]: "d < 10 \<Longrightarrow> digit_val (digit_char d) = d"
  by (simp add: digit_val_def of_char_digit_char)

lemma show_nat_nonempty [simp]: "show_nat n \<noteq> []"
  by (subst show_nat.simps) simp

lemma show_nat_digits: "c \<in> set (show_nat n) \<Longrightarrow> is_digit_char c"
proof (induction n rule: show_nat.induct)
  case (1 n)
  show ?case
  proof (cases "n < 10")
    case True
    with "1.prems" show ?thesis by (simp add: show_nat.simps [of n])
  next
    case False
    with "1.prems" have "c \<in> set (show_nat (n div 10)) \<or> c = digit_char (n mod 10)"
      by (auto simp: show_nat.simps [of n])
    with "1.IH" False show ?thesis by auto
  qed
qed

lemma read_digits_append:
  assumes "\<forall>c \<in> set xs. is_digit_char c"
  shows "read_digits acc (xs @ ys) = read_digits (read_digits acc xs) ys"
  using assms by (induction xs arbitrary: acc) auto

lemma read_digits_show_nat: "read_digits 0 (show_nat n) = n"
proof (induction n rule: show_nat.induct)
  case (1 n)
  show ?case
  proof (cases "n < 10")
    case True
    then show ?thesis by (simp add: show_nat.simps [of n])
  next
    case False
    have "read_digits 0 (show_nat n) = read_digits (read_digits 0 (show_nat (n div 10))) [digit_char (n mod 10)]"
      using False show_nat_digits by (subst show_nat.simps) (simp add: read_digits_append)
    also have "\<dots> = 10 * (n div 10) + n mod 10"
      using "1.IH" False by simp
    finally show ?thesis by simp
  qed
qed

lemma show_nat_inj: "show_nat m = show_nat n \<Longrightarrow> m = n"
  by (metis read_digits_show_nat)

lemma digit_char_not_special:
  "is_digit_char c \<Longrightarrow> c \<noteq> CHR ''-'' \<and> c \<noteq> CHR ''+'' \<and> c \<noteq> CHR ''.'' \<and> \<not> is_space_char c"
  by (auto simp: is_digit_char_def is_space_char_def Let_def)

lemma strtol_show_nat: "n < 2 ^ 63 \<Longrightarrow> strtol (show_nat n) = int n"
proof -
  assume n: "n < 2 ^ 63"
  obtain c cs where s: "show_nat n = c # cs" by (cases "show_nat n") auto
  then have "is_digit_char c" using show_nat_digits [of c n] by simp
  note c = digit_char_not_special [OF this]
  have "read_digits 0 (c # cs) = n" using read_digits_show_nat [of n] s by simp
  moreover have "dropWhile is_space_char (c # cs) = c # cs" using c by simp
  ultimately show ?thesis
    using c n unfolding strtol_def s by (simp add: Let_def max_def min_def del: read_digits.simps dropWhile.simps)
qed

lemma atoi_show_nat: "n < 2 ^ 31 \<Longrightarrow> atoi (show_nat n) = int n"
  by (simp add: atoi_def strtol_show_nat to_i32_id)

section \<open>Ordered maps\<close>

text \<open>
  \<open>std::map\<close> iterates in the order of its keys (for \<open>std::string\<close> the lexicographic
  order of the bytes, which is the order of \<open>List_Lexorder\<close> and \<open>Char_ord\<close>). The model
  is the list of its entries in iteration order.
\<close>

fun omap_put :: "'k::linorder \<Rightarrow> 'v \<Rightarrow> ('k \<times> 'v) list \<Rightarrow> ('k \<times> 'v) list" where
  "omap_put k v [] = [(k, v)]"
| "omap_put k v ((k', v') # m) =
     (if k < k' then (k, v) # (k', v') # m
      else if k = k' then (k, v) # m
      else (k', v') # omap_put k v m)"

definition omap_inv :: "('k::linorder \<times> 'v) list \<Rightarrow> bool" where
  "omap_inv m = sorted_wrt (<) (map fst m)"

lemma fst_set_omap_put: "fst ` set (omap_put k v m) = insert k (fst ` set m)"
  by (induction k v m rule: omap_put.induct) auto

lemma set_omap_put_subset: "set (omap_put k v m) \<subseteq> insert (k, v) (set m)"
  by (induction k v m rule: omap_put.induct) auto

lemma omap_inv_put: "omap_inv m \<Longrightarrow> omap_inv (omap_put k v m)"
proof (induction k v m rule: omap_put.induct)
  case (2 k v k' v' m)
  have "\<forall>x \<in> fst ` set (omap_put k v m). k' < x" if "k' < k"
    using that 2 by (auto simp: fst_set_omap_put omap_inv_def)
  with 2 show ?case by (auto simp: omap_inv_def)
qed (simp add: omap_inv_def)

lemma map_of_omap_put: "omap_inv m \<Longrightarrow> map_of (omap_put k v m) = (map_of m)(k \<mapsto> v)"
proof (induction k v m rule: omap_put.induct)
  case (2 k v k' v' m)
  then show ?case by (auto simp: omap_inv_def fun_eq_iff)
qed simp

lemma omap_inv_distinct: "omap_inv m \<Longrightarrow> distinct (map fst m)"
  unfolding omap_inv_def by (simp add: strict_sorted_iff)

text \<open>The interface its clients use.\<close>

locale std_map =
  fixes empty :: "'m" and put :: "'k \<Rightarrow> 'v \<Rightarrow> 'm \<Rightarrow> 'm" and find :: "'m \<Rightarrow> 'k \<rightharpoonup> 'v"
    and entries :: "'m \<Rightarrow> ('k \<times> 'v) list" and inv :: "'m \<Rightarrow> bool"
  assumes inv_empty: "inv empty"
    and inv_put: "inv m \<Longrightarrow> inv (put k v m)"
    and find_empty: "find empty = Map.empty"
    and find_put: "inv m \<Longrightarrow> find (put k v m) = (find m)(k \<mapsto> v)"
    and entries_find: "inv m \<Longrightarrow> map_of (entries m) = find m"
    and entries_distinct: "inv m \<Longrightarrow> distinct (map fst (entries m))"
begin

lemma inv_fold_put: "inv m \<Longrightarrow> inv (fold (\<lambda>(k, v). put k v) kvs m)"
  by (induction kvs arbitrary: m) (auto intro: inv_put)

lemma find_fold_put:
  "inv m \<Longrightarrow> find (fold (\<lambda>(k, v). put k v) kvs m) = find m ++ map_of (rev kvs)"
proof (induction kvs arbitrary: m)
  case (Cons kv kvs)
  obtain k v where kv: "kv = (k, v)" by (cases kv)
  have "find (fold (\<lambda>(k, v). put k v) kvs (put k v m)) = find (put k v m) ++ map_of (rev kvs)"
    using Cons by (intro Cons.IH) (auto intro: inv_put)
  then show ?case
    using Cons.prems by (simp add: kv find_put)
qed simp

lemma length_entries: "inv m \<Longrightarrow> length (entries m) = card (dom (find m))"
proof -
  assume m: "inv m"
  have "dom (find m) = set (map fst (entries m))"
    using entries_find [OF m] by (metis dom_map_of_conv_image_fst list.set_map)
  then show ?thesis
    using distinct_card [OF entries_distinct [OF m]] by simp
qed

lemma entries_put_iff:
  "inv m \<Longrightarrow> (k', v') \<in> set (entries (put k v m)) \<longleftrightarrow>
     (if k' = k then v' = v else (k', v') \<in> set (entries m))"
proof -
  assume m: "inv m"
  note m' = inv_put [OF m, of k v]
  have "(k', v') \<in> set (entries (put k v m)) \<longleftrightarrow> find (put k v m) k' = Some v'"
    using entries_find [OF m'] entries_distinct [OF m'] by (metis map_of_eq_Some_iff)
  moreover have "(k', v') \<in> set (entries m) \<longleftrightarrow> find m k' = Some v'"
    using entries_find [OF m] entries_distinct [OF m] by (metis map_of_eq_Some_iff)
  ultimately show ?thesis by (auto simp: find_put [OF m])
qed

lemma entries_put_all:
  assumes "inv m" and "\<forall>(k, v) \<in> set (entries m). P v" and "P v"
  shows "\<forall>(k, v) \<in> set (entries (put k v m)). P v"
proof clarify
  fix k' v' assume "(k', v') \<in> set (entries (put k v m))"
  then have "if k' = k then v' = v else (k', v') \<in> set (entries m)"
    using entries_put_iff [OF assms(1)] by blast
  then show "P v'" using assms(2,3) by (cases "k' = k") auto
qed

end

interpretation omap: std_map "[]" omap_put map_of "\<lambda>m. m" omap_inv
  by unfold_locales
    (auto simp: omap_inv_put map_of_omap_put omap_inv_distinct, simp add: omap_inv_def)

text \<open>A \<open>const char*\<close> ends at its first zero byte.\<close>

definition c_str :: "string \<Rightarrow> string" where
  "c_str s = takeWhile (\<lambda>c. c \<noteq> CHR 0x00) s"

section \<open>Guarded machines\<close>

text \<open>
  A component with a step function on its state: an invariant kept by every step holds
  after every sequence of steps.
\<close>

locale guarded_machine =
  fixes step :: "'e \<Rightarrow> 's \<Rightarrow> 's" and inv :: "'s \<Rightarrow> bool"
  assumes step_inv: "inv s \<Longrightarrow> inv (step e s)"
begin

lemma run_inv: "inv s \<Longrightarrow> inv (fold step es s)"
  by (induction es arbitrary: s) (auto intro: step_inv)

end

text \<open>An operation undone by another lifts to sequences of operations and to lists.\<close>

locale stepwise_inverse =
  fixes fwd :: "'k \<Rightarrow> 'a \<Rightarrow> 'a" and bwd :: "'k \<Rightarrow> 'a \<Rightarrow> 'a"
  assumes bwd_fwd: "bwd k (fwd k x) = x"
begin

lemma fold_bwd_fwd: "fold bwd (rev ks) (fold fwd ks x) = x"
  by (induction ks arbitrary: x) (auto simp: bwd_fwd)

lemma map_bwd_fwd: "map (bwd k) (map (fwd k) xs) = xs"
  by (induction xs) (auto simp: bwd_fwd)

lemma fwd_inj: "fwd k x = fwd k y \<Longrightarrow> x = y"
  by (metis bwd_fwd)

end

text \<open>
  A forward simulation: an operation that may fail, on a concrete state, against a total
  operation on an abstract one. What holds of one operation holds of every sequence.
\<close>

locale simulation =
  fixes rel :: "'b \<Rightarrow> 's \<Rightarrow> bool" and cstep :: "'e \<Rightarrow> 's \<Rightarrow> 's option" and astep :: "'e \<Rightarrow> 'b \<Rightarrow> 'b"
    and allowed :: "'e \<Rightarrow> bool"
  assumes simulate: "rel b s \<Longrightarrow> allowed e \<Longrightarrow> \<exists>s'. cstep e s = Some s' \<and> rel (astep e b) s'"
begin

definition crun :: "'e list \<Rightarrow> 's \<Rightarrow> 's option" where
  "crun es s = fold (\<lambda>e st. Option.bind st (cstep e)) es (Some s)"

lemma crun_simps: "crun [] s = Some s" "crun (e # es) s = Option.bind (cstep e s) (crun es)"
proof -
  have none: "fold (\<lambda>e st. Option.bind st (cstep e)) es None = None" for es by (induction es) auto
  show "crun [] s = Some s" by (simp add: crun_def)
  show "crun (e # es) s = Option.bind (cstep e s) (crun es)" by (cases "cstep e s") (simp_all add: crun_def none)
qed

lemma simulate_run: "rel b s \<Longrightarrow> \<forall>e \<in> set es. allowed e \<Longrightarrow> \<exists>s'. crun es s = Some s' \<and> rel (fold astep es b) s'"
proof (induction es arbitrary: b s)
  case (Cons e es)
  then obtain s1 where "cstep e s = Some s1" "rel (astep e b) s1" using simulate [of b s e] by auto
  then show ?case using Cons by (simp add: crun_simps)
qed (simp add: crun_simps)

end

end
