(* ===== verification/Definitions.thy ===== *)
theory Definitions
  imports Prelude
begin

text \<open>
  The constants and enumerations of \<open>definitions.h\<close>: the accepted client versions, the
  sizes of the network buffers, the limits of the premium account and the enumerations
  that several components share.
\<close>

section \<open>Client versions\<close>

definition CLIENT_VERSION_MIN :: nat where "CLIENT_VERSION_MIN = 963"
definition CLIENT_VERSION_MAX :: nat where "CLIENT_VERSION_MAX = 9632"
definition CLIENT_VERSION_CUSTOM :: nat where "CLIENT_VERSION_CUSTOM = 964"
definition CLIENT_VERSION_DAT :: u32 where "CLIENT_VERSION_DAT = 0"
definition CLIENT_VERSION_SPR :: u32 where "CLIENT_VERSION_SPR = 0"
definition CLIENT_VERSION_PIC :: u32 where "CLIENT_VERSION_PIC = 0"

definition newline_str :: string where "newline_str = [CHR 0x0A]"

definition CLIENT_VERSION_STRING :: string where
  "CLIENT_VERSION_STRING =
     ''WypasOTS has been updated, please restart the game using launcher!'' @ newline_str @
     ''Alternatively, you can download portable version from http://wots.pl''"

definition CLIENT_VERSION_DATA :: string where
  "CLIENT_VERSION_DATA =
     ''WypasOTS has been updated, please restart the game using launcher!'' @ newline_str @
     ''Alternatively, you can download portable version from http://wots.pl''"

section \<open>Network buffers\<close>

definition NETWORK_HEADER_SIZE :: nat where "NETWORK_HEADER_SIZE = 2"
definition NETWORK_CRYPTOHEADER_SIZE :: nat where
  "NETWORK_CRYPTOHEADER_SIZE = NETWORK_HEADER_SIZE + 6"
definition NETWORK_MAX_SIZE :: nat where "NETWORK_MAX_SIZE = 16384"
definition NETWORK_BODY_SIZE :: nat where
  "NETWORK_BODY_SIZE = NETWORK_MAX_SIZE - NETWORK_CRYPTOHEADER_SIZE - 6"

lemmas network_sizes [layout] =
  NETWORK_HEADER_SIZE_def NETWORK_CRYPTOHEADER_SIZE_def NETWORK_MAX_SIZE_def NETWORK_BODY_SIZE_def

section \<open>Accounts and threads\<close>

definition LOCALHOST :: u32 where "LOCALHOST = 2130706433"
definition GRATIS_PREMIUM :: nat where "GRATIS_PREMIUM = 65535"

datatype thread_state = STATE_RUNNING | STATE_CLOSING | STATE_TERMINATED

datatype encryption =
  ENCRYPTION_PLAIN | ENCRYPTION_MD5 | ENCRYPTION_SHA1 | ENCRYPTION_SHA256 | ENCRYPTION_SHA512

fun encryption_number :: "encryption \<Rightarrow> int" where
  "encryption_number ENCRYPTION_PLAIN = 0"
| "encryption_number ENCRYPTION_MD5 = 1"
| "encryption_number ENCRYPTION_SHA1 = 2"
| "encryption_number ENCRYPTION_SHA256 = 3"
| "encryption_number ENCRYPTION_SHA512 = 4"

end
