(* ===== verification/Network_Message.thy ===== *)
theory Network_Message
  imports Definitions
begin

unbundle bit_operations_syntax

text \<open>
  The message buffer of \<open>net/networkmessage.h\<close> and \<open>net/networkmessage.cpp\<close>.

  The class is the record \<open>network_message\<close>; \<open>OutputMessage\<close> extends the record the way
  the class inherits, so every operation is defined on the record scheme. An operation
  that touches \<open>m_buffer\<close> returns \<open>None\<close> where the C++ access would leave the array.
  The invariant \<open>msg_wf\<close>, its preservation and the absence of \<open>None\<close> are the memory
  safety of the class; \<open>msg_written\<close> is the abstract content of an outgoing message, and
  the put operations refine appending to it.
\<close>

record network_message =
  m_size :: u16
  m_position :: u16
  m_buffer :: "u8 list"

section \<open>Operations\<close>

definition sizeof :: "'a::len itself \<Rightarrow> nat" where
  "sizeof T = LENGTH('a) div 8"

definition msg_reset :: "u16 \<Rightarrow> 'z network_message_scheme \<Rightarrow> 'z network_message_scheme" where
  "msg_reset sz m = m\<lparr>m_size := 0, m_position := sz\<rparr>"

definition msg_get ::
  "bool \<Rightarrow> 'z network_message_scheme \<Rightarrow> ('a::len word \<times> 'z network_message_scheme) option" where
  "msg_get peek m =
     (if sizeof TYPE('a) \<ge> unat (u32_of_int (int NETWORK_MAX_SIZE - uint (m_position m)))
      then Some (0, m)
      else do {
        bs \<leftarrow> mem_read (m_buffer m) (unat (m_position m)) (sizeof TYPE('a));
        let value = le_decode bs;
        if peek then Some (value, m)
        else Some (value, m\<lparr>m_position := m_position m + of_nat (sizeof TYPE('a))\<rparr>)
      })"

definition msg_getString ::
  "bool \<Rightarrow> u16 \<Rightarrow> 'z network_message_scheme \<Rightarrow> (string \<times> 'z network_message_scheme) option" where
  "msg_getString peek sz0 m0 = do {
     (sz, m) \<leftarrow> (if sz0 = 0 then msg_get peek m0 else Some (sz0, m0));
     let position = (if peek then m_position m + 2 else m_position m);
     if uint sz \<ge> int NETWORK_MAX_SIZE - uint position then Some ([], m)
     else do {
       v \<leftarrow> mem_read (m_buffer m) (unat position) (unat sz);
       if peek then Some (string_of_bytes v, m)
       else Some (string_of_bytes v, m\<lparr>m_position := m_position m + sz\<rparr>)
     }
   }"

definition msg_getRaw ::
  "bool \<Rightarrow> 'z network_message_scheme \<Rightarrow> (string \<times> 'z network_message_scheme) option" where
  "msg_getRaw peek m = msg_getString peek (m_size m - m_position m) m"

definition msg_skip :: "int \<Rightarrow> 'z network_message_scheme \<Rightarrow> 'z network_message_scheme" where
  "msg_skip count m = m\<lparr>m_position := u16_of_int (uint (m_position m) + count)\<rparr>"

definition hasSpace :: "int \<Rightarrow> 'z network_message_scheme \<Rightarrow> bool" where
  "hasSpace sz m = (to_i32 (to_i32 sz + uint (m_position m)) < int NETWORK_BODY_SIZE)"

definition msg_put ::
  "'a::len word \<Rightarrow> 'z network_message_scheme \<Rightarrow> 'z network_message_scheme option" where
  "msg_put value m =
     (if \<not> hasSpace (int (sizeof TYPE('a))) m then Some m
      else do {
        buf \<leftarrow> mem_write (m_buffer m) (unat (m_position m)) (le_encode (sizeof TYPE('a)) value);
        Some (m\<lparr>m_buffer := buf,
               m_position := m_position m + of_nat (sizeof TYPE('a)),
               m_size := m_size m + of_nat (sizeof TYPE('a))\<rparr>)
      })"

definition msg_putString ::
  "string \<Rightarrow> bool \<Rightarrow> 'z network_message_scheme \<Rightarrow> 'z network_message_scheme option" where
  "msg_putString value addSize m =
     (let sz = (of_nat (length value) :: u32) in
      if \<not> hasSpace (uint (sz + (if addSize then 2 else 0))) m
         \<or> unat sz > (if addSize then 8192 else NETWORK_BODY_SIZE)
      then Some m
      else do {
        m1 \<leftarrow> (if addSize then msg_put (ucast sz :: u16) m else Some m);
        buf \<leftarrow> mem_write (m_buffer m1) (unat (m_position m1)) (take (unat sz) (bytes_of_string value));
        Some (m1\<lparr>m_buffer := buf, m_position := m_position m1 + ucast sz,
                m_size := m_size m1 + ucast sz\<rparr>)
      })"

definition msg_putPadding ::
  "u32 \<Rightarrow> 'z network_message_scheme \<Rightarrow> 'z network_message_scheme option" where
  "msg_putPadding amount m =
     (if \<not> hasSpace (uint amount) m then Some m
      else do {
        buf \<leftarrow> mem_write (m_buffer m) (unat (m_position m)) (replicate (unat amount) 0x33);
        Some (m\<lparr>m_buffer := buf, m_size := m_size m + ucast amount\<rparr>)
      })"

definition msg_decodeHeader ::
  "'z network_message_scheme \<Rightarrow> (int \<times> 'z network_message_scheme) option" where
  "msg_decodeHeader m = do {
     bs \<leftarrow> mem_read (m_buffer m) 0 2;
     let sz = uint ((ucast (bs ! 0) :: u32) OR push_bit 8 (ucast (bs ! 1)));
     Some (sz, m\<lparr>m_size := u16_of_int sz\<rparr>)
   }"

definition msg_setSize :: "u16 \<Rightarrow> 'z network_message_scheme \<Rightarrow> 'z network_message_scheme" where
  "msg_setSize sz m = m\<lparr>m_size := sz\<rparr>"

definition msg_setPosition :: "u16 \<Rightarrow> 'z network_message_scheme \<Rightarrow> 'z network_message_scheme" where
  "msg_setPosition position m = m\<lparr>m_position := position\<rparr>"

definition msg_writeBuffer :: "'z network_message_scheme \<Rightarrow> 'z network_message_scheme" where
  "msg_writeBuffer m = m\<lparr>m_position := of_nat NETWORK_HEADER_SIZE\<rparr>"

definition new_network_message :: network_message where
  "new_network_message =
     \<lparr>m_size = 0, m_position = of_nat NETWORK_CRYPTOHEADER_SIZE,
      m_buffer = replicate NETWORK_MAX_SIZE 0\<rparr>"

section \<open>Well-formed messages\<close>

definition msg_wf :: "'z network_message_scheme \<Rightarrow> bool" where
  "msg_wf m \<longleftrightarrow> length (m_buffer m) = NETWORK_MAX_SIZE \<and> unat (m_position m) \<le> NETWORK_MAX_SIZE"

lemma sizeof_words [simp, layout]:
  "sizeof TYPE(8) = 1" "sizeof TYPE(16) = 2" "sizeof TYPE(32) = 4" "sizeof TYPE(64) = 8"
  by (simp_all add: sizeof_def)

lemma msg_wf_new: "msg_wf new_network_message"
  by (simp add: msg_wf_def new_network_message_def layout)

lemma msg_wf_buffer_length [simp]: "msg_wf m \<Longrightarrow> length (m_buffer m) = 16384"
  by (simp add: msg_wf_def layout)

lemma msg_wf_position: "msg_wf m \<Longrightarrow> unat (m_position m) \<le> 16384"
  by (simp add: msg_wf_def layout)

lemma unat_room:
  assumes "unat (p :: u16) \<le> 16384"
  shows "unat (u32_of_int (int NETWORK_MAX_SIZE - uint p)) = 16384 - unat p"
proof -
  have "int NETWORK_MAX_SIZE - uint p = int (16384 - unat p)"
    using assms by (simp add: layout uint_nat del: of_nat_unat)
  then show ?thesis
    by (simp add: unat_u32_of_int)
qed

text \<open>The guards on a well-formed message, in plain numbers.\<close>

lemma msg_get_wf:
  assumes "msg_wf m"
  shows "(msg_get peek m :: ('a::len word \<times> _) option) =
     (if unat (m_position m) + sizeof TYPE('a) < 16384
      then Some (le_decode (take (sizeof TYPE('a)) (drop (unat (m_position m)) (m_buffer m))),
                 if peek then m else m\<lparr>m_position := m_position m + of_nat (sizeof TYPE('a))\<rparr>)
      else Some (0, m))"
  using assms unat_room [OF msg_wf_position [OF assms]]
  by (auto simp: msg_get_def mem_read_def Let_def)

lemma hasSpace_small:
  assumes "n < 2 ^ 30"
  shows "hasSpace (int n) m \<longleftrightarrow> n + unat (m_position m) < 16370"
proof -
  have "to_i32 (int n) = int n" using assms by (intro to_i32_id) simp_all
  moreover have "to_i32 (int n + uint (m_position m)) = int (n + unat (m_position m))"
    using assms unat_u16_less [of "m_position m"]
    by (subst to_i32_id) (simp_all add: uint_nat del: of_nat_unat)
  ultimately show ?thesis
    by (simp add: hasSpace_def layout uint_nat del: of_nat_unat) linarith
qed

section \<open>Outgoing messages: every put appends to the written bytes\<close>

definition msg_append :: "u8 list \<Rightarrow> 'z network_message_scheme \<Rightarrow> 'z network_message_scheme" where
  "msg_append bs m =
     m\<lparr>m_buffer := take (unat (m_position m)) (m_buffer m) @ bs @
                  drop (unat (m_position m) + length bs) (m_buffer m),
       m_position := m_position m + of_nat (length bs),
       m_size := m_size m + of_nat (length bs)\<rparr>"

definition msg_fits :: "nat \<Rightarrow> 'z network_message_scheme \<Rightarrow> bool" where
  "msg_fits n m \<longleftrightarrow> n + unat (m_position m) < 16370"

definition msg_written :: "nat \<Rightarrow> 'z network_message_scheme \<Rightarrow> u8 list" where
  "msg_written start m = take (unat (m_position m) - start) (drop start (m_buffer m))"

lemma msg_put_append:
  assumes "msg_wf m" and "sizeof TYPE('a) < 2 ^ 30"
  shows "msg_put (v :: 'a::len word) m =
     Some (if msg_fits (sizeof TYPE('a)) m then msg_append (le_encode (sizeof TYPE('a)) v) m else m)"
  using assms by (auto simp: msg_put_def hasSpace_small mem_write_def msg_fits_def msg_append_def)

lemma position_append:
  "msg_fits (length bs) m \<Longrightarrow> unat (m_position (msg_append bs m)) = unat (m_position m) + length bs"
  by (simp add: msg_append_def msg_fits_def unat_u16_add)

lemma msg_append_wf: "msg_wf m \<Longrightarrow> msg_fits (length bs) m \<Longrightarrow> msg_wf (msg_append bs m)"
proof -
  assume m: "msg_wf m" and fits: "msg_fits (length bs) m"
  have "unat (m_position (msg_append bs m)) \<le> 16384"
    using position_append [OF fits] fits by (simp add: msg_fits_def)
  moreover have "length (m_buffer (msg_append bs m)) = 16384"
    using m fits by (simp add: msg_append_def msg_fits_def)
  ultimately show ?thesis by (simp add: msg_wf_def layout)
qed

lemma msg_append_append:
  assumes "msg_wf m" and "msg_fits (length bs + length cs) m"
  shows "msg_append cs (msg_append bs m) = msg_append (bs @ cs) m"
proof -
  have p: "unat (m_position (msg_append bs m)) = unat (m_position m) + length bs"
    using assms by (intro position_append) (simp add: msg_fits_def)
  have "min (length (m_buffer m)) (unat (m_position m)) = unat (m_position m)"
    using assms by (simp add: msg_fits_def)
  then show ?thesis
    unfolding msg_append_def [of cs] p using assms
    by (simp add: msg_append_def add.assoc add.commute [of "length cs"])
qed

lemma msg_written_append:
  assumes "msg_wf m" and "msg_fits (length bs) m" and "start \<le> unat (m_position m)"
  shows "msg_written start (msg_append bs m) = msg_written start m @ bs"
proof -
  define p where "p = unat (m_position m)"
  have p': "unat (m_position (msg_append bs m)) = p + length bs"
    using assms by (simp add: position_append p_def)
  have "p \<le> length (m_buffer m)" using assms by (simp add: p_def msg_fits_def)
  then have "drop start (m_buffer (msg_append bs m)) =
      take (p - start) (drop start (m_buffer m)) @ bs @ drop (p + length bs) (m_buffer m)"
    using assms(3) by (simp add: msg_append_def p_def [symmetric] drop_take)
  moreover have "p + length bs - start = (p - start) + length bs"
    using assms(3) by (simp add: p_def)
  ultimately show ?thesis
    using assms(3) \<open>p \<le> length (m_buffer m)\<close>
    by (simp add: msg_written_def p' p_def [symmetric])
qed

text \<open>The bytes a \<open>putString\<close> appends: the length as two bytes when asked for, then the text.\<close>

definition string_field :: "string \<Rightarrow> bool \<Rightarrow> u8 list" where
  "string_field s addSize = (if addSize then le_encode 2 (of_nat (length s) :: u16) else []) @ bytes_of_string s"

lemma length_string_field [simp]:
  "length (string_field s addSize) = length s + (if addSize then 2 else 0)"
  by (simp add: string_field_def)

lemma putString_guard:
  assumes "unat (n :: u32) \<le> 16370"
  shows "hasSpace (uint (n + (if addSize then 2 else 0))) m \<longleftrightarrow> msg_fits (unat n + (if addSize then 2 else 0)) m"
proof -
  have "unat (n + (if addSize then 2 else 0)) = unat n + (if addSize then 2 else 0)"
    using assms by (auto simp: unat_word_ariths)
  then have "uint (n + (if addSize then 2 else 0)) = int (unat n + (if addSize then 2 else 0))"
    by (metis uint_nat)
  then show ?thesis
    using assms hasSpace_small [of "unat n + (if addSize then 2 else 0)" m] by (simp add: msg_fits_def)
qed

definition string_limit :: "bool \<Rightarrow> nat" where
  "string_limit addSize = (if addSize then 8192 else 16370)"

lemma msg_putString_append:
  assumes "msg_wf m" and len: "length s < 2 ^ 32"
  shows "msg_putString s addSize m =
     Some (if length s \<le> string_limit addSize \<and> msg_fits (length (string_field s addSize)) m
           then msg_append (string_field s addSize) m else m)"
proof -
  define n where "n = (of_nat (length s) :: u32)"
  have n: "unat n = length s"
    using len by (simp add: n_def unat_of_nat take_bit_nat_eq_self)
  have n16: "(ucast n :: u16) = of_nat (length s)"
    using len by (simp add: n_def unsigned_of_nat take_bit_nat_eq_self)
  have lim: "(unat n > (if addSize then 8192 else NETWORK_BODY_SIZE)) = (\<not> length s \<le> string_limit addSize)"
    by (simp add: n string_limit_def layout not_le)
  show ?thesis
  proof (cases "length s \<le> string_limit addSize \<and> msg_fits (length (string_field s addSize)) m")
    case False
    then have "\<not> hasSpace (uint (n + (if addSize then 2 else 0))) m \<or> \<not> length s \<le> string_limit addSize"
      using putString_guard [of n addSize m] by (auto simp: n string_limit_def split: if_splits)
    with False show ?thesis
      by (auto simp: msg_putString_def n_def [symmetric] lim Let_def)
  next
    case True
    then have fits: "msg_fits (length s + (if addSize then 2 else 0)) m" by simp
    have "unat n \<le> 16370" using True by (auto simp: n string_limit_def split: if_splits)
    note guard = putString_guard [OF this, of addSize m]
    define m1 where "m1 = (if addSize then msg_append (le_encode 2 (of_nat (length s) :: u16)) m else m)"
    have head: "(if addSize then msg_put (ucast n :: u16) m else Some m) = Some m1"
      using fits assms by (auto simp: m1_def msg_put_append n16 msg_fits_def)
    have m1: "msg_wf m1" "msg_fits (length s) m1"
      using fits assms(1) by (auto simp: m1_def msg_append_wf msg_fits_def position_append)
    have tail: "(do {
        buf \<leftarrow> mem_write (m_buffer m1) (unat (m_position m1)) (bytes_of_string s);
        Some (m1\<lparr>m_buffer := buf, m_position := m_position m1 + of_nat (length s),
                m_size := m_size m1 + of_nat (length s)\<rparr>)}) = Some (msg_append (bytes_of_string s) m1)"
      using m1 by (simp add: mem_write_def msg_append_def msg_fits_def)
    have whole: "msg_append (bytes_of_string s) m1 = msg_append (string_field s addSize) m"
      using fits assms(1) by (auto simp: m1_def string_field_def msg_append_append add.commute)
    have pass: "\<not> (\<not> hasSpace (uint (n + (if addSize then 2 else 0))) m \<or>
        unat n > (if addSize then 8192 else NETWORK_BODY_SIZE))"
      using True guard fits lim by (simp add: n)
    show ?thesis
      unfolding msg_putString_def Let_def n_def [symmetric] if_not_P [OF pass] head
      using True by (simp add: n n16 tail whole)
  qed
qed

section \<open>Sequences of fields\<close>

text \<open>
  A reply is written as a sequence of \<open>put\<close> and \<open>putString\<close> calls. \<open>put_field\<close> and
  \<open>get_field\<close> name the call of each kind of field, so a sequence is a list.
\<close>

datatype msg_field = FU8 u8 | FU16 u16 | FU32 u32 | FStr string

fun put_field :: "msg_field \<Rightarrow> 'z network_message_scheme \<Rightarrow> 'z network_message_scheme option" where
  "put_field (FU8 w) m = msg_put w m"
| "put_field (FU16 w) m = msg_put w m"
| "put_field (FU32 w) m = msg_put w m"
| "put_field (FStr s) m = msg_putString s True m"

fun put_fields :: "msg_field list \<Rightarrow> 'z network_message_scheme \<Rightarrow> 'z network_message_scheme option" where
  "put_fields [] m = Some m"
| "put_fields (f # fs) m = do {m1 \<leftarrow> put_field f m; put_fields fs m1}"

fun get_field :: "msg_field \<Rightarrow> 'z network_message_scheme \<Rightarrow> (msg_field \<times> 'z network_message_scheme) option" where
  "get_field (FU8 w) m = do {(v, m1) \<leftarrow> msg_get False m; Some (FU8 v, m1)}"
| "get_field (FU16 w) m = do {(v, m1) \<leftarrow> msg_get False m; Some (FU16 v, m1)}"
| "get_field (FU32 w) m = do {(v, m1) \<leftarrow> msg_get False m; Some (FU32 v, m1)}"
| "get_field (FStr s) m = do {(v, m1) \<leftarrow> msg_getString False 0 m; Some (FStr v, m1)}"

fun get_fields :: "msg_field list \<Rightarrow> 'z network_message_scheme \<Rightarrow> (msg_field list \<times> 'z network_message_scheme) option" where
  "get_fields [] m = Some ([], m)"
| "get_fields (f # fs) m = do {
     (g, m1) \<leftarrow> get_field f m;
     (gs, m2) \<leftarrow> get_fields fs m1;
     Some (g # gs, m2)}"

fun field_bytes :: "msg_field \<Rightarrow> u8 list" where
  "field_bytes (FU8 w) = le_encode 1 w"
| "field_bytes (FU16 w) = le_encode 2 w"
| "field_bytes (FU32 w) = le_encode 4 w"
| "field_bytes (FStr s) = string_field s True"

fun field_ok :: "msg_field \<Rightarrow> bool" where
  "field_ok (FStr s) = (length s \<le> 8192)"
| "field_ok _ = True"

definition fields_bytes :: "msg_field list \<Rightarrow> u8 list" where
  "fields_bytes fs = concat (map field_bytes fs)"

lemma put_field_append:
  assumes "msg_wf m" and "field_ok f" and "msg_fits (length (field_bytes f)) m"
  shows "put_field f m = Some (msg_append (field_bytes f) m)"
  using assms by (cases f) (auto simp: msg_put_append msg_putString_append string_limit_def)

lemma put_fields_append:
  assumes "msg_wf m" and "\<forall>f \<in> set fs. field_ok f" and "msg_fits (length (fields_bytes fs)) m"
  shows "put_fields fs m = Some (msg_append (fields_bytes fs) m)"
  using assms
proof (induction fs arbitrary: m)
  case Nil
  then show ?case by (simp add: fields_bytes_def msg_append_def)
next
  case (Cons f fs)
  have fits: "msg_fits (length (field_bytes f)) m"
    using Cons.prems by (simp add: fields_bytes_def msg_fits_def)
  have "put_fields fs (msg_append (field_bytes f) m) =
      Some (msg_append (fields_bytes fs) (msg_append (field_bytes f) m))"
    using Cons.prems fits
    by (intro Cons.IH) (auto simp: msg_append_wf fields_bytes_def msg_fits_def position_append)
  moreover have "msg_append (fields_bytes fs) (msg_append (field_bytes f) m) =
      msg_append (fields_bytes (f # fs)) m"
    using Cons.prems by (simp add: fields_bytes_def msg_append_append)
  ultimately show ?case
    using Cons.prems fits by (simp add: put_field_append)
qed

text \<open>Reading: what the bytes at the position determine.\<close>

definition msg_ahead :: "'z network_message_scheme \<Rightarrow> u8 list" where
  "msg_ahead m = drop (unat (m_position m)) (m_buffer m)"

lemma msg_get_ahead:
  assumes "msg_wf m" and "msg_ahead m = le_encode (sizeof TYPE('a)) v @ rest"
    and "LENGTH('a) \<le> 8 * sizeof TYPE('a)" and "rest \<noteq> []"
  shows "msg_get peek m = Some (v :: 'a::len word,
     if peek then m else m\<lparr>m_position := m_position m + of_nat (sizeof TYPE('a))\<rparr>)"
proof -
  have "length (msg_ahead m) = 16384 - unat (m_position m)"
    using assms(1) by (simp add: msg_ahead_def)
  moreover have "length (msg_ahead m) = sizeof TYPE('a) + length rest"
    using assms(2) by simp
  moreover have "length rest > 0" using assms(4) by simp
  ultimately have "unat (m_position m) + sizeof TYPE('a) < 16384" by linarith
  with assms show ?thesis
    by (simp add: msg_get_wf msg_ahead_def le_roundtrip)
qed

lemma msg_ahead_advance:
  assumes "msg_ahead m = bs @ rest" and "unat (m_position m) + length bs < 65536"
  shows "msg_ahead (m\<lparr>m_position := m_position m + of_nat (length bs)\<rparr>) = rest"
proof -
  have "drop (unat (m_position m) + length bs) (m_buffer m) = drop (length bs) (msg_ahead m)"
    by (simp add: msg_ahead_def add.commute)
  then show ?thesis
    using assms by (simp add: msg_ahead_def [of "m\<lparr>m_position := _\<rparr>"] unat_u16_add)
qed

lemma msg_wf_advance:
  assumes "msg_wf m" and "unat (m_position m) + n \<le> 16384"
  shows "msg_wf (m\<lparr>m_position := m_position m + of_nat n\<rparr>)"
  using assms by (simp add: msg_wf_def layout unat_u16_add)

lemma ahead_room:
  assumes "msg_wf m" and "msg_ahead m = bs @ rest" and "rest \<noteq> []"
  shows "unat (m_position m) + length bs < 16384"
proof -
  have "length (msg_ahead m) = 16384 - unat (m_position m)"
    using assms(1) by (simp add: msg_ahead_def)
  moreover have "length (msg_ahead m) = length bs + length rest" and "length rest > 0"
    using assms(2,3) by simp_all
  ultimately show ?thesis by linarith
qed

lemma msg_getString_ahead:
  assumes m: "msg_wf m" and s: "msg_ahead m = string_field s True @ rest" "length s < 65536" and "rest \<noteq> []"
  shows "msg_getString False 0 m = Some (s, m\<lparr>m_position := m_position m + of_nat (length s + 2)\<rparr>)"
proof -
  define n where "n = (of_nat (length s) :: u16)"
  have n: "unat n = length s"
    using s(2) by (simp add: n_def unat_of_nat take_bit_nat_eq_self)
  define m1 where "m1 = m\<lparr>m_position := m_position m + of_nat 2\<rparr>"
  have bytes: "msg_ahead m = le_encode 2 n @ (bytes_of_string s @ rest)"
    using s(1) by (simp add: string_field_def n_def)
  have room: "unat (m_position m) + (length s + 2) < 16384"
    using ahead_room [OF m s(1) assms(4)] by simp
  have get: "msg_get False m = Some (n, m1)"
    using msg_get_ahead [of m n "bytes_of_string s @ rest" False] m bytes assms(4)
    by (simp add: m1_def)
  have p1: "unat (m_position m1) = unat (m_position m) + 2"
    using room unat_u16_add [of "m_position m" 2] by (simp add: m1_def)
  have ahead1: "msg_ahead m1 = bytes_of_string s @ rest"
    using msg_ahead_advance [of m "le_encode 2 n"] bytes room by (simp add: m1_def)
  have len1: "length (m_buffer m1) = 16384" using m by (simp add: m1_def)
  have read: "mem_read (m_buffer m1) (unat (m_position m1)) (unat n) = Some (bytes_of_string s)"
    using room ahead1 len1 by (simp add: mem_read_def p1 n msg_ahead_def)
  have "\<not> uint n \<ge> int NETWORK_MAX_SIZE - uint (m_position m1)"
    using room by (simp add: layout uint_nat n p1 del: of_nat_unat)
  then show ?thesis
    by (simp add: msg_getString_def get read Let_def)
      (simp add: m1_def n_def add.commute add.left_commute)
qed

lemma get_field_ahead:
  assumes m: "msg_wf m" and f: "msg_ahead m = field_bytes f @ rest" "field_ok f" "rest \<noteq> []"
  shows "get_field f m = Some (f, m\<lparr>m_position := m_position m + of_nat (length (field_bytes f))\<rparr>)"
proof (cases f)
  case (FU8 w)
  then show ?thesis using msg_get_ahead [of m w rest False] assms by simp
next
  case (FU16 w)
  then show ?thesis using msg_get_ahead [of m w rest False] assms by simp
next
  case (FU32 w)
  then show ?thesis using msg_get_ahead [of m w rest False] assms by simp
next
  case (FStr s)
  then show ?thesis using msg_getString_ahead [of m s rest] assms by simp
qed

lemma get_fields_ahead:
  assumes "msg_wf m" and "msg_ahead m = fields_bytes fs @ rest" and "\<forall>f \<in> set fs. field_ok f" and "rest \<noteq> []"
  shows "get_fields fs m = Some (fs, m\<lparr>m_position := m_position m + of_nat (length (fields_bytes fs))\<rparr>)"
  using assms
proof (induction fs arbitrary: m)
  case Nil
  then show ?case by (simp add: fields_bytes_def)
next
  case (Cons f fs)
  define m1 where "m1 = m\<lparr>m_position := m_position m + of_nat (length (field_bytes f))\<rparr>"
  have ahead: "msg_ahead m = field_bytes f @ (fields_bytes fs @ rest)"
    using Cons.prems by (simp add: fields_bytes_def)
  have room: "unat (m_position m) + length (field_bytes f) < 16384"
    using ahead_room [OF Cons.prems(1) ahead] Cons.prems by simp
  have "get_fields fs m1 = Some (fs, m1\<lparr>m_position := m_position m1 + of_nat (length (fields_bytes fs))\<rparr>)"
    using Cons.prems room msg_ahead_advance [OF ahead]
    by (intro Cons.IH) (simp_all add: m1_def msg_wf_advance)
  then show ?case
    using get_field_ahead [OF Cons.prems(1) ahead] Cons.prems
    by (simp add: m1_def fields_bytes_def add.assoc)
qed

section \<open>Memory safety of every sequence of operations\<close>

text \<open>
  The operations that the classes offer on a message, except the unguarded changes of the
  position (\<open>skip\<close>, \<open>setPosition\<close>); a padding has at most 255 bytes (the code asks for
  at most 7).
\<close>

datatype msg_op =
  OpGet8 bool | OpGet16 bool | OpGet32 bool | OpGetString bool u16 | OpGetRaw bool
| OpPut8 u8 | OpPut16 u16 | OpPut32 u32 | OpPutString string bool | OpPutPadding u8
| OpDecodeHeader | OpSetSize u16 | OpReset | OpWriteBuffer

fun msg_step :: "msg_op \<Rightarrow> 'z network_message_scheme \<Rightarrow> 'z network_message_scheme option" where
  "msg_step (OpGet8 peek) m = map_option snd (msg_get peek m :: (u8 \<times> _) option)"
| "msg_step (OpGet16 peek) m = map_option snd (msg_get peek m :: (u16 \<times> _) option)"
| "msg_step (OpGet32 peek) m = map_option snd (msg_get peek m :: (u32 \<times> _) option)"
| "msg_step (OpGetString peek n) m = map_option snd (msg_getString peek n m)"
| "msg_step (OpGetRaw peek) m = map_option snd (msg_getRaw peek m)"
| "msg_step (OpPut8 w) m = msg_put w m"
| "msg_step (OpPut16 w) m = msg_put w m"
| "msg_step (OpPut32 w) m = msg_put w m"
| "msg_step (OpPutString s addSize) m = msg_putString s addSize m"
| "msg_step (OpPutPadding n) m = msg_putPadding (ucast n) m"
| "msg_step OpDecodeHeader m = map_option snd (msg_decodeHeader m)"
| "msg_step (OpSetSize n) m = Some (msg_setSize n m)"
| "msg_step OpReset m = Some (msg_reset (of_nat NETWORK_CRYPTOHEADER_SIZE) m)"
| "msg_step OpWriteBuffer m = Some (msg_writeBuffer m)"

definition msg_step_opt :: "msg_op \<Rightarrow> 'z network_message_scheme option \<Rightarrow> 'z network_message_scheme option" where
  "msg_step_opt f s = Option.bind s (msg_step f)"

definition msg_safe :: "'z network_message_scheme option \<Rightarrow> bool" where
  "msg_safe s \<longleftrightarrow> (\<exists>m. s = Some m \<and> msg_wf m)"

lemma msg_safe_Some [simp]: "msg_safe (Some m) = msg_wf m"
  by (simp add: msg_safe_def)

lemma msg_get_total: "msg_wf m \<Longrightarrow> \<exists>v m'. msg_get peek m = Some (v, m')"
  by (simp add: msg_get_wf)

lemma msg_safe_get:
  assumes "msg_wf m"
  shows "msg_safe (map_option snd (msg_get peek m :: ('a::len word \<times> _) option))"
  using assms msg_wf_advance [OF assms, of "sizeof TYPE('a)"] by (simp add: msg_get_wf)

lemma msg_safe_put:
  assumes "msg_wf m" and "sizeof TYPE('a) < 2 ^ 30"
  shows "msg_safe (msg_put (v :: 'a::len word) m)"
  using assms by (simp add: msg_put_append msg_append_wf)

lemma msg_safe_getString_sized:
  assumes "msg_wf m" and "n \<noteq> 0"
  shows "msg_safe (map_option snd (msg_getString peek n m))"
proof -
  define p where "p = (if peek then m_position m + 2 else m_position m)"
  have p: "unat p = unat (m_position m) + (if peek then 2 else 0)"
    using msg_wf_position [OF assms(1)] unat_u16_add [of "m_position m" 2] by (simp add: p_def)
  show ?thesis
  proof (cases "uint n \<ge> int NETWORK_MAX_SIZE - uint p")
    case True
    then show ?thesis using assms by (simp add: msg_getString_def p_def)
  next
    case False
    then have room: "unat n + unat p < 16384"
      by (simp add: layout uint_nat del: of_nat_unat)
    then have "mem_read (m_buffer m) (unat p) (unat n) = Some (take (unat n) (drop (unat p) (m_buffer m)))"
      using assms by (intro mem_read_Some) simp
    then show ?thesis
      using assms False room p msg_wf_advance [OF assms(1), of "unat n"]
      by (simp add: msg_getString_def p_def [symmetric] Let_def)
  qed
qed

lemma msg_safe_getString:
  assumes "msg_wf m"
  shows "msg_safe (map_option snd (msg_getString peek n m))"
proof (cases "n = 0")
  case False
  then show ?thesis using assms by (rule msg_safe_getString_sized [rotated])
next
  case True
  obtain k m1 where get: "(msg_get peek m :: (u16 \<times> _) option) = Some (k, m1)"
    using msg_get_total [OF assms] by blast
  then have m1: "msg_wf m1" using msg_safe_get [OF assms, of peek, where 'a = 16] by simp
  have step: "msg_getString peek n m = msg_getString peek k m1" if "k \<noteq> 0"
    using True get that by (simp add: msg_getString_def)
  show ?thesis
  proof (cases "k = 0")
    case False
    then show ?thesis using step msg_safe_getString_sized [OF m1] by simp
  next
    case k: True
    have "m_position m1 + 0 = m_position m1" by simp
    moreover have "unat (m_position m1 + 2) = unat (m_position m1) + 2"
      using msg_wf_position [OF m1] unat_u16_add [of "m_position m1" 2] by simp
    ultimately show ?thesis
      using True get k m1 msg_wf_position [OF m1]
      by (simp add: msg_getString_def mem_read_def Let_def layout uint_nat string_of_bytes_def
          del: of_nat_unat)
  qed
qed

lemma msg_safe_putString:
  assumes "msg_wf m"
  shows "msg_safe (msg_putString s addSize m)"
proof -
  define n where "n = (of_nat (length s) :: u32)"
  define t where "t = take (unat n) s"
  have "unat n = length s mod 2 ^ 32" by (simp add: n_def unat_of_nat take_bit_nat_def)
  then have "unat n \<le> length s" by simp
  then have t: "length t = unat n" "length t < 2 ^ 32"
    using unat_u32_less [of n] by (simp_all add: t_def)
  then have "(of_nat (length t) :: u32) = n"
    by (simp add: t(1))
  then have "msg_putString s addSize m = msg_putString t addSize m"
    by (simp add: msg_putString_def n_def [symmetric] t_def Let_def bytes_of_string_def take_map)
  then show ?thesis
    using assms t by (simp add: msg_putString_append msg_append_wf)
qed

lemma msg_safe_putPadding:
  assumes "msg_wf m" and "unat amount < 2 ^ 30"
  shows "msg_safe (msg_putPadding amount m)"
proof -
  have "uint amount = int (unat amount)" by simp
  then show ?thesis
    using assms hasSpace_small [of "unat amount" m]
    by (auto simp: msg_putPadding_def mem_write_def msg_wf_def layout)
qed

lemma msg_step_safe: "msg_safe s \<Longrightarrow> msg_safe (msg_step_opt f s)"
proof -
  assume "msg_safe s"
  then obtain m where s: "s = Some m" and m: "msg_wf m" by (auto simp: msg_safe_def)
  have pad: "unat (ucast (n :: u8) :: u32) < 2 ^ 30" for n
    using unsigned_less [of n, where 'a = nat] by (simp add: unsigned_ucast_eq take_bit_nat_eq_self)
  then have pad: "msg_safe (msg_putPadding (ucast (n :: u8)) m)" for n
    using m by (intro msg_safe_putPadding)
  have "msg_safe (msg_step f m)"
    using m by (cases f)
      (auto simp: msg_safe_get msg_safe_put msg_safe_getString msg_safe_putString msg_getRaw_def
        pad msg_decodeHeader_def mem_read_def msg_setSize_def msg_reset_def
        msg_writeBuffer_def msg_wf_def layout Let_def)
  then show ?thesis by (simp add: s msg_step_opt_def)
qed

interpretation msg_machine: guarded_machine msg_step_opt msg_safe
  by unfold_locales (rule msg_step_safe)

section \<open>Properties\<close>



text \<open>C13. Round trip of a reply: when the fields fit the body and every string has at most
  8192 characters, writing them with \<open>put\<close> and \<open>putString\<close> and reading them back from
  the same position gives the same fields and ends where the writer ended.\<close>

theorem fields_round_trip:
  fixes m :: "'z network_message_scheme"
  assumes "msg_wf m" and "\<forall>f \<in> set fs. field_ok f"
    and "unat (m_position m) + length (fields_bytes fs) < NETWORK_BODY_SIZE"
  shows "\<exists>m' m''. put_fields fs m = Some m' \<and>
     get_fields fs (msg_setPosition (m_position m) m') = Some (fs, m'') \<and>
     m_position m'' = m_position m' \<and> m_buffer m'' = m_buffer m'"
proof -
  have fits: "msg_fits (length (fields_bytes fs)) m"
    using assms(3) by (simp add: msg_fits_def layout)
  define m' where "m' = msg_append (fields_bytes fs) m"
  define r where "r = msg_setPosition (m_position m) m'"
  define rest where "rest = drop (unat (m_position m) + length (fields_bytes fs)) (m_buffer m)"
  have put: "put_fields fs m = Some m'"
    using assms fits by (simp add: m'_def put_fields_append)
  have "msg_wf m'" using assms fits by (simp add: m'_def msg_append_wf)
  then have wf: "msg_wf r"
    using msg_wf_position [OF assms(1)] by (simp add: r_def msg_setPosition_def msg_wf_def layout)
  have "length (take (unat (m_position m)) (m_buffer m)) = unat (m_position m)"
    using assms(1) msg_wf_position [OF assms(1)] by simp
  then have ahead: "msg_ahead r = fields_bytes fs @ rest"
    by (simp add: msg_ahead_def r_def msg_setPosition_def m'_def msg_append_def rest_def)
  have "rest \<noteq> []" using assms(1) fits by (simp add: rest_def msg_fits_def)
  note got = get_fields_ahead [OF wf ahead assms(2) this]
  show ?thesis
    unfolding put using got unfolding r_def
    by (simp add: msg_setPosition_def) (simp add: m'_def msg_append_def)
qed

theorem fields_round_trip_witness:
  "\<exists>m' m''. put_fields [FU8 0x14, FStr ''motd'', FU16 7172] new_network_message = Some m' \<and>
     get_fields [FU8 0x14, FStr ''motd'', FU16 7172] (msg_setPosition (m_position new_network_message) m')
       = Some ([FU8 0x14, FStr ''motd'', FU16 7172], m'') \<and>
     m_position m'' = m_position m' \<and> m_buffer m'' = m_buffer m'"
proof (rule fields_round_trip)
  show "msg_wf new_network_message" by (rule msg_wf_new)
  show "unat (m_position new_network_message) + length (fields_bytes [FU8 0x14, FStr ''motd'', FU16 7172])
      < NETWORK_BODY_SIZE"
    by (simp add: new_network_message_def fields_bytes_def layout)
qed simp

text \<open>A write that does not fit is dropped whole: \<open>put\<close> and \<open>putString\<close> (of a
  string with a 32-bit length) either append exactly the bytes of the field or leave the
  message as it was.\<close>

theorem put_all_or_nothing:
  fixes m :: "'z network_message_scheme"
  assumes "msg_wf m" and "NETWORK_CRYPTOHEADER_SIZE \<le> unat (m_position m)"
    and "case f of FStr s \<Rightarrow> length s < 2 ^ 32 | _ \<Rightarrow> True"
  shows "put_field f m = Some (if field_ok f \<and> msg_fits (length (field_bytes f)) m
                               then msg_append (field_bytes f) m else m) \<and>
     (field_ok f \<and> msg_fits (length (field_bytes f)) m \<longrightarrow>
        msg_written NETWORK_CRYPTOHEADER_SIZE (msg_append (field_bytes f) m) =
        msg_written NETWORK_CRYPTOHEADER_SIZE m @ field_bytes f)"
proof -
  have "put_field f m = Some m" if "\<not> (field_ok f \<and> msg_fits (length (field_bytes f)) m)"
    using that assms
    by (cases f) (auto simp: msg_put_append msg_putString_append string_limit_def)
  then show ?thesis
    using assms put_field_append [OF assms(1)] msg_written_append [OF assms(1)] by auto
qed

theorem put_all_or_nothing_witness:
  "put_field (FStr ''abc'') new_network_message =
     Some (msg_append (field_bytes (FStr ''abc'')) new_network_message)"
proof -
  have ok: "field_ok (FStr ''abc'') \<and> msg_fits (length (field_bytes (FStr ''abc''))) new_network_message"
    by (simp add: msg_fits_def new_network_message_def layout)
  have "NETWORK_CRYPTOHEADER_SIZE \<le> unat (m_position new_network_message)"
    by (simp add: new_network_message_def layout)
  then show ?thesis
    using put_all_or_nothing [OF msg_wf_new, of "FStr ''abc''"] ok by simp
qed

text \<open>The limit of the guard in \<open>get\<close>: with the position past the end of the buffer
  (where only \<open>skip\<close> and \<open>setPosition\<close> can put it), the difference in the guard is
  negative, its conversion to \<open>unsigned\<close> is huge, and the read leaves the buffer.\<close>

theorem get_past_end_out_of_bounds:
  fixes m :: "'z network_message_scheme"
  assumes "length (m_buffer m) = NETWORK_MAX_SIZE" and "NETWORK_MAX_SIZE < unat (m_position m)"
  shows "(msg_get peek m :: (u32 \<times> 'z network_message_scheme) option) = None"
proof -
  define d where "d = int NETWORK_MAX_SIZE - uint (m_position m)"
  have "d < 0" "- 65536 \<le> d"
    using assms(2) unat_u16_less [of "m_position m"]
    by (simp_all add: d_def layout uint_nat del: of_nat_unat)
  then have "unat (u32_of_int d) = nat (d + 2 ^ 32)" and "4 < nat (d + 2 ^ 32)"
    by (simp_all add: unat_u32_of_neg)
  then have "\<not> unat (u32_of_int (int NETWORK_MAX_SIZE - uint (m_position m))) \<le> 4"
    by (simp add: d_def)
  then show ?thesis
    using assms by (simp add: msg_get_def mem_read_def)
qed

theorem get_past_end_out_of_bounds_witness:
  "(msg_get False (msg_skip 20000 new_network_message) :: (u32 \<times> network_message) option) = None"
proof -
  have "unat (u16_of_int 20008) = 20008" by (simp add: unat_u16_of_int)
  then show ?thesis
    by (intro get_past_end_out_of_bounds) (simp_all add: msg_skip_def new_network_message_def layout)
qed

end
