(* ===== verification/Xtea.thy ===== *)
theory Xtea
  imports Network_Message
begin

unbundle bit_operations_syntax

text \<open>
  The XTEA cipher of \<open>protocol/protocol.cpp\<close>: the round and the loop over the 32-bit words
  of a message, as \<open>XTEA_encrypt\<close> and \<open>XTEA_decrypt\<close> write them. The loop works in place on
  the byte buffer; \<open>ecb\<close> is the specification (each block of eight bytes by itself), and
  \<open>xtea_loop_ecb\<close> the equivalence. Decryption undoes encryption through the interface
  \<open>stepwise_inverse\<close>, interpreted for a round, for a block and for a whole run.
\<close>

type_synonym xtea_key = "u32 list"

definition xtea_delta :: u32 where "xtea_delta = 0x61C88647"

section \<open>Rounds\<close>

definition xtea_mix :: "u32 \<Rightarrow> u32" where
  "xtea_mix v = ((push_bit 4 v) XOR (drop_bit 5 v)) + v"

definition xtea_encrypt_round :: "xtea_key \<Rightarrow> u32 \<times> u32 \<times> u32 \<Rightarrow> u32 \<times> u32 \<times> u32" where
  "xtea_encrypt_round key st =
     (let (v0, v1, sum) = st;
          v0 = v0 + (xtea_mix v1 XOR (sum + key ! unat (sum AND 3)));
          sum = sum - xtea_delta;
          v1 = v1 + (xtea_mix v0 XOR (sum + key ! unat (drop_bit 11 sum AND 3)))
      in (v0, v1, sum))"

definition xtea_decrypt_round :: "xtea_key \<Rightarrow> u32 \<times> u32 \<times> u32 \<Rightarrow> u32 \<times> u32 \<times> u32" where
  "xtea_decrypt_round key st =
     (let (v0, v1, sum) = st;
          v1 = v1 - (xtea_mix v0 XOR (sum + key ! unat (drop_bit 11 sum AND 3)));
          sum = sum + xtea_delta;
          v0 = v0 - (xtea_mix v1 XOR (sum + key ! unat (sum AND 3)))
      in (v0, v1, sum))"

definition xtea_encrypt_block :: "xtea_key \<Rightarrow> u32 \<times> u32 \<Rightarrow> u32 \<times> u32" where
  "xtea_encrypt_block key v =
     (let (v0, v1, sum) = (xtea_encrypt_round key ^^ 32) (fst v, snd v, 0) in (v0, v1))"

definition xtea_decrypt_block :: "xtea_key \<Rightarrow> u32 \<times> u32 \<Rightarrow> u32 \<times> u32" where
  "xtea_decrypt_block key v =
     (let (v0, v1, sum) = (xtea_decrypt_round key ^^ 32) (fst v, snd v, 0xC6EF3720) in (v0, v1))"

section \<open>The loop over the words of the buffer\<close>

text \<open>
  \<open>rp\<close> is \<open>readPos\<close> after its increment in the loop condition; \<open>off\<close> is where the
  \<open>uint32_t*\<close> of the source points in \<open>m_buffer\<close>, \<open>nwords\<close> is \<open>messageLength >> 2\<close>.
\<close>

function xtea_loop :: "(u32 \<times> u32 \<Rightarrow> u32 \<times> u32) \<Rightarrow> nat \<Rightarrow> nat \<Rightarrow> nat \<Rightarrow> u8 list \<Rightarrow> u8 list option" where
  "xtea_loop f off nwords rp buf =
     (if rp < nwords then do {
        b0 \<leftarrow> mem_read buf (off + 4 * rp) 4;
        b1 \<leftarrow> mem_read buf (off + 4 * (rp + 1)) 4;
        let (v0, v1) = f (le_decode b0, le_decode b1);
        buf1 \<leftarrow> mem_write buf (off + 4 * rp) (le_encode 4 v0);
        buf2 \<leftarrow> mem_write buf1 (off + 4 * (rp + 1)) (le_encode 4 v1);
        xtea_loop f off nwords (rp + 2) buf2
      } else Some buf)"
  by pat_completeness auto
termination
  by (relation "measure (\<lambda>(f, off, nwords, rp, buf). nwords - rp)") auto

declare xtea_loop.simps [simp del]

section \<open>Decryption undoes encryption\<close>

lemma xtea_round_inverse: "xtea_decrypt_round key (xtea_encrypt_round key st) = st"
  by (cases st) (simp add: xtea_encrypt_round_def xtea_decrypt_round_def Let_def)

interpretation xtea_round: stepwise_inverse xtea_encrypt_round xtea_decrypt_round
  by unfold_locales (rule xtea_round_inverse)

lemma xtea_rounds_inverse:
  "(xtea_decrypt_round key ^^ n) ((xtea_encrypt_round key ^^ n) st) = st"
  by (induction n arbitrary: st) (simp_all add: funpow_swap1 xtea_round.bwd_fwd)

lemma xtea_encrypt_rounds_sum:
  "snd (snd ((xtea_encrypt_round key ^^ n) (v0, v1, s))) = s - of_nat n * xtea_delta"
proof (induction n)
  case (Suc n)
  have step: "snd (snd (xtea_encrypt_round key st)) = snd (snd st) - xtea_delta" for st
    by (cases st) (simp add: xtea_encrypt_round_def Let_def)
  show ?case by (simp add: step Suc.IH) (simp add: algebra_simps)
qed simp

lemma xtea_block_inverse: "xtea_decrypt_block key (xtea_encrypt_block key v) = v"
proof -
  obtain w0 w1 s where w: "(xtea_encrypt_round key ^^ 32) (fst v, snd v, 0) = (w0, w1, s)"
    by (cases "(xtea_encrypt_round key ^^ 32) (fst v, snd v, 0)") auto
  have "s = 0xC6EF3720"
    using xtea_encrypt_rounds_sum [of 32 key "fst v" "snd v" 0] w by (simp add: xtea_delta_def)
  moreover have "(xtea_decrypt_round key ^^ 32) (w0, w1, s) = (fst v, snd v, 0)"
    using xtea_rounds_inverse [of 32 key "(fst v, snd v, 0)"] w by simp
  ultimately show ?thesis
    by (simp add: xtea_encrypt_block_def xtea_decrypt_block_def w)
qed

interpretation xtea_block: stepwise_inverse xtea_encrypt_block xtea_decrypt_block
  by unfold_locales (rule xtea_block_inverse)

section \<open>The loop treats each block by itself\<close>

definition block_bytes :: "(u32 \<times> u32 \<Rightarrow> u32 \<times> u32) \<Rightarrow> u8 list \<Rightarrow> u8 list" where
  "block_bytes f bs =
     (let (v0, v1) = f (le_decode (take 4 bs), le_decode (take 4 (drop 4 bs)))
      in le_encode 4 v0 @ le_encode 4 v1)"

fun ecb :: "(u32 \<times> u32 \<Rightarrow> u32 \<times> u32) \<Rightarrow> nat \<Rightarrow> u8 list \<Rightarrow> u8 list" where
  "ecb f 0 bs = []"
| "ecb f (Suc n) bs = block_bytes f (take 8 bs) @ ecb f n (drop 8 bs)"

lemma length_block_bytes [simp]: "length (block_bytes f bs) = 8"
  by (simp add: block_bytes_def split: prod.split)

lemma length_ecb [simp]: "length (ecb f n bs) = 8 * n"
  by (induction n arbitrary: bs) auto

lemma block_bytes_inverse:
  assumes "\<And>v. g (f v) = v" and "length bs = 8"
  shows "block_bytes g (block_bytes f bs) = bs"
proof -
  define v where "v = (le_decode (take 4 bs) :: u32, le_decode (take 4 (drop 4 bs)) :: u32)"
  obtain w0 w1 where w: "f v = (w0, w1)" by (cases "f v")
  have enc: "block_bytes f bs = le_encode 4 w0 @ le_encode 4 w1"
    using w by (simp add: block_bytes_def v_def)
  have "le_decode (le_encode 4 w0) = w0" "le_decode (le_encode 4 w1) = w1"
    by (rule le_roundtrip, simp)+
  then have "block_bytes g (le_encode 4 w0 @ le_encode 4 w1) = (let (v0, v1) = g (w0, w1) in le_encode 4 v0 @ le_encode 4 v1)"
    by (simp add: block_bytes_def)
  also have "g (w0, w1) = v" using assms(1) w by metis
  also have "(let (v0, v1) = v in le_encode 4 v0 @ le_encode 4 v1) = take 4 bs @ take 4 (drop 4 bs)"
    using le_encode_decode [of "take 4 bs", where 'a = 32] le_encode_decode [of "take 4 (drop 4 bs)", where 'a = 32]
      assms(2) by (simp add: v_def)
  also have "\<dots> = bs" using assms(2) by (metis append_take_drop_id length_drop take_all_iff
      add_diff_cancel_left' numeral_Bit0 order_refl)
  finally show ?thesis using enc by simp
qed

lemma ecb_inverse:
  assumes "\<And>v. g (f v) = v" and "8 * n \<le> length bs"
  shows "ecb g n (ecb f n bs) = take (8 * n) bs"
  using assms(2)
proof (induction n arbitrary: bs)
  case (Suc n)
  have "ecb g (Suc n) (ecb f (Suc n) bs) = take 8 bs @ take (8 * n) (drop 8 bs)"
    using Suc block_bytes_inverse [of g f "take 8 bs", OF assms(1)] by simp
  then show ?case by (simp add: take_add)
qed simp

lemma ecb_append_block:
  "8 * n + 8 \<le> length bs \<Longrightarrow> ecb f (Suc n) bs = ecb f n bs @ block_bytes f (take 8 (drop (8 * n) bs))"
proof (induction n arbitrary: bs)
  case (Suc n)
  have "ecb f (Suc (Suc n)) bs = block_bytes f (take 8 bs) @ ecb f (Suc n) (drop 8 bs)"
    by (rule ecb.simps(2))
  also have "ecb f (Suc n) (drop 8 bs) = ecb f n (drop 8 bs) @ block_bytes f (take 8 (drop (8 * n) (drop 8 bs)))"
    using Suc.prems by (intro Suc.IH) simp
  finally show ?case by (simp add: add.commute)
qed simp

lemma ecb_take: "8 * n \<le> m \<Longrightarrow> ecb f n (take m bs) = ecb f n bs"
  by (induction n arbitrary: bs m) (auto simp: drop_take min_def)

text \<open>One round of the loop rewrites one block in place.\<close>

lemma xtea_loop_step:
  assumes "rp < nwords" and "off + 4 * rp + 8 \<le> length buf"
  shows "xtea_loop f off nwords rp buf = xtea_loop f off nwords (rp + 2)
     (take (off + 4 * rp) buf @ block_bytes f (take 8 (drop (off + 4 * rp) buf)) @ drop (off + 4 * rp + 8) buf)"
proof -
  define p where "p = off + 4 * rp"
  define ws where "ws = take 8 (drop p buf)"
  have p: "p + 8 \<le> length buf" using assms(2) by (simp add: p_def)
  have b0: "mem_read buf p 4 = Some (take 4 ws)"
    using assms by (simp add: mem_read_def p_def [symmetric] ws_def min_def)
  have b1: "mem_read buf (p + 4) 4 = Some (take 4 (drop 4 ws))"
    using assms by (simp add: mem_read_def p_def [symmetric] ws_def drop_take min_def add.commute)
  obtain v0 v1 where v: "f (le_decode (take 4 ws), le_decode (take 4 (drop 4 ws))) = (v0, v1)"
    by (cases "f (le_decode (take 4 ws), le_decode (take 4 (drop 4 ws)))")
  define buf1 where "buf1 = take p buf @ le_encode 4 v0 @ drop (p + 4) buf"
  have w0: "mem_write buf p (le_encode 4 v0) = Some buf1"
    using assms by (simp add: mem_write_def p_def [symmetric] buf1_def)
  have "mem_write buf1 (p + 4) (le_encode 4 v1) =
      Some (take p buf @ (le_encode 4 v0 @ le_encode 4 v1) @ drop (p + 8) buf)"
    using p by (simp add: mem_write_def buf1_def min_def add.commute [of 8])
  moreover have "block_bytes f ws = le_encode 4 v0 @ le_encode 4 v1"
    using v by (simp add: block_bytes_def)
  moreover have p4: "off + (4 + 4 * rp) = p + 4" by (simp add: p_def)
  ultimately show ?thesis
    using assms(1) b0 b1 v w0
    by (subst xtea_loop.simps) (simp add: p4 p_def [symmetric] ws_def [symmetric])
qed

lemma xtea_run:
  assumes "off + 8 * n \<le> length buf"
  shows "xtea_loop f off (2 * n) 0 buf =
     Some (take off buf @ ecb f n (drop off buf) @ drop (off + 8 * n) buf)"
proof -
  have "k \<le> n \<Longrightarrow> xtea_loop f off (2 * n) 0 buf = xtea_loop f off (2 * n) (2 * k)
      (take off buf @ ecb f k (drop off buf) @ drop (off + 8 * k) buf)" for k
  proof (induction k)
    case 0
    show ?case by simp
  next
    case (Suc k)
    let ?buf = "take off buf @ ecb f k (drop off buf) @ drop (off + 8 * k) buf"
    have len: "length (take off buf) = off" "off + 8 * k + 8 \<le> length ?buf"
      using assms Suc.prems by simp_all
    have "xtea_loop f off (2 * n) (2 * k) ?buf = xtea_loop f off (2 * n) (2 * k + 2)
       (take (off + 8 * k) ?buf @ block_bytes f (take 8 (drop (off + 8 * k) ?buf)) @ drop (off + 8 * k + 8) ?buf)"
      using xtea_loop_step [of "2 * k" "2 * n" off ?buf f] Suc.prems len by simp
    also have "take (off + 8 * k) ?buf = take off buf @ ecb f k (drop off buf)" using len by simp
    also have "drop (off + 8 * k) ?buf = drop (off + 8 * k) buf" using len by simp
    also have "drop (off + 8 * k + 8) ?buf = drop (off + 8 * Suc k) buf" using len by (simp add: ac_simps)
    finally show ?case
      using Suc assms ecb_append_block [of k "drop off buf" f] by (simp add: add.commute)
  qed
  from this [of n] show ?thesis by (simp add: xtea_loop.simps [of f off "2 * n" "2 * n"])
qed

text \<open>The in-place loop over the words is the block cipher applied to every block of
  eight bytes by itself: it changes exactly the message and nothing around it.\<close>

theorem xtea_loop_ecb:
  assumes "off + 8 * n \<le> length buf"
  shows "xtea_loop f off (2 * n) 0 buf =
     Some (take off buf @ ecb f n (drop off buf) @ drop (off + 8 * n) buf)"
  using assms by (rule xtea_run)

theorem xtea_loop_ecb_witness:
  "xtea_loop (xtea_encrypt_block [1, 2, 3, 4]) 1 2 0 (replicate 10 7) =
     Some (take 1 (replicate 10 7) @ ecb (xtea_encrypt_block [1, 2, 3, 4]) 1 (drop 1 (replicate 10 7)) @
           drop (1 + 8 * 1) (replicate 10 7))"
  using xtea_loop_ecb [of 1 1 "replicate 10 7" "xtea_encrypt_block [1, 2, 3, 4]"] by simp

end
