(* ===== verification/Tools.thy ===== *)
theory Tools
  imports Definitions
begin

unbundle bit_operations_syntax

text \<open>
  The string, number and checksum helpers of \<open>tools.cpp\<close>.

  Strings are passed by value or by reference in the source; a reference parameter that is
  changed is returned. The digests of OpenSSL are a parameter (\<open>hash_functions\<close>), and so
  are the numbers \<open>rand()\<close> returns. Loops that need not end are
  \<^theory_text>\<open>partial_function (option)\<close>: \<open>None\<close> is a loop that never returns. Where the code
  indexes a vector without a check, \<open>None\<close> is the access outside it. Lengths kept in
  \<open>uint32_t\<close> are taken to be below 4 GiB.
\<close>

section \<open>Characters\<close>

definition upchar :: "char \<Rightarrow> char" where
  "upchar c =
     (if (schar c \<ge> 97 \<and> schar c \<le> 122) \<or> (schar c \<le> -1 \<and> schar c \<ge> -32)
      then char_of (nat (int (of_char c) - 32)) else c)"

text \<open>\<open>tolower\<close> in the C locale.\<close>

definition tolower :: "char \<Rightarrow> char" where
  "tolower c = (if schar c \<ge> 65 \<and> schar c \<le> 90 then char_of (of_char c + 32 :: nat) else c)"

definition isNumber :: "char \<Rightarrow> bool" where
  "isNumber c \<longleftrightarrow> schar c \<ge> 48 \<and> schar c \<le> 57"

definition isLowercaseLetter :: "char \<Rightarrow> bool" where
  "isLowercaseLetter c \<longleftrightarrow> schar c \<ge> 97 \<and> schar c \<le> 122"

definition isUppercaseLetter :: "char \<Rightarrow> bool" where
  "isUppercaseLetter c \<longleftrightarrow> schar c \<ge> 65 \<and> schar c \<le> 90"

definition isPasswordCharacter :: "char \<Rightarrow> bool" where
  "isPasswordCharacter c \<longleftrightarrow>
     (schar c \<ge> 33 \<and> schar c \<le> 47) \<or> (schar c \<ge> 58 \<and> schar c \<le> 64) \<or>
     (schar c \<ge> 91 \<and> schar c \<le> 96) \<or> (schar c \<ge> 123 \<and> schar c \<le> 126)"

section \<open>Case, trimming, search\<close>

definition toLowerCaseString :: "string \<Rightarrow> string" where
  "toLowerCaseString s = map tolower s"

definition toUpperCaseString :: "string \<Rightarrow> string" where
  "toUpperCaseString s = map upchar s"

definition asLowerCaseString :: "string \<Rightarrow> string" where
  "asLowerCaseString s = toLowerCaseString s"

definition asUpperCaseString :: "string \<Rightarrow> string" where
  "asUpperCaseString s = toUpperCaseString s"

text \<open>\<open>find_last_not_of\<close> returns \<open>npos\<close> when nothing is left, and \<open>npos + 1\<close> is 0.\<close>

definition trim_right :: "string \<Rightarrow> string \<Rightarrow> string" where
  "trim_right s t = rev (dropWhile (\<lambda>c. c \<in> set t) (rev s))"

definition trim_left :: "string \<Rightarrow> string \<Rightarrow> string" where
  "trim_left s t = dropWhile (\<lambda>c. c \<in> set t) s"

definition trimString :: "string \<Rightarrow> string" where
  "trimString s = trim_left (trim_right s '' '') '' ''"

definition checkText :: "string \<Rightarrow> string \<Rightarrow> bool" where
  "checkText text str \<longleftrightarrow> asLowerCaseString (trimString text) = str"

definition booleanString :: "string \<Rightarrow> bool" where
  "booleanString s =
     (let s = toLowerCaseString s in s = ''yes'' \<or> s = ''true'' \<or> atoi s > 0)"

text \<open>\<open>std::string::find\<close> from a position.\<close>

fun find_str :: "string \<Rightarrow> string \<Rightarrow> nat option" where
  "find_str key [] = (if key = [] then Some 0 else None)"
| "find_str key (c # cs) =
     (if take (length key) (c # cs) = key then Some 0 else map_option Suc (find_str key cs))"

definition str_find :: "string \<Rightarrow> string \<Rightarrow> nat \<Rightarrow> nat option" where
  "str_find text key pos =
     (if pos \<le> length text then map_option (\<lambda>i. pos + i) (find_str key (drop pos text)) else None)"

partial_function (option) replace_loop :: "string \<Rightarrow> string \<Rightarrow> string \<Rightarrow> nat \<Rightarrow> string option" where
  "replace_loop text key val pos =
     (case str_find text key pos of
        None \<Rightarrow> Some text
      | Some start \<Rightarrow>
          replace_loop (take start text @ val @ drop (start + length key) text) key val
            (start + length val))"

definition replaceString :: "string \<Rightarrow> string \<Rightarrow> string \<Rightarrow> (bool \<times> string) option" where
  "replaceString text key val =
     (if str_find text key 0 = None then Some (False, text)
      else map_option (\<lambda>t. (True, t)) (replace_loop text key val 0))"

text \<open>The loops of \<open>ucfirst\<close> and \<open>ucwords\<close> count in \<open>uint16_t\<close> up to the truncated length.\<close>

fun ucfirst_loop :: "nat \<Rightarrow> string \<Rightarrow> string" where
  "ucfirst_loop n [] = []"
| "ucfirst_loop 0 s = s"
| "ucfirst_loop (Suc n) (c # cs) =
     (if c \<noteq> CHR '' '' then upchar c # cs else c # ucfirst_loop n cs)"

definition ucfirst :: "string \<Rightarrow> string" where
  "ucfirst s = ucfirst_loop (length s mod 2 ^ 16) s"

fun ucwords_loop :: "nat \<Rightarrow> bool \<Rightarrow> string \<Rightarrow> string" where
  "ucwords_loop n tmp [] = []"
| "ucwords_loop 0 tmp s = s"
| "ucwords_loop (Suc n) tmp (c # cs) =
     (if c = CHR '' '' then c # ucwords_loop n True cs
      else if tmp then upchar c # ucwords_loop n False cs
      else c # ucwords_loop n tmp cs)"

definition ucwords :: "string \<Rightarrow> string" where
  "ucwords s = ucwords_loop (length s mod 2 ^ 16) True s"

section \<open>Splitting\<close>

partial_function (option) explode_loop ::
  "string \<Rightarrow> string \<Rightarrow> bool \<Rightarrow> u16 \<Rightarrow> nat \<Rightarrow> u16 \<Rightarrow> string list \<Rightarrow> string list option" where
  "explode_loop s separator trim limit start i acc =
     (case str_find s separator start of
        None \<Rightarrow> Some (acc @ [drop start s])
      | Some e \<Rightarrow>
          (let t = take (e - start) (drop start s);
               t = (if trim then trimString t else t);
               start = e + length separator
           in if limit > 0 \<and> i + 1 > limit then Some ((acc @ [t]) @ [drop start s])
              else explode_loop s separator trim limit start (i + 1) (acc @ [t])))"

definition explodeString :: "string \<Rightarrow> string \<Rightarrow> bool \<Rightarrow> u16 \<Rightarrow> string list option" where
  "explodeString s separator trim limit = explode_loop s separator trim limit 0 1 []"

definition vectorAtoi :: "string list \<Rightarrow> int list" where
  "vectorAtoi v = map atoi (filter (\<lambda>s. atoi s \<noteq> 0 \<or> s = ''0'') v)"

fun parse_ranges :: "string list \<Rightarrow> int list \<Rightarrow> int list option" where
  "parse_ranges [] v = Some v"
| "parse_ranges (s # rest) v = do {
     parts \<leftarrow> explodeString s ''-'' True 0;
     (case vectorAtoi parts of
        [] \<Rightarrow> None
      | a # more \<Rightarrow>
          if a = 0 \<and> take 1 s \<noteq> ''0'' then parse_ranges rest v
          else (case more of
                  [] \<Rightarrow> parse_ranges rest (v @ [a])
                | b # _ \<Rightarrow> parse_ranges rest (v @ [a] @ (if a < b then [a + 1..b] else []))))
   }"

definition parseIntegerVec :: "string \<Rightarrow> int list \<Rightarrow> (bool \<times> int list) option" where
  "parseIntegerVec s v = do {
     parts \<leftarrow> explodeString s '';'' True 0;
     v' \<leftarrow> parse_ranges parts v;
     Some (True, v')
   }"

section \<open>Numbers\<close>

definition hasBitSet :: "u32 \<Rightarrow> u32 \<Rightarrow> bool" where
  "hasBitSet flag flags \<longleftrightarrow> flags AND flag = flag"

text \<open>\<open>rand24b\<close> with the two numbers \<open>rand()\<close> returns as arguments.\<close>

definition rand24b :: "int \<Rightarrow> int \<Rightarrow> u32" where
  "rand24b r1 r2 = ((push_bit 12 (u32_of_int r1)) XOR u32_of_int r2) AND 0xFFFFFF"

text \<open>\<open>random_range\<close> with the uniform distribution, the only one the server uses.\<close>

definition random_range :: "int \<Rightarrow> int \<Rightarrow> int \<Rightarrow> int \<Rightarrow> int" where
  "random_range r1 r2 lowestNumber highestNumber =
     (if highestNumber = lowestNumber then lowestNumber
      else let (lo, hi) = (if lowestNumber > highestNumber then (highestNumber, lowestNumber)
                           else (lowestNumber, highestNumber))
           in lo + uint (rand24b r1 r2) mod (hi - lo + 1))"

definition convertIPAddress :: "u32 \<Rightarrow> string" where
  "convertIPAddress ip =
     show_nat (unat (ip AND 0xFF)) @ ''.'' @ show_nat (unat (drop_bit 8 ip AND 0xFF)) @ ''.'' @
     show_nat (unat (drop_bit 16 ip AND 0xFF)) @ ''.'' @ show_nat (unat (drop_bit 24 ip))"

section \<open>Checksum\<close>

fun adler_bytes :: "u8 list \<Rightarrow> u32 \<times> u32 \<Rightarrow> u32 \<times> u32" where
  "adler_bytes [] ab = ab"
| "adler_bytes (x # xs) (a, b) = (let a = a + ucast x; b = b + a in adler_bytes xs (a, b))"

function adler_loop :: "u8 list \<Rightarrow> u32 \<times> u32 \<Rightarrow> u32 \<times> u32" where
  "adler_loop xs ab =
     (if xs = [] then ab
      else let tmp = (if length xs > 5552 then 5552 else length xs);
               (a, b) = adler_bytes (take tmp xs) ab
           in adler_loop (drop tmp xs) (a mod 65521, b mod 65521))"
  by pat_completeness auto
termination
  by (relation "measure (\<lambda>(xs, ab). length xs)") auto

declare adler_loop.simps [simp del]

definition adlerChecksum :: "u8 list \<Rightarrow> nat \<Rightarrow> u32" where
  "adlerChecksum xs n =
     (if n > NETWORK_MAX_SIZE \<or> n = 0 then 0
      else let (a, b) = adler_loop (take n xs) (1, 0) in push_bit 16 b OR a)"

section \<open>Account and character names\<close>

definition isValidAccountName :: "string \<Rightarrow> bool" where
  "isValidAccountName text \<longleftrightarrow> (\<forall>c \<in> set (toLowerCaseString text). isLowercaseLetter c \<or> isNumber c)"

definition isValidPassword :: "string \<Rightarrow> bool" where
  "isValidPassword text \<longleftrightarrow>
     (\<forall>c \<in> set (toLowerCaseString text). isLowercaseLetter c \<or> isNumber c \<or> isPasswordCharacter c)"

definition isNumbers :: "string \<Rightarrow> bool" where
  "isNumbers text \<longleftrightarrow> (\<forall>c \<in> set text. isNumber c)"

record name_scan =
  lenBeforeSpace :: nat
  lenBeforeQuote :: nat
  lenBeforeDash :: nat
  repeatedCharacter :: nat
  lastChar :: char

text \<open>
  One round of the loop of \<open>isValidName\<close> at a character with the one before and the rest
  after it; \<open>None\<close> is \<open>return false\<close>. A character that ends a word badly is the last one
  or is followed by a space.
\<close>

definition bad_end :: "string \<Rightarrow> bool" where
  "bad_end rest \<longleftrightarrow> (case rest of [] \<Rightarrow> True | d # _ \<Rightarrow> d = CHR '' '')"

definition name_round :: "char \<Rightarrow> char \<Rightarrow> string \<Rightarrow> name_scan \<Rightarrow> name_scan option" where
  "name_round prev c rest st = do {
     st \<leftarrow> (if c \<noteq> CHR '' '' then do {
         let st = st\<lparr>lenBeforeSpace := lenBeforeSpace st + 1\<rparr>;
         st \<leftarrow> (if c \<noteq> CHR 0x27 then Some (st\<lparr>lenBeforeQuote := lenBeforeQuote st + 1\<rparr>)
               else if lenBeforeQuote st \<le> 1 \<or> bad_end rest then None
               else Some (st\<lparr>lenBeforeQuote := 0\<rparr>));
         st \<leftarrow> (if c \<noteq> CHR ''-'' then Some (st\<lparr>lenBeforeDash := lenBeforeDash st + 1\<rparr>)
               else if lenBeforeDash st \<le> 1 \<or> bad_end rest then None
               else Some (st\<lparr>lenBeforeDash := 0\<rparr>));
         st \<leftarrow> (if c = lastChar st then
                 (if repeatedCharacter st + 1 > 2 then None
                  else Some (st\<lparr>repeatedCharacter := repeatedCharacter st + 1\<rparr>))
               else Some (st\<lparr>repeatedCharacter := 0\<rparr>));
         Some (st\<lparr>lastChar := c\<rparr>)
       }
       else if lenBeforeSpace st \<le> 1 \<or> bad_end rest then None
       else Some (st\<lparr>lenBeforeSpace := 0, lenBeforeQuote := 0, lenBeforeDash := 0\<rparr>));
     if isLowercaseLetter c \<or> c = CHR '' '' \<or> c = CHR 0x27 \<or> c = CHR ''-''
        \<or> (isUppercaseLetter c \<and> prev = CHR '' '')
     then Some st else None
   }"

fun name_loop :: "char \<Rightarrow> string \<Rightarrow> name_scan \<Rightarrow> bool" where
  "name_loop prev [] st = True"
| "name_loop prev (c # rest) st =
     (case name_round prev c rest st of None \<Rightarrow> False | Some st' \<Rightarrow> name_loop c rest st')"

definition isValidName :: "string \<Rightarrow> bool \<Rightarrow> bool" where
  "isValidName text forceUppercaseOnFirstLetter =
     (case text of
        [] \<Rightarrow> False
      | c # rest \<Rightarrow>
          (if forceUppercaseOnFirstLetter then isUppercaseLetter c
           else isLowercaseLetter c \<or> isUppercaseLetter c) \<and>
          name_loop c rest
            \<lparr>lenBeforeSpace = 1, lenBeforeQuote = 1, lenBeforeDash = 1,
             repeatedCharacter = 0, lastChar = CHR '' ''\<rparr>)"

section \<open>Password digests\<close>

record hash_functions =
  MD5 :: "u8 list \<Rightarrow> u8 list"
  SHA1 :: "u8 list \<Rightarrow> u8 list"
  SHA256 :: "u8 list \<Rightarrow> u8 list"
  SHA512 :: "u8 list \<Rightarrow> u8 list"

definition hex_digit :: "nat \<Rightarrow> char" where
  "hex_digit d = (if d < 10 then char_of (48 + d) else char_of (55 + d))"

text \<open>\<open>sprintf\<close> with \<open>%.2X\<close>.\<close>

definition hex_byte :: "u8 \<Rightarrow> string" where
  "hex_byte b = [hex_digit (unat b div 16), hex_digit (unat b mod 16)]"

definition hex_digest :: "u8 list \<Rightarrow> bool \<Rightarrow> string" where
  "hex_digest md upperCase =
     (let output = concat (map hex_byte md) in if upperCase then output else asLowerCaseString output)"

definition transformToMD5 :: "hash_functions \<Rightarrow> string \<Rightarrow> bool \<Rightarrow> string" where
  "transformToMD5 H plainText upperCase = hex_digest (MD5 H (bytes_of_string plainText)) upperCase"

definition transformToSHA1 :: "hash_functions \<Rightarrow> string \<Rightarrow> bool \<Rightarrow> string" where
  "transformToSHA1 H plainText upperCase = hex_digest (SHA1 H (bytes_of_string plainText)) upperCase"

definition transformToSHA256 :: "hash_functions \<Rightarrow> string \<Rightarrow> bool \<Rightarrow> string" where
  "transformToSHA256 H plainText upperCase = hex_digest (SHA256 H (bytes_of_string plainText)) upperCase"

definition transformToSHA512 :: "hash_functions \<Rightarrow> string \<Rightarrow> bool \<Rightarrow> string" where
  "transformToSHA512 H plainText upperCase = hex_digest (SHA512 H (bytes_of_string plainText)) upperCase"

text \<open>\<open>enc\<close> is the number configured as \<open>ENCRYPTION\<close>.\<close>

definition encrypt :: "hash_functions \<Rightarrow> int \<Rightarrow> string \<Rightarrow> bool \<Rightarrow> string" where
  "encrypt H enc str upperCase =
     (if enc = encryption_number ENCRYPTION_MD5 then transformToMD5 H str upperCase
      else if enc = encryption_number ENCRYPTION_SHA1 then transformToSHA1 H str upperCase
      else if enc = encryption_number ENCRYPTION_SHA256 then transformToSHA256 H str upperCase
      else if enc = encryption_number ENCRYPTION_SHA512 then transformToSHA512 H str upperCase
      else if upperCase then map upchar str else str)"

definition encryptTest :: "hash_functions \<Rightarrow> int \<Rightarrow> string \<Rightarrow> string \<Rightarrow> bool \<times> string" where
  "encryptTest H enc plain hash =
     (let hash = map upchar hash; plain = encrypt H enc plain True in (plain = hash, hash))"

section \<open>Paths\<close>

datatype file_type = FILE_TYPE_LOG | FILE_TYPE_OTHER | FILE_TYPE_CONFIG

fun getFilePath :: "file_type \<Rightarrow> string \<Rightarrow> string" where
  "getFilePath FILE_TYPE_OTHER name = name"
| "getFilePath FILE_TYPE_LOG name = ''logs/'' @ name"
| "getFilePath FILE_TYPE_CONFIG name = name"

section \<open>The checksum is Adler-32\<close>

text \<open>The definition of Adler-32: both sums are reduced after every byte.\<close>

definition adler_ref_step :: "u8 \<Rightarrow> nat \<times> nat \<Rightarrow> nat \<times> nat" where
  "adler_ref_step x ab = (let a = (fst ab + unat x) mod 65521 in (a, (snd ab + a) mod 65521))"

definition adler32_ref :: "u8 list \<Rightarrow> nat" where
  "adler32_ref xs = (let (a, b) = fold adler_ref_step xs (1, 0) in 65536 * b + a)"

definition adler_abs :: "u32 \<times> u32 \<Rightarrow> nat \<times> nat" where
  "adler_abs ab = (unat (fst ab) mod 65521, unat (snd ab) mod 65521)"

text \<open>After \<open>k\<close> bytes without a reduction the sums stay within these bounds.\<close>

definition adler_bound :: "nat \<Rightarrow> u32 \<times> u32 \<Rightarrow> bool" where
  "adler_bound k ab \<longleftrightarrow> unat (fst ab) \<le> 65520 + 255 * k \<and>
     2 * unat (snd ab) \<le> 131040 + 131040 * k + 255 * k * (k + 1)"

lemma unat_byte_le: "unat (x :: u8) \<le> 255"
  using unsigned_less [of x, where 'a = nat] by simp

lemma adler_step_sums:
  assumes "adler_bound k (a, b)" and "k < 5552"
  shows "unat (a + ucast x) = unat a + unat (x :: u8)"
    and "unat (b + (a + ucast x)) = unat b + (unat a + unat x)"
    and "adler_bound (Suc k) (a + ucast x, b + (a + ucast x))"
proof -
  have x: "unat (ucast x :: u32) = unat x"
    using unat_byte_le [of x] by (simp add: unsigned_ucast_eq take_bit_nat_eq_self)
  have a: "unat a \<le> 65520 + 255 * k" and b: "2 * unat b \<le> 131040 + 131040 * k + 255 * k * (k + 1)"
    using assms(1) by (simp_all add: adler_bound_def)
  have k: "k \<le> 5551" using assms(2) by simp
  have kk: "k * k \<le> 5551 * 5551" using mult_le_mono [OF k k] .
  show sa: "unat (a + ucast x) = unat a + unat x"
    using a k unat_byte_le [of x] by (simp add: unat_word_ariths x)
  have "unat b + (unat a + unat x) < 2 ^ 32"
    using a b k kk unat_byte_le [of x] by (simp add: algebra_simps)
  then show sb: "unat (b + (a + ucast x)) = unat b + (unat a + unat x)"
    by (simp add: unat_word_ariths(1) [of b "a + ucast x"] sa)
  show "adler_bound (Suc k) (a + ucast x, b + (a + ucast x))"
    unfolding adler_bound_def fst_conv snd_conv sa sb
    using a b unat_byte_le [of x] by (simp add: algebra_simps)
qed

lemma adler_abs_step:
  assumes "adler_bound k (a, b)" and "k < 5552"
  shows "adler_abs (a + ucast x, b + (a + ucast x)) = adler_ref_step x (adler_abs (a, b))"
  by (simp add: adler_abs_def adler_ref_step_def adler_step_sums [OF assms] Let_def mod_simps)

lemma adler_bytes_ref:
  assumes "adler_bound k ab" and "k + length xs \<le> 5552"
  shows "adler_abs (adler_bytes xs ab) = fold adler_ref_step xs (adler_abs ab)"
  using assms
proof (induction xs ab arbitrary: k rule: adler_bytes.induct)
  case (2 x xs a b)
  have "adler_bound (Suc k) (a + ucast x, b + (a + ucast x))"
    using 2 by (intro adler_step_sums(3)) auto
  then show ?case
    using 2 by (simp add: Let_def adler_abs_step [of k])
qed simp

lemma adler_bound_0: "unat a < 65521 \<Longrightarrow> unat b < 65521 \<Longrightarrow> adler_bound 0 (a, b)"
  by (simp add: adler_bound_def)

lemma adler_abs_mod [simp]: "adler_abs (a mod 65521, b mod 65521) = adler_abs (a, b)"
  by (simp add: adler_abs_def unat_mod)

lemma adler_loop_ref:
  assumes "unat (fst ab) < 65521" and "unat (snd ab) < 65521"
  shows "adler_abs (adler_loop xs ab) = fold adler_ref_step xs (adler_abs ab) \<and>
     unat (fst (adler_loop xs ab)) < 65521 \<and> unat (snd (adler_loop xs ab)) < 65521"
  using assms
proof (induction xs ab rule: adler_loop.induct)
  case (1 xs ab)
  show ?case
  proof (cases "xs = []")
    case True
    then show ?thesis using "1.prems" by (simp add: adler_loop.simps)
  next
    case False
    define tmp where "tmp = (if length xs > 5552 then 5552 else length xs)"
    obtain a b where ab: "adler_bytes (take tmp xs) ab = (a, b)" by (cases "adler_bytes (take tmp xs) ab")
    have unfold: "adler_loop xs ab = adler_loop (drop tmp xs) (a mod 65521, b mod 65521)"
      using False ab by (subst adler_loop.simps) (simp add: tmp_def Let_def)
    have small: "unat (fst (a mod 65521, b mod 65521 :: u32)) < 65521"
      "unat (snd (a mod 65521, b mod 65521 :: u32)) < 65521"
      by (simp_all add: unat_mod)
    note IH = "1.IH" [OF False tmp_def ab [symmetric] refl small]
    have "adler_abs (a, b) = fold adler_ref_step (take tmp xs) (adler_abs ab)"
      using adler_bytes_ref [of 0 ab "take tmp xs"] "1.prems" ab
      by (cases ab) (simp add: adler_bound_0 tmp_def)
    then have "fold adler_ref_step (drop tmp xs) (adler_abs (a, b)) = fold adler_ref_step xs (adler_abs ab)"
      by (metis append_take_drop_id comp_apply fold_append)
    then show ?thesis using IH unfold by simp
  qed
qed

lemma push_bit_or_eq_add:
  assumes "a < 2 ^ n"
  shows "push_bit n b OR a = push_bit n b + (a :: nat)"
proof (rule disjunctive_add_eq_or [symmetric])
  have "\<not> (bit (push_bit n b) k \<and> bit a k)" for k
  proof
    assume k: "bit (push_bit n b) k \<and> bit a k"
    then have "n \<le> k" by (simp add: bit_push_bit_iff_nat)
    moreover have "take_bit n a = a" using assms by (simp add: take_bit_nat_eq_self)
    ultimately show False using k by (metis bit_take_bit_iff not_le)
  qed
  then show "push_bit n b AND a = 0" by (auto intro!: bit_eqI simp: bit_and_iff)
qed

text \<open>C22. The unrolled checksum, which reduces the sums only every 5552 bytes in 32-bit
  arithmetic, computes Adler-32 of its bytes for every length the server uses: no sum
  overflows.\<close>

theorem adlerChecksum_is_adler32:
  assumes "0 < n" and "n \<le> NETWORK_MAX_SIZE"
  shows "unat (adlerChecksum xs n) = adler32_ref (take n xs)"
proof -
  obtain a b where ab: "adler_loop (take n xs) (1, 0) = (a, b)" by (cases "adler_loop (take n xs) (1, 0)")
  have ref: "adler_abs (a, b) = fold adler_ref_step (take n xs) (1, 0)"
    and small: "unat a < 65521" "unat b < 65521"
    using adler_loop_ref [of "(1, 0)" "take n xs"] ab by (simp_all add: adler_abs_def [of "(1, 0)"])
  then have ref: "fold adler_ref_step (take n xs) (1, 0) = (unat a, unat b)"
    by (simp add: adler_abs_def)
  have "push_bit 16 (unat b) < 2 ^ 32" using small by (simp add: push_bit_eq_mult)
  then have "unat (push_bit 16 b OR a) = push_bit 16 (unat b) OR unat a"
    by (simp only: unsigned_or_eq unsigned_push_bit_eq) (simp add: take_bit_nat_eq_self)
  also have "\<dots> = push_bit 16 (unat b) + unat a"
    using small by (intro push_bit_or_eq_add) simp
  also have "\<dots> = adler32_ref (take n xs)"
    unfolding adler32_ref_def ref by (simp add: push_bit_eq_mult)
  finally show ?thesis
    using assms by (simp add: adlerChecksum_def ab)
qed

theorem adlerChecksum_is_adler32_witness:
  "unat (adlerChecksum [0x57, 0x69, 0x6B, 0x69] 4) = adler32_ref [0x57, 0x69, 0x6B, 0x69] \<and>
   adler32_ref [0x57, 0x69, 0x6B, 0x69] = 0x03DA0195"
proof
  show "unat (adlerChecksum [0x57, 0x69, 0x6B, 0x69] 4) = adler32_ref [0x57, 0x69, 0x6B, 0x69]"
    using adlerChecksum_is_adler32 [of 4 "[0x57, 0x69, 0x6B, 0x69]"] by (simp add: layout)
  show "adler32_ref [0x57, 0x69, 0x6B, 0x69] = 0x03DA0195"
    by (simp add: adler32_ref_def adler_ref_step_def)
qed

section \<open>Searching and replacing\<close>

lemma find_str_Some:
  "find_str key s = Some i \<Longrightarrow> i + length key \<le> length s \<and> take (length key) (drop i s) = key"
proof (induction key s arbitrary: i rule: find_str.induct)
  case (2 key c cs)
  show ?case
  proof (cases "take (length key) (c # cs) = key")
    case True
    then have "length key \<le> length (c # cs)" by (metis length_take min.cobounded1)
    with True 2 show ?thesis by simp
  next
    case False
    with 2 show ?thesis by auto
  qed
qed (auto split: if_splits)

lemma find_str_empty [simp]: "find_str [] s = Some 0"
  by (cases s) auto

lemma str_find_Some:
  assumes "str_find tx key pos = Some i"
  shows "pos \<le> i" "i + length key \<le> length tx" "find_str key (drop pos tx) = Some (i - pos)"
    "take (length key) (drop i tx) = key"
proof -
  from assms obtain j where j: "find_str key (drop pos tx) = Some j" "i = pos + j" "pos \<le> length tx"
    by (auto simp: str_find_def split: if_splits)
  note found = find_str_Some [OF j(1)]
  show "pos \<le> i" "find_str key (drop pos tx) = Some (i - pos)"
    using j by simp_all
  show "i + length key \<le> length tx" using found j by auto
  show "take (length key) (drop i tx) = key" using found j(2) by (simp add: add.commute)
qed

lemma str_find_None: "pos \<le> length tx \<Longrightarrow> str_find tx key pos = None \<longleftrightarrow> find_str key (drop pos tx) = None"
  by (simp add: str_find_def)

text \<open>The specification: replace from left to right, never inside what was inserted.\<close>

function replace_all :: "string \<Rightarrow> string \<Rightarrow> string \<Rightarrow> string" where
  "replace_all key val s =
     (if key = [] then s
      else case find_str key s of
        None \<Rightarrow> s
      | Some i \<Rightarrow> take i s @ val @ replace_all key val (drop (i + length key) s))"
  by pat_completeness auto
termination
  by (relation "measure (\<lambda>(key, val, s). length s)") (auto dest!: find_str_Some simp: length_greater_0_conv [symmetric] simp del: length_greater_0_conv)

declare replace_all.simps [simp del]

lemma replace_loop_all:
  assumes "key \<noteq> []" and "pos \<le> length tx"
  shows "replace_loop tx key val pos = Some (take pos tx @ replace_all key val (drop pos tx))"
  using assms(2)
proof (induction "length tx - pos" arbitrary: tx pos rule: less_induct)
  case less
  show ?case
  proof (cases "str_find tx key pos")
    case None
    then have "find_str key (drop pos tx) = None"
      using str_find_None [OF less.prems] by simp
    then show ?thesis
      using None assms(1) by (simp add: replace_loop.simps [of tx] replace_all.simps [of key])
  next
    case (Some i)
    note i = str_find_Some [OF Some]
    define tx' where "tx' = take i tx @ val @ drop (i + length key) tx"
    have len: "length (take i tx) = i" using i by simp
    have smaller: "length tx' - (i + length val) < length tx - pos"
      using i assms(1) by (simp add: tx'_def) (cases key; simp)
    have "replace_loop tx key val pos = replace_loop tx' key val (i + length val)"
      using Some by (subst replace_loop.simps) (simp add: tx'_def)
    also have "\<dots> = Some (take (i + length val) tx' @ replace_all key val (drop (i + length val) tx'))"
      using smaller i by (intro less.hyps) (simp_all add: tx'_def)
    also have "take (i + length val) tx' = take i tx @ val"
      using len by (simp add: tx'_def)
    also have "drop (i + length val) tx' = drop (i + length key) tx"
      using len by (simp add: tx'_def)
    finally have loop: "replace_loop tx key val pos =
        Some ((take i tx @ val) @ replace_all key val (drop (i + length key) tx))" .
    have "take i tx = take pos tx @ take (i - pos) (drop pos tx)"
      using i(1) by (metis le_add_diff_inverse take_add)
    moreover have "drop (i - pos + length key) (drop pos tx) = drop (i + length key) tx"
      using i(1) by (simp add: add.commute)
    ultimately show ?thesis
      using loop assms(1) i(3) by (simp add: replace_all.simps [of key val "drop pos tx"])
  qed
qed

lemma replace_loop_empty_key: "pos \<le> length tx \<Longrightarrow> replace_loop tx [] val pos = None"
proof (rule ccontr)
  assume pos: "pos \<le> length tx" and "replace_loop tx [] val pos \<noteq> None"
  then obtain r where ret: "replace_loop tx [] val pos = Some r" by auto
  have "\<not> ([] = ([] :: string) \<and> pos \<le> length tx)"
  proof (rule replace_loop.raw_induct [where P = "\<lambda>t k v p r. \<not> (k = [] \<and> p \<le> length t)", OF _ ret])
    fix f and t k v :: string and p :: nat and r
    assume IH: "\<And>t k v p r. f t k v p = Some r \<Longrightarrow> \<not> (k = [] \<and> p \<le> length t)"
      and eq: "(case str_find t k p of None \<Rightarrow> Some t
        | Some start \<Rightarrow> f (take start t @ v @ drop (start + length k) t) k v (start + length v)) = Some r"
    show "\<not> (k = [] \<and> p \<le> length t)"
    proof
      assume k: "k = [] \<and> p \<le> length t"
      then have "str_find t k p = Some p" by (simp add: str_find_def)
      with eq k have "f (take p t @ v @ drop p t) [] v (p + length v) = Some r" by simp
      from IH [OF this] k show False by simp
    qed
  qed
  with pos show False by simp
qed

text \<open>\<open>replaceString\<close> with a non-empty key returns, and its result is the tx with
  every occurrence replaced from left to right.\<close>

theorem replaceString_replaces:
  assumes "key \<noteq> []"
  shows "replaceString tx key val = Some (find_str key tx \<noteq> None, replace_all key val tx)"
proof (cases "find_str key tx")
  case None
  then show ?thesis
    using assms by (simp add: replaceString_def str_find_def replace_all.simps [of key])
next
  case (Some i)
  then show ?thesis
    using replace_loop_all [OF assms, of 0 tx val] by (simp add: replaceString_def str_find_def)
qed

theorem replaceString_replaces_witness:
  "replaceString ''a-b-c'' ''-'' ''+'' = Some (True, ''a+b+c'')"
  using replaceString_replaces [of "''-''" "''a-b-c''" "''+''"] by (simp add: replace_all.simps)

text \<open>With an empty key the loop of \<open>replaceString\<close> never returns: each round finds the
  empty string again behind what it inserted.\<close>

theorem replaceString_empty_key_diverges: "replaceString tx [] val = None"
  by (simp add: replaceString_def str_find_def replace_loop_empty_key)

section \<open>Splitting and joining\<close>

fun join_str :: "string \<Rightarrow> string list \<Rightarrow> string" where
  "join_str sep [] = []"
| "join_str sep [x] = x"
| "join_str sep (x # y # ys) = x @ sep @ join_str sep (y # ys)"

definition trim_pieces :: "bool \<Rightarrow> string list \<Rightarrow> string list" where
  "trim_pieces trim ps = map (if trim then trimString else id) (butlast ps) @ [last ps]"

lemma join_str_Cons: "ps \<noteq> [] \<Longrightarrow> join_str sep (x # ps) = x @ sep @ join_str sep ps"
  by (cases ps) auto

lemma trim_pieces_Cons:
  "ps \<noteq> [] \<Longrightarrow> trim_pieces trim (x # ps) = (if trim then trimString x else x) # trim_pieces trim ps"
  by (simp add: trim_pieces_def)

lemma split_at_found:
  assumes "str_find s separator start = Some e"
  shows "drop start s = take (e - start) (drop start s) @ separator @ drop (e + length separator) s"
proof -
  note e = str_find_Some [OF assms]
  have "drop start s = take (e - start) (drop start s) @ drop e s"
    using e(1) by (metis append_take_drop_id drop_drop le_add_diff_inverse2)
  moreover have "drop e s = separator @ drop (e + length separator) s"
    using e(4) by (metis add.commute append_take_drop_id drop_drop)
  ultimately show ?thesis by simp
qed

lemma explode_loop_pieces:
  assumes "separator \<noteq> []" and "start \<le> length s"
  shows "\<exists>ps. explode_loop s separator trim limit start i acc = Some (acc @ trim_pieces trim ps) \<and>
     ps \<noteq> [] \<and> join_str separator ps = drop start s \<and>
     (limit = 0 \<longrightarrow> find_str separator (last ps) = None)"
  using assms(2)
proof (induction "length s - start" arbitrary: start i acc rule: less_induct)
  case less
  show ?case
  proof (cases "str_find s separator start")
    case None
    then have "find_str separator (drop start s) = None"
      using str_find_None [OF less.prems] by simp
    then show ?thesis
      using None by (intro exI [of _ "[drop start s]"])
        (simp add: explode_loop.simps [of s] trim_pieces_def)
  next
    case (Some e)
    note e = str_find_Some [OF Some]
    define t where "t = take (e - start) (drop start s)"
    define start' where "start' = e + length separator"
    define u where "u = (if trim then trimString t else t)"
    have split: "drop start s = t @ separator @ drop start' s"
      unfolding t_def start'_def by (rule split_at_found [OF Some])
    show ?thesis
    proof (cases "limit > 0 \<and> i + 1 > limit")
      case True
      have "explode_loop s separator trim limit start i acc = Some ((acc @ [u]) @ [drop start' s])"
        using Some True
        by (subst explode_loop.simps) (simp add: t_def [symmetric] start'_def u_def Let_def)
      moreover have "join_str separator [t, drop start' s] = drop start s" using split by simp
      ultimately show ?thesis
        using True by (intro exI [of _ "[t, drop start' s]"]) (auto simp: trim_pieces_def u_def)
    next
      case False
      have "length s - start' < length s - start" "start' \<le> length s"
        using e assms(1) less.prems by (cases separator; simp add: start'_def)+
      from less.hyps [OF this, of "i + 1" "acc @ [u]"] obtain ps where
        ps: "explode_loop s separator trim limit start' (i + 1) (acc @ [u]) =
               Some ((acc @ [u]) @ trim_pieces trim ps)" "ps \<noteq> []"
          "join_str separator ps = drop start' s" "limit = 0 \<longrightarrow> find_str separator (last ps) = None"
        by blast
      have "explode_loop s separator trim limit start i acc =
          explode_loop s separator trim limit start' (i + 1) (acc @ [u])"
        using Some False
        by (subst explode_loop.simps) (auto simp: t_def [symmetric] start'_def u_def Let_def)
      with ps split show ?thesis
        by (intro exI [of _ "t # ps"]) (auto simp: join_str_Cons trim_pieces_Cons u_def)
    qed
  qed
qed

text \<open>C37. \<open>explodeString\<close> with a non-empty separator returns: the untrimmed pieces joined
  with the separator are the whole string, every piece but the last is trimmed when asked
  for (the last one never is), and without a limit the last piece holds no separator.\<close>

theorem explodeString_joins:
  assumes "separator \<noteq> []"
  shows "\<exists>ps. explodeString s separator trim limit = Some (trim_pieces trim ps) \<and>
     join_str separator ps = s \<and> (limit = 0 \<longrightarrow> find_str separator (last ps) = None)"
  using explode_loop_pieces [OF assms, of 0 s trim limit 1 "[]"] by (auto simp: explodeString_def)

theorem explodeString_joins_witness:
  "\<exists>ps. explodeString ''--path=/etc'' ''='' True 0 = Some (trim_pieces True ps) \<and>
     join_str ''='' ps = ''--path=/etc'' \<and> (0 = (0 :: u16) \<longrightarrow> find_str ''='' (last ps) = None)"
  by (rule explodeString_joins) simp

section \<open>Addresses\<close>

lemma split_at_dot:
  assumes "xs @ CHR ''.'' # ys = xs' @ CHR ''.'' # ys'" and "CHR ''.'' \<notin> set xs" and "CHR ''.'' \<notin> set xs'"
  shows "xs = xs' \<and> ys = ys'"
  using assms
proof (induction xs arbitrary: xs')
  case Nil
  then show ?case by (cases xs') auto
next
  case (Cons x xs)
  then show ?case by (cases xs') auto
qed

lemma show_nat_no_dot: "CHR ''.'' \<notin> set (show_nat n)"
  using show_nat_digits digit_char_not_special by blast

lemma address_bytes_determine:
  fixes v w :: u32
  assumes "take_bit 8 v = take_bit 8 w" and "take_bit 8 (drop_bit 8 v) = take_bit 8 (drop_bit 8 w)"
    and "take_bit 8 (drop_bit 16 v) = take_bit 8 (drop_bit 16 w)" and "drop_bit 24 v = drop_bit 24 w"
  shows "v = w"
proof (rule bit_word_eqI)
  fix k assume "k < LENGTH(32)"
  have piece: "bit x k = bit y k" if "take_bit 8 (drop_bit n x) = take_bit 8 (drop_bit n y)" "n \<le> k" "k < n + 8"
    for x y :: u32 and n
  proof -
    have "bit (take_bit 8 (drop_bit n x)) (k - n) = bit (take_bit 8 (drop_bit n y)) (k - n)"
      using that(1) by simp
    moreover have "k - n < 8" using that(2,3) by linarith
    ultimately show ?thesis using that(2) by (simp add: bit_simps)
  qed
  consider "k < 8" | "8 \<le> k" "k < 16" | "16 \<le> k" "k < 24" | "24 \<le> k" by linarith
  then show "bit v k = bit w k"
  proof cases
    case 1
    then show ?thesis using assms(1) piece [of 0 v w] by simp
  next
    case 2
    then show ?thesis using assms(2) piece [of 8 v w] by simp
  next
    case 3
    then show ?thesis using assms(3) piece [of 16 v w] by simp
  next
    case 4
    then have "bit (drop_bit 24 v) (k - 24) = bit (drop_bit 24 w) (k - 24)" using assms(4) by simp
    then show ?thesis using 4 by (simp add: bit_simps)
  qed
qed

lemma and_255_take_bit: "(w :: u32) AND 0xFF = take_bit 8 w"
  by (simp add: take_bit_eq_mask mask_eq_exp_minus_1)

text \<open>The printed form of an address determines the address, so the comparison of a ban's
  target with the printed address of a client is a comparison of addresses.\<close>

theorem convertIPAddress_inj: "convertIPAddress v = convertIPAddress w \<longleftrightarrow> v = w"
proof
  assume eq: "convertIPAddress v = convertIPAddress w"
  have split: "a = b \<and> ys = ys'" if "show_nat a @ ''.'' @ ys = show_nat b @ ''.'' @ ys'" for a b ys ys'
    using split_at_dot [of "show_nat a" ys "show_nat b" ys'] show_nat_no_dot show_nat_inj that by simp
  note 1 = split [OF eq [unfolded convertIPAddress_def]]
  note 2 = split [OF 1 [THEN conjunct2]]
  note 3 = split [OF 2 [THEN conjunct2]]
  note 4 = show_nat_inj [OF 3 [THEN conjunct2]]
  show "v = w"
    by (rule address_bytes_determine)
      (fact 1 [THEN conjunct1, THEN unsigned_word_eqI, unfolded and_255_take_bit]
        2 [THEN conjunct1, THEN unsigned_word_eqI, unfolded and_255_take_bit]
        3 [THEN conjunct1, THEN unsigned_word_eqI, unfolded and_255_take_bit]
        4 [THEN unsigned_word_eqI])+
qed simp

section \<open>Random indices\<close>

lemma random_range_bounds:
  assumes "lo \<le> hi"
  shows "lo \<le> random_range r1 r2 lo hi \<and> random_range r1 r2 lo hi \<le> hi"
proof (cases "lo = hi")
  case False
  then have "0 \<le> uint (rand24b r1 r2) mod (hi - lo + 1)" "uint (rand24b r1 r2) mod (hi - lo + 1) < hi - lo + 1"
    using assms by (intro pos_mod_sign pos_mod_bound; simp)+
  then show ?thesis
    using False assms by (simp add: random_range_def)
qed (simp add: random_range_def)

section \<open>Password checks\<close>

lemma upchar_hex_digit: "d < 16 \<Longrightarrow> upchar (hex_digit d) = hex_digit d"
  by (auto simp: upchar_def hex_digit_def schar_def Let_def of_char_of)

lemma upchar_tolower_hex_digit: "d < 16 \<Longrightarrow> upchar (tolower (hex_digit d)) = hex_digit d"
  by (auto simp: upchar_def tolower_def hex_digit_def schar_def Let_def of_char_of)

lemma hex_digit_inj: "d < 16 \<Longrightarrow> e < 16 \<Longrightarrow> hex_digit d = hex_digit e \<Longrightarrow> d = e"
proof -
  assume "d < 16" "e < 16" "hex_digit d = hex_digit e"
  then have "(of_char (hex_digit d) :: nat) = of_char (hex_digit e)" by simp
  then show ?thesis using \<open>d < 16\<close> \<open>e < 16\<close> by (auto simp: hex_digit_def split: if_splits)
qed

lemma nibbles: "unat (b :: u8) div 16 < 16" "unat b mod 16 < 16"
  using unat_byte_le [of b] by auto

lemma hex_byte_inj: "hex_byte b = hex_byte c \<Longrightarrow> b = c"
proof -
  assume "hex_byte b = hex_byte c"
  then have "unat b div 16 = unat c div 16" "unat b mod 16 = unat c mod 16"
    by (auto simp: hex_byte_def intro: hex_digit_inj nibbles)
  then have "unat b = unat c" by (metis mult_div_mod_eq)
  then show ?thesis by (rule unsigned_word_eqI)
qed

lemma hex_bytes_inj: "concat (map hex_byte xs) = concat (map hex_byte ys) \<Longrightarrow> xs = ys"
proof (induction xs arbitrary: ys)
  case Nil
  then show ?case by (cases ys) (auto simp: hex_byte_def)
next
  case (Cons x xs)
  then obtain y ys' where ys: "ys = y # ys'" by (cases ys) (auto simp: hex_byte_def)
  with Cons.prems have "hex_byte x = hex_byte y" "concat (map hex_byte xs) = concat (map hex_byte ys')"
    by (simp_all add: hex_byte_def [of x] hex_byte_def [of y])
  then show ?case using Cons.IH hex_byte_inj ys by blast
qed

lemma upchar_hex_digest: "map upchar (hex_digest md b) = hex_digest md True"
  by (induction md)
    (auto simp: hex_digest_def hex_byte_def Let_def upchar_hex_digit upchar_tolower_hex_digit nibbles
      asLowerCaseString_def toLowerCaseString_def)

lemma hex_digest_inj: "hex_digest md True = hex_digest md' True \<longleftrightarrow> md = md'"
  by (auto simp: hex_digest_def dest: hex_bytes_inj)

text \<open>Password check with SHA1: against a stored hexadecimal digest in either letter case,
  \<open>encryptTest\<close> accepts a password exactly when the SHA1 digest of the salted password
  is the stored digest.\<close>

theorem encryptTest_sha1:
  "fst (encryptTest H (encryption_number ENCRYPTION_SHA1) plain (hex_digest md lettercase)) \<longleftrightarrow>
     SHA1 H (bytes_of_string plain) = md"
  by (simp add: encryptTest_def encrypt_def transformToSHA1_def upchar_hex_digest hex_digest_inj Let_def)

end
