(* ===== verification/Output_Message.thy ===== *)
theory Output_Message
  imports Network_Message Tools
begin

unbundle bit_operations_syntax

text \<open>
  The outgoing message of \<open>net/outputmessage.h\<close>: the message buffer with the place of the
  headers in front of the body. The record extends \<open>network_message\<close> as the class does.
  Pointers to the protocol and the connection are handles (numbers).
\<close>

datatype output_message_state =
  STATE_FREE | STATE_ALLOCATED | STATE_ALLOCATED_NO_AUTOSEND | STATE_WAITING

record output_message = network_message +
  m_protocol :: "nat option"
  m_connection :: "nat option"
  m_state :: output_message_state
  m_frame :: u64
  m_outputBufferStart :: u32

section \<open>Operations\<close>

definition om_freeMessage :: "output_message \<Rightarrow> output_message" where
  "om_freeMessage m =
     m\<lparr>m_connection := None, m_protocol := None, m_frame := 0,
       m_outputBufferStart := of_nat NETWORK_CRYPTOHEADER_SIZE, m_state := STATE_FREE\<rparr>"

text \<open>The constructor: \<open>NetworkMessage()\<close> resets the message, then \<open>freeMessage\<close> runs.
  The array is not initialised; zeros stand for its contents.\<close>

definition new_output_message :: output_message where
  "new_output_message = om_freeMessage
     \<lparr>m_size = 0, m_position = of_nat NETWORK_CRYPTOHEADER_SIZE, m_buffer = replicate NETWORK_MAX_SIZE 0,
      m_protocol = None, m_connection = None, m_state = STATE_FREE, m_frame = 0, m_outputBufferStart = 0\<rparr>"

text \<open>\<open>header\<close>: a value in front of the message; without room it logs and does nothing.\<close>

definition om_header :: "'a::len word \<Rightarrow> output_message \<Rightarrow> output_message option" where
  "om_header v m =
     (if sint (m_outputBufferStart m) - int (sizeof TYPE('a)) < 0 then Some m
      else do {
        let start = m_outputBufferStart m - of_nat (sizeof TYPE('a));
        buf \<leftarrow> mem_write (m_buffer m) (unat start) (le_encode (sizeof TYPE('a)) v);
        Some (m\<lparr>m_outputBufferStart := start, m_buffer := buf,
               m_size := m_size m + of_nat (sizeof TYPE('a))\<rparr>)
      })"

definition om_addHeader :: "output_message \<Rightarrow> output_message option" where
  "om_addHeader m = om_header (m_size m) m"

definition om_addCryptoHeader :: "bool \<Rightarrow> output_message \<Rightarrow> output_message option" where
  "om_addCryptoHeader addChecksum m = do {
     m1 \<leftarrow> (if addChecksum then do {
              bs \<leftarrow> mem_read (m_buffer m) (unat (m_outputBufferStart m)) (unat (m_size m));
              om_header (adlerChecksum bs (unat (m_size m))) m
            } else Some m);
     om_header (m_size m1) m1
   }"

text \<open>What \<open>async_write\<close> is given: \<open>m_size\<close> bytes from the start of the output buffer.\<close>

definition om_wire :: "output_message \<Rightarrow> u8 list option" where
  "om_wire m = mem_read (m_buffer m) (unat (m_outputBufferStart m)) (unat (m_size m))"

section \<open>The trace of a message\<close>

text \<open>A build with \<open>__TRACK_NETWORK__\<close> keeps the last uses of each message, oldest first, beside its other members.\<close>

definition track :: "int \<Rightarrow> string \<Rightarrow> string list \<Rightarrow> string list" where
  "track line func lastUses =
     (if length lastUses \<ge> 25 then tl lastUses else lastUses) @ [''line '' @ show_int line @ '' '' @ func]"

definition clearTrack :: "string list \<Rightarrow> string list" where
  "clearTrack lastUses = []"

text \<open>\<open>printTrace\<close> runs backwards: the newest use is number 1.\<close>

definition printTrace :: "string list \<Rightarrow> string" where
  "printTrace lastUses =
     concat (map (\<lambda>(n, use). [CHR 0x09] @ show_nat n @ ''.'' @ [CHR 0x09] @ use @ newline_str) (List.enumerate 1 (rev lastUses)))"

text \<open>The trace after a message has been cleared holds its last 25 uses, in order.\<close>

lemma trace_holds_last_uses:
  "fold (\<lambda>(line, func). track line func) uses (clearTrack old) =
     map (\<lambda>(line, func). ''line '' @ show_int line @ '' '' @ func) (drop (length uses - 25) uses)"
proof (induction uses rule: rev_induct)
  case (snoc use uses)
  have "tl (drop (length uses - 25) uses) = drop (Suc (length uses) - 25) uses" if "25 \<le> length uses"
    using that by (metis Suc_diff_le drop_Suc tl_drop)
  then show ?case using snoc.IH by (cases use) (auto simp: track_def map_tl [symmetric])
qed (simp add: clearTrack_def)

section \<open>Layout\<close>

text \<open>
  A message holds \<open>body\<close> at the offset \<open>start\<close>: the headers added so far and the payload.
  \<open>om_holds\<close> is the view the header operations and the cipher work on.
\<close>

definition om_holds :: "nat \<Rightarrow> u8 list \<Rightarrow> output_message \<Rightarrow> bool" where
  "om_holds start body m \<longleftrightarrow>
     length (m_buffer m) = 16384 \<and> unat (m_outputBufferStart m) = start \<and> start \<le> 8 \<and>
     unat (m_size m) = length body \<and> start + length body \<le> 16384 \<and>
     take (length body) (drop start (m_buffer m)) = body"

lemma om_wire_holds: "om_holds start body m \<Longrightarrow> om_wire m = Some body"
  by (simp add: om_holds_def om_wire_def mem_read_def)

lemma small_start:
  assumes "unat (s :: u32) \<le> 8"
  shows "sint s = int (unat s)"
proof -
  have "unat s < 2 ^ 31" using assms by simp
  then show ?thesis
    by (simp add: sint_uint uint_nat signed_take_bit_int_eq_self del: of_nat_unat)
qed

lemma om_header_holds:
  fixes v :: "'a::len word"
  assumes m: "om_holds start body m" and room: "sizeof TYPE('a) \<le> start" and k: "0 < sizeof TYPE('a)"
  obtains m' where "om_header v m = Some m'"
    "om_holds (start - sizeof TYPE('a)) (le_encode (sizeof TYPE('a)) v @ body) m'"
    "m_position m' = m_position m" "m_connection m' = m_connection m" "m_protocol m' = m_protocol m"
    "m_state m' = m_state m" "m_frame m' = m_frame m"
proof -
  define k where "k = sizeof TYPE('a)"
  define buf where "buf = take (start - k) (m_buffer m) @ le_encode k v @ drop start (m_buffer m)"
  have s: "unat (m_outputBufferStart m) = start" "start \<le> 8" "k \<le> start"
    using m room by (simp_all add: om_holds_def k_def)
  have start': "unat (m_outputBufferStart m - of_nat k) = start - k"
    using s by (simp add: unat_sub_if' unat_of_nat take_bit_nat_eq_self)
  have len: "length (m_buffer m) = 16384" "start + length body \<le> 16384" "unat (m_size m) = length body"
    using m by (simp_all add: om_holds_def)
  have guard: "\<not> sint (m_outputBufferStart m) - int k < 0"
    using s by (simp add: small_start)
  have stored: "mem_write (m_buffer m) (start - k) (le_encode k v) = Some buf"
    using s len by (simp add: mem_write_def buf_def)
  have size: "unat (m_size m + of_nat k) = k + length body"
    using unat_u16_add [of "m_size m" k] s len by simp
  have hdr: "om_header v m = Some (m\<lparr>m_outputBufferStart := m_outputBufferStart m - of_nat k,
      m_buffer := buf, m_size := m_size m + of_nat k\<rparr>)"
    using guard start' stored by (simp add: om_header_def k_def [symmetric])
  have body: "take (k + length body) (drop (start - k) buf) = le_encode k v @ body"
    using m s len by (simp add: buf_def om_holds_def)
  show ?thesis
  proof (rule that)
    show "om_header v m = Some (m\<lparr>m_outputBufferStart := m_outputBufferStart m - of_nat k,
      m_buffer := buf, m_size := m_size m + of_nat k\<rparr>)" by (fact hdr)
    have "length buf = 16384" using s len by (simp add: buf_def)
    then show "om_holds (start - sizeof TYPE('a)) (le_encode (sizeof TYPE('a)) v @ body)
       (m\<lparr>m_outputBufferStart := m_outputBufferStart m - of_nat k, m_buffer := buf,
          m_size := m_size m + of_nat k\<rparr>)"
      using start' size body s len unfolding om_holds_def k_def [symmetric] by simp
  qed simp_all
qed

text \<open>A message being filled: the body so far starts at 8 and ends at the position.\<close>

definition om_open :: "u8 list \<Rightarrow> output_message \<Rightarrow> bool" where
  "om_open body m \<longleftrightarrow> om_holds 8 body m \<and> unat (m_position m) = 8 + length body"

lemma om_open_new: "om_open [] new_output_message"
  by (simp add: om_open_def om_holds_def new_output_message_def om_freeMessage_def layout)

lemma om_open_wf: "om_open body m \<Longrightarrow> msg_wf m"
  by (simp add: om_open_def om_holds_def msg_wf_def layout)

lemma om_open_append:
  assumes m: "om_open body m" and fits: "msg_fits (length bs) m"
  shows "om_open (body @ bs) (msg_append bs m)"
proof -
  have pos: "unat (m_position (msg_append bs m)) = 8 + length body + length bs"
    using position_append [OF fits] m by (simp add: om_open_def)
  have "unat (m_size m) = length body" "8 + length body + length bs < 16370" "length (m_buffer m) = 16384"
    using m fits by (simp_all add: om_open_def om_holds_def msg_fits_def)
  moreover from this have "unat (m_size (msg_append bs m)) = length body + length bs"
    by (simp add: msg_append_def unat_u16_add)
  moreover have "take (length body) (drop 8 (m_buffer m)) = body" "m_outputBufferStart m = m_outputBufferStart (msg_append bs m)"
    using m by (simp_all add: om_open_def om_holds_def msg_append_def)
  ultimately show ?thesis
    using pos m by (simp add: om_open_def om_holds_def) (simp add: msg_append_def drop_take)
qed

section \<open>The message as a bounded builder\<close>

text \<open>
  The specification of an outgoing message: a byte string that grows by whole fields, where a
  field that would pass the limit, or a string of more than 8192 characters, is left out.
\<close>

definition build_field :: "msg_field \<Rightarrow> u8 list \<Rightarrow> u8 list" where
  "build_field f body =
     (if field_ok f \<and> NETWORK_CRYPTOHEADER_SIZE + length body + length (field_bytes f) < NETWORK_BODY_SIZE
      then body @ field_bytes f else body)"

definition field_sized :: "msg_field \<Rightarrow> bool" where
  "field_sized f = (case f of FStr s \<Rightarrow> length s < 2 ^ 32 | _ \<Rightarrow> True)"

lemma put_field_cases:
  assumes "msg_wf m" and "field_sized f"
  shows "put_field f m = Some (if field_ok f \<and> msg_fits (length (field_bytes f)) m then msg_append (field_bytes f) m else m)"
  using assms by (cases f) (auto simp: field_sized_def msg_put_append msg_putString_append string_limit_def)

lemma put_field_builds:
  assumes "om_open body m" and "field_sized f"
  shows "\<exists>m'. put_field f m = Some m' \<and> om_open (build_field f body) m'"
  using put_field_cases [OF om_open_wf [OF assms(1)] assms(2)] om_open_append [OF assms(1)] assms(1)
  by (auto simp: build_field_def layout msg_fits_def om_open_def)

interpretation builder: simulation om_open put_field build_field field_sized
  by unfold_locales (rule put_field_builds)

lemma put_fields_crun: "put_fields fs = builder.crun fs"
proof (induction fs)
  case (Cons f fs)
  then show ?case by (intro ext) (simp add: builder.crun_simps)
qed (auto simp: builder.crun_simps)

text \<open>C14. An outgoing message implements the bounded builder: writing any sequence of fields into a fresh
  message never leaves the buffer, and what is sent is exactly the byte string the specification
  builds, whether fields were dropped on the way or not.\<close>

theorem message_refines_builder:
  assumes "\<forall>f \<in> set fs. field_sized f"
  shows "\<exists>m. put_fields fs new_output_message = Some m \<and> om_wire m = Some (fold build_field fs []) \<and>
     length (fold build_field fs []) + NETWORK_CRYPTOHEADER_SIZE \<le> NETWORK_BODY_SIZE"
proof -
  obtain m where m: "put_fields fs new_output_message = Some m" "om_open (fold build_field fs []) m"
    using builder.simulate_run [OF om_open_new assms] by (auto simp: put_fields_crun)
  have "length b + NETWORK_CRYPTOHEADER_SIZE \<le> NETWORK_BODY_SIZE \<Longrightarrow>
      length (fold build_field fs b) + NETWORK_CRYPTOHEADER_SIZE \<le> NETWORK_BODY_SIZE" for b
    by (induction fs arbitrary: b) (auto simp: build_field_def)
  from this [of "[]"] show ?thesis using m om_wire_holds [of 8] by (auto simp: om_open_def layout)
qed

theorem message_refines_builder_witness:
  "\<exists>m. put_fields [FU8 1, FStr (replicate 9000 CHR ''a''), FU16 2] new_output_message = Some m \<and> om_wire m = Some [1, 2, 0]"
proof -
  let ?fs = "[FU8 1, FStr (replicate 9000 CHR ''a''), FU16 2]"
  have "\<forall>f \<in> set ?fs. field_sized f" by (simp add: field_sized_def)
  moreover have "le_encode 2 (2 :: u16) = [2, 0]" by code_simp
  then have "fold build_field ?fs [] = [1, 2, 0]" by (simp add: build_field_def layout)
  ultimately show ?thesis using message_refines_builder [of ?fs] by (simp only:) blast
qed

end
