(* ===== verification/Protocol.thy ===== *)
theory Protocol
  imports Xtea Output_Message
begin

unbundle bit_operations_syntax

text \<open>
  The protocol object of \<open>protocol/protocol.h\<close> and \<open>protocol/protocol.cpp\<close>: encryption and
  framing of outgoing messages, decryption of incoming ones. \<open>RSA_private_decrypt\<close> of
  OpenSSL is the parameter \<open>rsa\<close>: the decrypted bytes, or \<open>None\<close> when it fails and
  writes nothing (the code does not look at its result).
\<close>

record protocol =
  m_outputBuffer :: "nat option"
  pr_connection :: "nat option"
  pr_refCount :: u32
  m_rawMessages :: bool
  m_encryptionEnabled :: bool
  m_checksumEnabled :: bool
  m_key :: xtea_key

definition new_protocol :: "nat option \<Rightarrow> protocol" where
  "new_protocol connection =
     \<lparr>m_outputBuffer = None, pr_connection = connection, pr_refCount = 0, m_rawMessages = False,
      m_encryptionEnabled = False, m_checksumEnabled = False, m_key = [0, 0, 0, 0]\<rparr>"

definition setXTEAKey :: "u32 list \<Rightarrow> protocol \<Rightarrow> protocol" where
  "setXTEAKey key p = p\<lparr>m_key := take 4 key\<rparr>"

section \<open>Encryption\<close>

definition XTEA_encrypt :: "xtea_key \<Rightarrow> output_message \<Rightarrow> output_message option" where
  "XTEA_encrypt key m = do {
     let messageLength = m_size m;
     (messageLength, m) \<leftarrow>
       (if messageLength mod 8 \<noteq> 0 then do {
          let n = 8 - (messageLength mod 8);
          m1 \<leftarrow> msg_putPadding (ucast n) m;
          Some (messageLength + n, m1)
        } else Some (messageLength, m));
     buf \<leftarrow> xtea_loop (xtea_encrypt_block key) (unat (m_outputBufferStart m))
              (unat messageLength div 4) 0 (m_buffer m);
     Some (m\<lparr>m_buffer := buf\<rparr>)
   }"

definition XTEA_decrypt :: "xtea_key \<Rightarrow> network_message \<Rightarrow> (bool \<times> network_message) option" where
  "XTEA_decrypt key m =
     (if (uint (m_size m) - 6) mod 8 \<noteq> 0 then Some (False, m)
      else do {
        let messageLength = uint (m_size m) - 6;
        buf \<leftarrow> xtea_loop (xtea_decrypt_block key) (unat (m_position m))
                 (nat (messageLength div 4)) 0 (m_buffer m);
        (tmp, m) \<leftarrow> msg_get False (m\<lparr>m_buffer := buf\<rparr>);
        if uint (tmp :: u16) > uint (m_size m) - 8 then Some (False, m)
        else Some (True, msg_setSize tmp m)
      })"

definition RSA_decrypt ::
  "(u8 list \<Rightarrow> u8 list option) \<Rightarrow> network_message \<Rightarrow> (bool \<times> network_message) option" where
  "RSA_decrypt rsa m =
     (if uint (m_size m) - uint (m_position m) \<noteq> 128 then Some (False, m)
      else do {
        let sz = m_size m;
        from \<leftarrow> mem_read (m_buffer m) (unat (m_position m)) 128;
        buf \<leftarrow> (case rsa from of None \<Rightarrow> Some (m_buffer m) | Some to \<Rightarrow> mem_write (m_buffer m) 0 to);
        let m = msg_setPosition 0 (msg_setSize sz (m\<lparr>m_buffer := buf\<rparr>));
        (c, m) \<leftarrow> msg_get False m;
        Some ((c :: u8) = 0, m)
      })"

section \<open>Message hooks\<close>

text \<open>\<open>h\<close> is the handle of the message, compared with the protocol's output buffer.\<close>

definition onSendMessage ::
  "nat \<Rightarrow> protocol \<Rightarrow> output_message \<Rightarrow> (protocol \<times> output_message) option" where
  "onSendMessage h p m = do {
     m \<leftarrow> (if \<not> m_rawMessages p then do {
            m1 \<leftarrow> om_addHeader m;
            m2 \<leftarrow> (if m_encryptionEnabled p then XTEA_encrypt (m_key p) m1 else Some m1);
            if m_checksumEnabled p then om_addCryptoHeader True m2 else Some m2
          } else Some m);
     Some (if m_outputBuffer p = Some h then p\<lparr>m_outputBuffer := None\<rparr> else p, m)
   }"

text \<open>The result says whether the message reaches \<open>parsePacket\<close>, which the login protocol
  leaves empty.\<close>

definition onRecvMessage :: "protocol \<Rightarrow> network_message \<Rightarrow> (bool \<times> network_message) option" where
  "onRecvMessage p m =
     (if m_encryptionEnabled p then XTEA_decrypt (m_key p) m else Some (True, m))"

section \<open>Outgoing frames\<close>

definition pad_length :: "nat \<Rightarrow> nat" where
  "pad_length n = (if n mod 8 = 0 then 0 else 8 - n mod 8)"

lemma pad_length_dvd: "(n + pad_length n) mod 8 = 0"
  unfolding pad_length_def by presburger

lemma pad_length_less: "pad_length n < 8"
  unfolding pad_length_def by presburger

definition padded :: "u8 list \<Rightarrow> u8 list" where
  "padded c = c @ replicate (pad_length (length c)) 0x33"

lemma length_padded: "length (padded c) = 8 * (length (padded c) div 8)"
  using pad_length_dvd [of "length c"] by (simp add: padded_def mod_eq_0_iff_dvd)

lemma unat_mod_8: "unat ((w :: u16) mod 8) = unat w mod 8"
  by (simp add: unat_mod)

lemma unat_pad:
  assumes "(w :: u16) mod 8 \<noteq> 0"
  shows "unat (8 - w mod 8) = pad_length (unat w)"
proof -
  have "unat w mod 8 \<noteq> 0" using assms by (metis unat_mod_8 unsigned_0 unsigned_word_eqI)
  moreover have "unat (8 - w mod 8) = 8 - unat w mod 8"
    by (simp add: unat_sub_if' unat_mod_8)
  ultimately show ?thesis by (simp add: pad_length_def)
qed

lemma mod_8_eq_0: "((w :: u16) mod 8 = 0) = (pad_length (unat w) = 0)"
proof -
  have "(w mod 8 = 0) = (unat w mod 8 = 0)" by (metis unat_mod_8 unsigned_0 unsigned_word_eqI)
  moreover have "unat w mod 8 < 8" by simp
  ultimately show ?thesis by (auto simp: pad_length_def)
qed

text \<open>Padding and encrypting a message whose bytes end at its position.\<close>

lemma padding_holds:
  assumes m: "om_holds start c m" and pos: "unat (m_position m) = start + length c"
    and fits: "pad_length (length c) + unat (m_position m) < 16370" and pad: "pad_length (length c) \<noteq> 0"
  shows "\<exists>m'. msg_putPadding (ucast (8 - (m_size m mod 8))) m = Some m' \<and> om_holds start (padded c) m' \<and>
     m' = m\<lparr>m_buffer := m_buffer m', m_size := m_size m'\<rparr>"
proof -
  have size: "unat (m_size m) = length c" and len: "length (m_buffer m) = 16384"
    and start: "start + length c \<le> 16384"
    using m by (simp_all add: om_holds_def)
  define k where "k = pad_length (length c)"
  define amount where "amount = (ucast (8 - (m_size m mod 8)) :: u32)"
  have "unat (8 - m_size m mod 8) = k"
    using unat_pad [of "m_size m"] pad by (simp add: mod_8_eq_0 size k_def)
  then have amount: "unat amount = k"
    using pad_length_less [of "length c"] by (simp add: amount_def unsigned_ucast_eq take_bit_nat_eq_self k_def)
  then have "uint amount = int k" by (metis uint_nat)
  then have space: "hasSpace (uint amount) m"
    using fits pad_length_less [of "length c"] by (simp add: hasSpace_small k_def)
  define buf where "buf = take (start + length c) (m_buffer m) @ replicate k 0x33 @ drop (start + length c + k) (m_buffer m)"
  have "mem_write (m_buffer m) (unat (m_position m)) (replicate k 0x33) = Some buf"
    using fits len by (simp add: mem_write_def pos buf_def k_def [symmetric])
  then have put: "msg_putPadding amount m = Some (m\<lparr>m_buffer := buf, m_size := m_size m + ucast amount\<rparr>)"
    using space amount by (simp add: msg_putPadding_def)
  have "ucast amount = (of_nat k :: u16)" by (metis amount of_nat_unat)
  then have size': "unat (m_size m + ucast amount) = length c + k"
    using unat_u16_add [of "m_size m" k] size start pad_length_less [of "length c"] by (simp add: k_def)
  have fit: "start + length c + k \<le> 16384" using fits pos by (simp add: k_def)
  have "take (length c + k) (drop start buf) = padded c"
    using m fit len by (simp add: buf_def om_holds_def padded_def k_def drop_take)
  moreover have "length buf = 16384" using fit len by (simp add: buf_def)
  ultimately have "om_holds start (padded c) (m\<lparr>m_buffer := buf, m_size := m_size m + ucast amount\<rparr>)"
    using m size' fit by (simp add: om_holds_def padded_def k_def [symmetric])
  then show ?thesis using put by (auto simp: amount_def)
qed

lemma XTEA_encrypt_holds:
  assumes m: "om_holds start c m" and pos: "unat (m_position m) = start + length c"
    and fits: "pad_length (length c) + unat (m_position m) < 16370"
  shows "\<exists>m'. XTEA_encrypt key m = Some m' \<and>
     om_holds start (ecb (xtea_encrypt_block key) (length (padded c) div 8) (padded c)) m'"
proof -
  define n where "n = length (padded c) div 8"
  have n: "length (padded c) = 8 * n" using length_padded [of c] by (simp add: n_def)
  have loop: "\<exists>m'. (do {buf \<leftarrow> xtea_loop (xtea_encrypt_block key) (unat (m_outputBufferStart m1))
              (8 * n div 4) 0 (m_buffer m1); Some (m1\<lparr>m_buffer := buf\<rparr>)}) = Some m' \<and>
        om_holds start (ecb (xtea_encrypt_block key) n (padded c)) m'"
    if m1: "om_holds start (padded c) m1" for m1 :: output_message
  proof -
    have len: "length (m_buffer m1) = 16384" "start + 8 * n \<le> 16384" "unat (m_outputBufferStart m1) = start"
      "take (8 * n) (drop start (m_buffer m1)) = padded c" using m1 n by (simp_all add: om_holds_def)
    have "8 * n div 4 = 2 * n" by simp
    moreover have "ecb (xtea_encrypt_block key) n (drop start (m_buffer m1)) = ecb (xtea_encrypt_block key) n (padded c)"
      using len(4) ecb_take [of n "8 * n"] by (metis order_refl)
    moreover note xtea_run [of start n "m_buffer m1" "xtea_encrypt_block key"]
    ultimately show ?thesis using m1 len n by (simp add: om_holds_def)
  qed
  show ?thesis
  proof (cases "pad_length (length c) = 0")
    case True
    then have "m_size m mod 8 = 0" "padded c = c"
      using m by (simp_all add: mod_8_eq_0 om_holds_def padded_def)
    then show ?thesis
      using loop [of m] m n by (simp add: XTEA_encrypt_def om_holds_def n_def [symmetric])
  next
    case False
    obtain m1 where m1: "msg_putPadding (ucast (8 - (m_size m mod 8))) m = Some m1" "om_holds start (padded c) m1"
      using padding_holds [OF m pos fits False] by blast
    have sz: "unat (m_size m) = length c" and len: "start + length c \<le> 16384" using m by (simp_all add: om_holds_def)
    have mod: "m_size m mod 8 \<noteq> 0" using False sz by (simp add: mod_8_eq_0)
    have "unat (m_size m + (8 - m_size m mod 8)) = length (padded c)"
      using unat_pad [OF mod] sz len pad_length_less [of "length c"]
      by (simp add: unat_word_ariths padded_def)
    then show ?thesis
      using loop [OF m1(2)] m1(1) mod n by (simp add: XTEA_encrypt_def n_def [symmetric])
  qed
qed

section \<open>Frames on the wire\<close>

text \<open>
  The specification of an outgoing message: the body with its length in front, padded and
  encrypted block by block, with the Adler checksum and the outer length in front.
\<close>

definition inner_frame :: "u8 list \<Rightarrow> u8 list" where
  "inner_frame body = le_encode 2 (of_nat (length body) :: u16) @ body"

definition cipher_frame :: "protocol \<Rightarrow> u8 list \<Rightarrow> u8 list" where
  "cipher_frame p body =
     (if m_encryptionEnabled p
      then ecb (xtea_encrypt_block (m_key p)) (length (padded (inner_frame body)) div 8) (padded (inner_frame body))
      else inner_frame body)"

definition outer_frame :: "u8 list \<Rightarrow> u8 list" where
  "outer_frame c = le_encode 2 (of_nat (length c + 4) :: u16) @ le_encode 4 (adlerChecksum c (length c)) @ c"

definition wire_frame :: "protocol \<Rightarrow> u8 list \<Rightarrow> u8 list" where
  "wire_frame p body =
     (if m_rawMessages p then body
      else if m_checksumEnabled p then outer_frame (cipher_frame p body) else cipher_frame p body)"

lemma om_size_word: "om_holds start body m \<Longrightarrow> m_size m = of_nat (length body)"
  by (metis om_holds_def of_nat_unat ucast_id)

lemma om_addHeader_holds:
  assumes "om_holds 8 body m"
  obtains m' where "om_addHeader m = Some m'" "om_holds 6 (inner_frame body) m'" "m_position m' = m_position m"
proof (rule om_header_holds [OF assms, where v = "m_size m"])
  fix m' assume "om_header (m_size m) m = Some m'" "m_position m' = m_position m"
    "om_holds (8 - sizeof TYPE(16)) (le_encode (sizeof TYPE(16)) (m_size m) @ body) m'"
  then show thesis
    using om_size_word [OF assms] by (intro that [of m']) (simp_all add: om_addHeader_def inner_frame_def)
qed simp_all

lemma om_addCryptoHeader_holds:
  assumes m: "om_holds 6 c m"
  obtains m' where "om_addCryptoHeader True m = Some m'" "om_holds 0 (outer_frame c) m'"
proof -
  have wire: "mem_read (m_buffer m) (unat (m_outputBufferStart m)) (unat (m_size m)) = Some c"
    and size: "unat (m_size m) = length c"
    using om_wire_holds [OF m] m by (simp_all add: om_wire_def om_holds_def)
  define a where "a = adlerChecksum c (length c)"
  obtain m1 where m1: "om_header a m = Some m1" "om_holds 2 (le_encode 4 a @ c) m1"
    using om_header_holds [OF m, of a] by auto
  obtain m2 where m2: "om_header (m_size m1) m1 = Some m2"
    "om_holds 0 (le_encode 2 (m_size m1) @ le_encode 4 a @ c) m2"
    using om_header_holds [OF m1(2), of "m_size m1"] by auto
  show thesis
    using m1 m2 wire size om_size_word [OF m1(2)]
    by (intro that [of m2]) (simp_all add: om_addCryptoHeader_def outer_frame_def a_def add.commute)
qed

lemma length_inner_frame [simp]: "length (inner_frame body) = length body + 2"
  by (simp add: inner_frame_def)

lemma length_cipher_frame:
  "length (cipher_frame p body) =
     length body + 2 + (if m_encryptionEnabled p then pad_length (length body + 2) else 0)"
  using length_padded [of "inner_frame body"]
  by (simp add: cipher_frame_def) (simp add: padded_def)

lemma onSendMessage_holds:
  assumes m: "om_holds 8 body m" and pos: "unat (m_position m) = 8 + length body"
    and fits: "unat (m_position m) + 7 < NETWORK_BODY_SIZE" and raw: "\<not> m_rawMessages p"
  shows "\<exists>m'. onSendMessage h p m = Some (if m_outputBuffer p = Some h then p\<lparr>m_outputBuffer := None\<rparr> else p, m') \<and>
     om_holds (if m_checksumEnabled p then 0 else 6) (wire_frame p body) m'"
proof -
  obtain m1 where m1: "om_addHeader m = Some m1" "om_holds 6 (inner_frame body) m1" "m_position m1 = m_position m"
    using om_addHeader_holds [OF m] by blast
  have "pad_length (length (inner_frame body)) + unat (m_position m1) < 16370"
    using fits m1(3) pad_length_less [of "length (inner_frame body)"] by (simp add: layout del: length_inner_frame)
  then obtain m2 where m2: "(if m_encryptionEnabled p then XTEA_encrypt (m_key p) m1 else Some m1) = Some m2"
    "om_holds 6 (cipher_frame p body) m2"
    using XTEA_encrypt_holds [OF m1(2), of "m_key p"] m1 pos
    by (cases "m_encryptionEnabled p") (auto simp: cipher_frame_def)
  obtain m3 where m3: "om_addCryptoHeader True m2 = Some m3" "om_holds 0 (outer_frame (cipher_frame p body)) m3"
    using om_addCryptoHeader_holds [OF m2(2)] by blast
  show ?thesis
    using m1 m2 m3 raw by (auto simp: onSendMessage_def wire_frame_def)
qed

text \<open>C4. The wire format of a reply: for a body that leaves room for the padding, the bytes
  given to the socket are exactly the specified frame (length, padding with \<open>0x33\<close>,
  XTEA, Adler-32, outer length), and the protocol forgets the buffer it has sent.\<close>

theorem onSendMessage_wire_format:
  assumes "om_holds 8 body m" and "unat (m_position m) = 8 + length body"
    and "unat (m_position m) + 7 < NETWORK_BODY_SIZE" and "\<not> m_rawMessages p"
  shows "\<exists>p' m'. onSendMessage h p m = Some (p', m') \<and> om_wire m' = Some (wire_frame p body) \<and>
     m_outputBuffer p' = (if m_outputBuffer p = Some h then None else m_outputBuffer p)"
  using onSendMessage_holds [OF assms, of h] om_wire_holds by fastforce

theorem onSendMessage_wire_format_witness:
  "\<exists>p' m'. onSendMessage 3 ((new_protocol None)\<lparr>m_outputBuffer := Some 3, m_encryptionEnabled := True,
        m_checksumEnabled := True, m_key := [1, 2, 3, 4]\<rparr>) (msg_append [7] new_output_message) = Some (p', m') \<and>
     om_wire m' = Some (wire_frame ((new_protocol None)\<lparr>m_outputBuffer := Some 3, m_encryptionEnabled := True,
        m_checksumEnabled := True, m_key := [1, 2, 3, 4]\<rparr>) [7]) \<and> m_outputBuffer p' = None"
proof -
  define p where "p = (new_protocol None)\<lparr>m_outputBuffer := Some 3, m_encryptionEnabled := True,
        m_checksumEnabled := True, m_key := [1, 2, 3, 4]\<rparr>"
  have fits: "msg_fits (length [7 :: u8]) new_output_message"
    by (simp add: msg_fits_def new_output_message_def om_freeMessage_def layout)
  note held = om_open_append [OF om_open_new fits]
  have "om_holds 8 [7] (msg_append [7] new_output_message)" "unat (m_position (msg_append [7] new_output_message)) = 8 + length [7 :: u8]"
    using held by (simp_all add: om_open_def)
  moreover have "\<not> m_rawMessages p" "m_outputBuffer p = Some 3" by (simp_all add: p_def new_protocol_def)
  ultimately show ?thesis
    using onSendMessage_wire_format [of "[7]" "msg_append [7] new_output_message" p 3]
    unfolding p_def [symmetric] by (simp add: layout)
qed

section \<open>Receiving an encrypted message\<close>

lemma le_decode_of_length: "n < 2 ^ 16 \<Longrightarrow> unat (le_decode (le_encode 2 (of_nat n :: u16)) :: u16) = n"
  by (simp add: le_roundtrip unat_of_nat take_bit_nat_eq_self)

lemma XTEA_decrypt_frame:
  assumes buf: "length (m_buffer m) = NETWORK_MAX_SIZE"
    and pos: "m_position m = 6" and enc: "m_encryptionEnabled p"
    and size: "unat (m_size m) = 6 + length (cipher_frame p body)"
    and fits: "6 + length (cipher_frame p body) \<le> NETWORK_MAX_SIZE"
    and content: "mem_read (m_buffer m) 6 (length (cipher_frame p body)) = Some (cipher_frame p body)"
  shows "\<exists>m'. XTEA_decrypt (m_key p) m = Some (True, m') \<and> unat (m_size m') = length body \<and>
     m_position m' = 8 \<and> mem_read (m_buffer m') 8 (length body) = Some body \<and>
     length (m_buffer m') = NETWORK_MAX_SIZE"
proof -
  define c where "c = padded (inner_frame body)"
  define n where "n = length c div 8"
  have n: "length c = 8 * n" using length_padded [of "inner_frame body"] by (simp add: n_def c_def)
  have frame: "cipher_frame p body = ecb (xtea_encrypt_block (m_key p)) n c" "length (cipher_frame p body) = 8 * n"
    using enc n by (simp_all add: cipher_frame_def c_def [symmetric] n_def)
  define buf' where "buf' = take 6 (m_buffer m) @ c @ drop (6 + 8 * n) (m_buffer m)"
  have read: "take (8 * n) (drop 6 (m_buffer m)) = ecb (xtea_encrypt_block (m_key p)) n c"
    using content frame fits buf by (simp add: mem_read_def split: if_splits)
  have "ecb (xtea_decrypt_block (m_key p)) n (drop 6 (m_buffer m)) = c"
    using ecb_take [of n "8 * n" "xtea_decrypt_block (m_key p)" "drop 6 (m_buffer m)"] read n
      ecb_inverse [of "xtea_decrypt_block (m_key p)" "xtea_encrypt_block (m_key p)" n c, OF xtea_block.bwd_fwd]
    by simp
  then have loop: "xtea_loop (xtea_decrypt_block (m_key p)) 6 (2 * n) 0 (m_buffer m) = Some buf'"
    using xtea_run [of 6 n "m_buffer m"] fits frame buf by (simp add: buf'_def)
  have sz: "uint (m_size m) = 6 + 8 * int n"
    using size frame by (simp add: uint_nat del: of_nat_unat)
  have blen: "length body + 2 \<le> 8 * n" "8 * n \<le> 16378"
    using n fits frame by (simp_all add: c_def padded_def layout)
  have c: "c = le_encode 2 (of_nat (length body) :: u16) @ body @ replicate (pad_length (length body + 2)) 0x33"
    by (simp add: c_def padded_def) (simp add: inner_frame_def)
  have wf: "msg_wf (m\<lparr>m_buffer := buf'\<rparr>)"
    using buf fits frame n pos by (simp add: msg_wf_def buf'_def layout)
  have hdr: "take 2 (drop 6 buf') = le_encode 2 (of_nat (length body) :: u16)"
    using buf by (simp add: buf'_def c layout)
  define w where "w = (le_decode (take 2 (drop 6 buf')) :: u16)"
  have w: "unat w = length body"
    unfolding w_def hdr using le_decode_of_length [of "length body"] blen by simp
  have get: "msg_get False (m\<lparr>m_buffer := buf'\<rparr>) = Some (w, m\<lparr>m_buffer := buf', m_position := 8\<rparr>)"
    using msg_get_wf [OF wf, of False, where 'a = 16] pos by (simp add: w_def)
  have words: "nat ((uint (m_size m) - 6) div 4) = 2 * n" "(uint (m_size m) - 6) mod 8 = 0" by (simp_all add: sz)
  have "\<not> uint w > uint (m_size m) - 8" using w sz blen by (simp add: uint_nat del: of_nat_unat)
  then have run: "XTEA_decrypt (m_key p) m =
      Some (True, msg_setSize w (m\<lparr>m_buffer := buf', m_position := 8\<rparr>))"
    using loop words get pos by (simp add: XTEA_decrypt_def Let_def)
  have "mem_read buf' 8 (length body) = Some body"
    using buf fits frame blen by (simp add: mem_read_def buf'_def c layout)
  moreover have "length buf' = NETWORK_MAX_SIZE" using wf by (simp add: layout msg_wf_def)
  ultimately show ?thesis
    using run w by (simp add: msg_setSize_def)
qed

text \<open>C8. \<open>XTEA_decrypt\<close> undoes what \<open>XTEA_encrypt\<close> and \<open>addHeader\<close> did: on a received
  frame whose cipher text starts at the position 6, it accepts the message, restores the
  length of the body and leaves the position at the first byte of the body.\<close>

theorem XTEA_decrypt_recovers_body:
  assumes buf: "length (m_buffer m) = NETWORK_MAX_SIZE"
    and pos: "m_position m = 6" and enc: "m_encryptionEnabled p"
    and size: "unat (m_size m) = 6 + length (cipher_frame p body)"
    and fits: "6 + length (cipher_frame p body) \<le> NETWORK_MAX_SIZE"
    and content: "mem_read (m_buffer m) 6 (length (cipher_frame p body)) = Some (cipher_frame p body)"
  shows "\<exists>m'. XTEA_decrypt (m_key p) m = Some (True, m') \<and> unat (m_size m') = length body \<and>
     m_position m' = 8 \<and> mem_read (m_buffer m') 8 (length body) = Some body"
  using XTEA_decrypt_frame [OF assms] by blast

theorem XTEA_decrypt_recovers_body_witness:
  "\<exists>(p :: protocol) m m'. m_encryptionEnabled p \<and> XTEA_decrypt (m_key p) (m :: network_message) = Some (True, m') \<and>
     mem_read (m_buffer m') 8 1 = Some [7]"
proof -
  define p where "p = (new_protocol None)\<lparr>m_encryptionEnabled := True, m_key := [1, 2, 3, 4]\<rparr>"
  define c where "c = cipher_frame p [7]"
  define m where "m = \<lparr>m_size = 14, m_position = 6, m_buffer = replicate 6 0 @ c @ replicate 16370 0\<rparr>"
  have enc: "m_encryptionEnabled p" by (simp add: p_def)
  then have len: "length c = 8" by (simp add: c_def length_cipher_frame pad_length_def)
  have "length (m_buffer m) = NETWORK_MAX_SIZE" "m_position m = 6" "unat (m_size m) = 6 + length c"
    "6 + length c \<le> NETWORK_MAX_SIZE" "mem_read (m_buffer m) 6 (length c) = Some c"
    by (simp_all add: m_def len layout mem_read_def)
  then have "\<exists>m'. XTEA_decrypt (m_key p) m = Some (True, m') \<and> unat (m_size m') = length [7 :: u8] \<and>
      m_position m' = 8 \<and> mem_read (m_buffer m') 8 (length [7 :: u8]) = Some [7]"
    using enc unfolding c_def by (intro XTEA_decrypt_recovers_body)
  then show ?thesis using enc by (simp only: length_Cons list.size(3) One_nat_def) blast
qed

section \<open>The asymmetric block of the first message\<close>

lemma RSA_decrypt_value:
  fixes m :: network_message
  assumes buf: "length (m_buffer m) = NETWORK_MAX_SIZE" and size: "unat (m_size m) \<le> NETWORK_MAX_SIZE"
    and rsa: "\<And>bs to. rsa bs = Some to \<Longrightarrow> length to = 128"
  shows "RSA_decrypt rsa m =
     (if unat (m_size m) \<noteq> unat (m_position m) + 128 then Some (False, m)
      else let src = take 128 (drop (unat (m_position m)) (m_buffer m));
               buf' = (case rsa src of None \<Rightarrow> m_buffer m | Some to \<Rightarrow> to @ drop 128 (m_buffer m))
           in Some (hd buf' = 0, m\<lparr>m_buffer := buf', m_position := 1\<rparr>))"
proof (cases "unat (m_size m) = unat (m_position m) + 128")
  case False
  then have "uint (m_size m) - uint (m_position m) \<noteq> 128"
    by (simp add: uint_nat del: of_nat_unat)
  with False show ?thesis by (simp add: RSA_decrypt_def)
next
  case True
  then have eq: "uint (m_size m) - uint (m_position m) = 128" by (simp add: uint_nat del: of_nat_unat)
  define src where "src = take 128 (drop (unat (m_position m)) (m_buffer m))"
  define buf' where "buf' = (case rsa src of None \<Rightarrow> m_buffer m | Some to \<Rightarrow> to @ drop 128 (m_buffer m))"
  have src: "mem_read (m_buffer m) (unat (m_position m)) 128 = Some src"
    using True size buf by (simp add: mem_read_def src_def)
  have stored: "(case rsa src of None \<Rightarrow> Some (m_buffer m) | Some to \<Rightarrow> mem_write (m_buffer m) 0 to) = Some buf'"
    using rsa [of src] buf by (auto simp: buf'_def mem_write_def layout split: option.splits)
  have len: "length buf' = 16384"
    using rsa [of src] buf by (auto simp: buf'_def layout split: option.splits)
  define m1 where "m1 = msg_setPosition 0 (msg_setSize (m_size m) (m\<lparr>m_buffer := buf'\<rparr>))"
  have m1: "m1 = m\<lparr>m_buffer := buf', m_position := 0\<rparr>"
    by (simp add: m1_def msg_setPosition_def msg_setSize_def)
  have "msg_wf m1" using len by (simp add: m1 msg_wf_def layout)
  moreover obtain b bs where b: "buf' = b # bs" using len by (cases buf') auto
  ultimately have "msg_get False m1 = Some (b, m\<lparr>m_buffer := buf', m_position := 1\<rparr>)"
    by (simp add: msg_get_wf m1)
  then have "RSA_decrypt rsa m = Some (b = 0, m\<lparr>m_buffer := buf', m_position := 1\<rparr>)"
    using eq src stored by (simp add: RSA_decrypt_def m1_def [symmetric])
  then show ?thesis
    using True by (simp add: src_def [symmetric] buf'_def [symmetric]) (simp add: b)
qed

text \<open>\<open>RSA_decrypt\<close> never leaves the buffer on a received message: it refuses a message
  whose remainder is not 128 bytes and changes nothing; otherwise the decrypted block
  stands at the beginning of the buffer, the position is after its first byte, and the
  result says whether that byte is zero. The parameter only has to give 128 bytes, as a
  1024-bit key without padding does.\<close>

theorem RSA_decrypt_total:
  fixes m :: network_message
  assumes buf: "length (m_buffer m) = NETWORK_MAX_SIZE" and size: "unat (m_size m) \<le> NETWORK_MAX_SIZE"
    and rsa: "\<And>bs to. rsa bs = Some to \<Longrightarrow> length to = 128"
  shows "RSA_decrypt rsa m =
     (if unat (m_size m) \<noteq> unat (m_position m) + 128 then Some (False, m)
      else let src = take 128 (drop (unat (m_position m)) (m_buffer m));
               buf' = (case rsa src of None \<Rightarrow> m_buffer m | Some to \<Rightarrow> to @ drop 128 (m_buffer m))
           in Some (hd buf' = 0, m\<lparr>m_buffer := buf', m_position := 1\<rparr>))"
  using assms by (rule RSA_decrypt_value)

theorem RSA_decrypt_total_witness:
  "RSA_decrypt (\<lambda>bs. Some (0 # replicate 127 9))
      (new_network_message\<lparr>m_size := 136\<rparr>) =
     Some (True, new_network_message\<lparr>m_size := 136, m_buffer := (0 # replicate 127 9) @ replicate 16256 0, m_position := 1\<rparr>)"
  using RSA_decrypt_total [of "new_network_message\<lparr>m_size := 136\<rparr>" "\<lambda>bs. Some (0 # replicate 127 9)"]
  by (simp add: new_network_message_def layout)

section \<open>A message too full for its padding\<close>

text \<open>The limit of the padding: when a message is so full that \<open>putPadding\<close> finds no
  space, \<open>XTEA_encrypt\<close> still counts the padding in \<open>messageLength\<close>, encrypts past the end
  of the message and leaves a size that is no multiple of eight, which \<open>XTEA_decrypt\<close> at
  the other end refuses.\<close>

theorem XTEA_encrypt_without_room:
  assumes m: "om_holds start c m" and pos: "unat (m_position m) = start + length c"
    and inside: "unat (m_position m) < NETWORK_BODY_SIZE"
    and full: "NETWORK_BODY_SIZE \<le> unat (m_position m) + pad_length (length c)"
  shows "\<exists>m'. XTEA_encrypt key m = Some m' \<and> m_size m' = m_size m \<and> unat (m_size m') mod 8 \<noteq> 0"
proof -
  have sz: "unat (m_size m) = length c" and len: "start + length c \<le> 16384" "length (m_buffer m) = 16384"
    and start: "unat (m_outputBufferStart m) = start" using m by (simp_all add: om_holds_def)
  have pad: "pad_length (length c) \<noteq> 0" using inside full by simp
  then have mod: "m_size m mod 8 \<noteq> 0" by (simp add: mod_8_eq_0 sz)
  define amount where "amount = (ucast (8 - (m_size m mod 8)) :: u32)"
  have amount: "unat amount = pad_length (length c)"
    using unat_pad [OF mod] sz pad_length_less [of "length c"]
    by (simp add: amount_def unsigned_ucast_eq take_bit_nat_eq_self)
  then have "uint amount = int (pad_length (length c))" by (metis uint_nat)
  then have "\<not> hasSpace (uint amount) m"
    using full pad_length_less [of "length c"] hasSpace_small [of "pad_length (length c)" m] by (simp add: layout)
  then have skip: "msg_putPadding amount m = Some m" by (simp add: msg_putPadding_def)
  define n where "n = length (padded c) div 8"
  have n: "length (padded c) = 8 * n" using length_padded [of c] by (simp add: n_def)
  have total: "unat (m_size m + (8 - m_size m mod 8)) = 8 * n"
    using unat_pad [OF mod] sz len pad_length_less [of "length c"] n
    by (simp add: unat_word_ariths padded_def)
  have "start + 8 * n \<le> length (m_buffer m)"
    using inside pos pad_length_less [of "length c"] n len by (simp add: padded_def layout)
  note run = xtea_run [OF this, of "xtea_encrypt_block key"]
  have "XTEA_encrypt key m = Some (m\<lparr>m_buffer := take start (m_buffer m) @
      ecb (xtea_encrypt_block key) n (drop start (m_buffer m)) @ drop (start + 8 * n) (m_buffer m)\<rparr>)"
    using mod skip total start run by (simp add: XTEA_encrypt_def amount_def)
  moreover have "unat (m_size m) mod 8 \<noteq> 0" using pad sz unfolding pad_length_def by presburger
  ultimately show ?thesis by simp
qed

theorem XTEA_encrypt_without_room_witness:
  "\<exists>m m'. XTEA_encrypt [1, 2, 3, 4] m = Some m' \<and> unat (m_size m') mod 8 \<noteq> 0"
proof -
  define m where "m = new_output_message\<lparr>m_outputBufferStart := 6, m_size := 16363, m_position := 16369,
    m_buffer := replicate 16384 0\<rparr>"
  have "om_holds 6 (replicate 16363 0) m" by (simp add: om_holds_def m_def)
  moreover have "unat (m_position m) = 6 + length (replicate 16363 (0 :: u8))"
    "unat (m_position m) < NETWORK_BODY_SIZE"
    "NETWORK_BODY_SIZE \<le> unat (m_position m) + pad_length (length (replicate 16363 (0 :: u8)))"
    by (simp_all add: m_def layout pad_length_def)
  ultimately have "\<exists>m'. XTEA_encrypt [1, 2, 3, 4] m = Some m' \<and> m_size m' = m_size m \<and> unat (m_size m') mod 8 \<noteq> 0"
    by (rule XTEA_encrypt_without_room)
  then show ?thesis by blast
qed

end
