(* ===== verification/Config_Manager.thy ===== *)
theory Config_Manager
  imports Tools
begin

text \<open>
  The configuration of \<open>configmanager.h\<close> and \<open>configmanager.cpp\<close>.

  The three arrays of the class are functions from their enumerations, which keep the
  \<open>LAST_\<close> enumerators: an access with one of them is the out-of-range branch. The
  constructor leaves most of the arrays uninitialised, so it takes their contents as an
  argument. The file system, the JSON parser of Boost and the HTTPS request to Discord are
  parameters of \<open>load\<close> and \<open>reloadMotd\<close>; the JSON value itself is a datatype with the kinds
  of \<open>boost::json::value\<close> (a double by its literal, which no code here reads). Log output
  is left out.
\<close>

section \<open>JSON values\<close>

datatype json =
  JNull | JBool bool | JInt64 int | JUint64 int | JDouble string
| JString string | JArray "json list" | JObject "(string \<times> json) list"

text \<open>\<open>find\<close> on an object and the type tests with their accessors.\<close>

definition obj_find :: "string \<Rightarrow> (string \<times> json) list \<Rightarrow> json option" where
  "obj_find key obj = map_of obj key"

fun as_object :: "json \<Rightarrow> (string \<times> json) list option" where
  "as_object (JObject obj) = Some obj"
| "as_object _ = None"

fun as_array :: "json \<Rightarrow> json list option" where
  "as_array (JArray xs) = Some xs"
| "as_array _ = None"

fun as_string :: "json \<Rightarrow> string option" where
  "as_string (JString s) = Some s"
| "as_string _ = None"

fun as_int64 :: "json \<Rightarrow> int option" where
  "as_int64 (JInt64 i) = Some i"
| "as_int64 _ = None"

fun as_bool :: "json \<Rightarrow> bool option" where
  "as_bool (JBool b) = Some b"
| "as_bool _ = None"

text \<open>A section of the root object, when present and an object.\<close>

definition obj_section :: "string \<Rightarrow> (string \<times> json) list \<Rightarrow> (string \<times> json) list option" where
  "obj_section key root = Option.bind (obj_find key root) as_object"

section \<open>Settings\<close>

datatype string_config_t =
  DUMMY_STR | CONFIG_DIR | DATABASE_DSN | SERVER_NAME
| OWNER_NAME | OWNER_EMAIL | URL | LOCATION
| MOTD_TEXT | MOTD_FILE_UNUSED | DISCORD_BOT_TOKEN | DISCORD_MOTD_CHANNEL
| ENCRYPTION_TYPE | RSA_PRIME1 | RSA_PRIME2 | RSA_PUBLIC
| RSA_MODULUS | RSA_PRIVATE | LISTEN_ADDR | RUNFILE
| OUTPUT_LOG | LAST_STRING_CONFIG

datatype number_config_t =
  LOGIN_TRIES | RETRY_TIMEOUT | LOGIN_TIMEOUT | MAX_PLAYERS
| ENCRYPTION | NICE_LEVEL | MOTD_ID | SERVICE_THREADS
| GAMEMASTER_GROUP | MAX_PACKETS_PER_SECOND | LAST_NUMBER_CONFIG

datatype bool_config_t =
  ON_OR_OFF_CHARLIST | FREE_PREMIUM | INIT_PREMIUM_UPDATE | DAEMONIZE
| TRUNCATE_LOG | FORCE_CLOSE_SLOW_CONNECTION | LAST_BOOL_CONFIG

record config =
  m_loaded :: bool
  m_startup :: bool
  m_confString :: "string_config_t \<Rightarrow> string"
  m_confBool :: "bool_config_t \<Rightarrow> bool"
  m_confNumber :: "number_config_t \<Rightarrow> int"
  m_coresUsed :: "int list"

definition set_str :: "string_config_t \<Rightarrow> string \<Rightarrow> config \<Rightarrow> config" where
  "set_str k v c = c\<lparr>m_confString := (m_confString c)(k := v)\<rparr>"

definition set_num :: "number_config_t \<Rightarrow> int \<Rightarrow> config \<Rightarrow> config" where
  "set_num k v c = c\<lparr>m_confNumber := (m_confNumber c)(k := v)\<rparr>"

definition set_bool :: "bool_config_t \<Rightarrow> bool \<Rightarrow> config \<Rightarrow> config" where
  "set_bool k v c = c\<lparr>m_confBool := (m_confBool c)(k := v)\<rparr>"

definition new_config ::
  "(bool_config_t \<Rightarrow> bool) \<Rightarrow> (number_config_t \<Rightarrow> int) \<Rightarrow> config" where
  "new_config bools numbers =
     \<lparr>m_loaded = False, m_startup = True,
      m_confString = (\<lambda>_. [])(CONFIG_DIR := ''.'', RUNFILE := [], OUTPUT_LOG := []),
      m_confBool = bools(DAEMONIZE := False),
      m_confNumber = numbers(ENCRYPTION := encryption_number ENCRYPTION_SHA1),
      m_coresUsed = []\<rparr>"

definition config_startup :: "config \<Rightarrow> config" where
  "config_startup c = c\<lparr>m_startup := False\<rparr>"

definition isRunning :: "config \<Rightarrow> bool" where
  "isRunning c \<longleftrightarrow> \<not> m_startup c"

definition isLoaded :: "config \<Rightarrow> bool" where
  "isLoaded c \<longleftrightarrow> m_loaded c"

section \<open>Access\<close>

definition getString :: "string_config_t \<Rightarrow> config \<Rightarrow> string" where
  "getString what c =
     (if (m_loaded c \<and> what \<noteq> LAST_STRING_CONFIG) \<or> what = DUMMY_STR \<or> what = CONFIG_DIR
      then m_confString c what else m_confString c DUMMY_STR)"

definition getBool :: "bool_config_t \<Rightarrow> config \<Rightarrow> bool" where
  "getBool what c = (if m_loaded c \<and> what \<noteq> LAST_BOOL_CONFIG then m_confBool c what else False)"

definition getNumber :: "number_config_t \<Rightarrow> config \<Rightarrow> int" where
  "getNumber what c = (if m_loaded c \<and> what \<noteq> LAST_NUMBER_CONFIG then m_confNumber c what else 0)"

definition setString :: "string_config_t \<Rightarrow> string \<Rightarrow> config \<Rightarrow> bool \<times> config" where
  "setString what v c = (if what \<noteq> LAST_STRING_CONFIG then (True, set_str what v c) else (False, c))"

definition setNumber :: "number_config_t \<Rightarrow> int \<Rightarrow> config \<Rightarrow> bool \<times> config" where
  "setNumber what v c = (if what \<noteq> LAST_NUMBER_CONFIG then (True, set_num what v c) else (False, c))"

definition setBool :: "bool_config_t \<Rightarrow> bool \<Rightarrow> config \<Rightarrow> bool \<times> config" where
  "setBool what v c = (if what \<noteq> LAST_BOOL_CONFIG then (True, set_bool what v c) else (False, c))"

section \<open>Message of the day\<close>

definition motd_default :: "config \<Rightarrow> config" where
  "motd_default c = (if m_confString c MOTD_TEXT = [] then set_str MOTD_TEXT ''Welcome to Wypas!'' c else c)"

text \<open>
  The request: \<open>fetch target authorization\<close> is the status and the body of the answer, or
  \<open>None\<close> when anything on the way throws. \<open>parse\<close> is \<open>boost::json::parse\<close>.
\<close>

definition discord_target :: "string \<Rightarrow> string" where
  "discord_target channelId = ''/api/v10/channels/'' @ channelId @ ''/messages?limit=1''"

definition reloadMotd ::
  "(string \<Rightarrow> json option) \<Rightarrow> (string \<Rightarrow> string \<Rightarrow> (nat \<times> string) option) \<Rightarrow> config \<Rightarrow> config" where
  "reloadMotd parse fetch c =
     (let botToken = m_confString c DISCORD_BOT_TOKEN;
          channelId = m_confString c DISCORD_MOTD_CHANNEL
      in if botToken = [] \<or> channelId = [] then motd_default c
         else case fetch (discord_target channelId) (''Bot '' @ botToken) of
           None \<Rightarrow> motd_default c
         | Some (status, body) \<Rightarrow>
             if status \<noteq> 200 then motd_default c
             else case parse body of
               None \<Rightarrow> motd_default c
             | Some jv \<Rightarrow>
                 (case as_array jv of
                    None \<Rightarrow> motd_default c
                  | Some [] \<Rightarrow> motd_default c
                  | Some (first # _) \<Rightarrow>
                      (case Option.bind (Option.bind (as_object first) (obj_find ''content'')) as_string of
                         None \<Rightarrow> motd_default c
                       | Some content \<Rightarrow>
                           if content \<noteq> []
                           then set_num MOTD_ID (m_confNumber c MOTD_ID + 1) (set_str MOTD_TEXT content c)
                           else c)))"

section \<open>Loading\<close>

definition DSN_DEFAULT :: string where
  "DSN_DEFAULT = ''mysql://root:@localhost:3306/theforgottenserver''"

definition RSA_PRIME1_DEFAULT :: string where
  "RSA_PRIME1_DEFAULT = ''14299623962416399520070177382898895550795403345466153217470516082934737582776038882967213386204600674145392845853859217990626450972452084065728686565928113''"

definition RSA_PRIME2_DEFAULT :: string where
  "RSA_PRIME2_DEFAULT = ''7630979195970404721891201847792002125535401292779123937207447574596692788513647179235335529307251350570728407373705564708871762033017096809910315212884101''"

definition RSA_PUBLIC_DEFAULT :: string where
  "RSA_PUBLIC_DEFAULT = ''65537''"

definition RSA_MODULUS_DEFAULT :: string where
  "RSA_MODULUS_DEFAULT = ''109120132967399429278860960508995541528237502902798129123468757937266291492576446330739696001110603907230888610072655818825358503429057592827629436413108566029093628212635953836686562675849720620786279431090218017681061521755056710823876476444260558147179707119674283982419152118103759076030616683978566631413''"

definition RSA_PRIVATE_DEFAULT :: string where
  "RSA_PRIVATE_DEFAULT = ''46730330223584118622160180015036832148732986808519344675210555262940258739805766860224610646919605860206328024326703361630109888417839241959507572247284807035235569619173792292786907845791904955103601652822519121908367187885509270025388641700821735345222087940578381210879116823013776808975766851829020659073''"

text \<open>The lambdas \<open>getStr\<close>, \<open>getNum\<close>, \<open>getBool_\<close> and \<open>rsaStr\<close> over an object.\<close>

definition json_str :: "(string \<times> json) list \<Rightarrow> string \<Rightarrow> string \<Rightarrow> string" where
  "json_str obj key d = (case Option.bind (obj_find key obj) as_string of Some s \<Rightarrow> s | None \<Rightarrow> d)"

definition json_num :: "(string \<times> json) list \<Rightarrow> string \<Rightarrow> int \<Rightarrow> int" where
  "json_num obj key d = (case Option.bind (obj_find key obj) as_int64 of Some i \<Rightarrow> i | None \<Rightarrow> d)"

definition json_bool :: "(string \<times> json) list \<Rightarrow> string \<Rightarrow> bool \<Rightarrow> bool" where
  "json_bool obj key d = (case Option.bind (obj_find key obj) as_bool of Some b \<Rightarrow> b | None \<Rightarrow> d)"

definition load_database :: "(string \<times> json) list \<Rightarrow> config \<Rightarrow> config" where
  "load_database root c =
     (case obj_section ''database'' root of
        Some db \<Rightarrow> set_str DATABASE_DSN (json_str db ''dsn'' DSN_DEFAULT) c
      | None \<Rightarrow> set_str DATABASE_DSN DSN_DEFAULT c)"

definition load_auth :: "(string \<times> json) list \<Rightarrow> config \<Rightarrow> config" where
  "load_auth root c =
     (case obj_section ''auth'' root of
        Some auth \<Rightarrow> set_str ENCRYPTION_TYPE (json_str auth ''encryptionType'' ''sha1'') c
      | None \<Rightarrow> set_str ENCRYPTION_TYPE ''sha1'' c)"

definition load_discord :: "(string \<times> json) list \<Rightarrow> config \<Rightarrow> config" where
  "load_discord root c =
     (case obj_section ''discord'' root of
        Some disc \<Rightarrow>
          (let c = (case Option.bind (obj_find ''botToken'' disc) as_string of
                      Some s \<Rightarrow> set_str DISCORD_BOT_TOKEN s c | None \<Rightarrow> c)
           in case Option.bind (obj_find ''motdChannel'' disc) as_string of
                Some s \<Rightarrow> set_str DISCORD_MOTD_CHANNEL s c | None \<Rightarrow> c)
      | None \<Rightarrow> c)"

definition legacy_numbers :: "(string \<times> json) list \<Rightarrow> config \<Rightarrow> config" where
  "legacy_numbers leg c =
     fold (\<lambda>(k, v). set_num k v)
       [(LOGIN_TRIES, json_num leg ''loginTries'' 3),
        (RETRY_TIMEOUT, json_num leg ''retryTimeout'' 30000),
        (LOGIN_TIMEOUT, json_num leg ''loginTimeout'' 5000),
        (MAX_PLAYERS, json_num leg ''maxPlayers'' 1000),
        (NICE_LEVEL, json_num leg ''niceLevel'' 5),
        (MOTD_ID, 1),
        (SERVICE_THREADS, json_num leg ''serviceThreads'' 1),
        (GAMEMASTER_GROUP, json_num leg ''gamemasterGroup'' 4),
        (MAX_PACKETS_PER_SECOND, json_num leg ''maxPacketsPerSecond'' 25)] c"

definition legacy_strings :: "(string \<times> json) list \<Rightarrow> config \<Rightarrow> config" where
  "legacy_strings leg c =
     (let c = fold (\<lambda>(k, v). set_str k v)
            [(SERVER_NAME, json_str leg ''serverName'' ''Forgotten''),
             (OWNER_NAME, json_str leg ''ownerName'' []),
             (OWNER_EMAIL, json_str leg ''ownerEmail'' ''@otland.net''),
             (URL, json_str leg ''url'' ''http://otland.net/''),
             (LOCATION, json_str leg ''location'' ''Europe''),
             (MOTD_TEXT, []),
             (LISTEN_ADDR, json_str leg ''listenAddr'' ''0.0.0.0:7171'')] c;
          c = (if m_confString c RUNFILE = [] then set_str RUNFILE (json_str leg ''runFile'' ''tfls.pid'') c else c)
      in if m_confString c OUTPUT_LOG = [] then set_str OUTPUT_LOG (json_str leg ''outputLog'' []) c else c)"

definition legacy_bools :: "(string \<times> json) list \<Rightarrow> config \<Rightarrow> config" where
  "legacy_bools leg c =
     fold (\<lambda>(k, v). set_bool k v)
       [(FREE_PREMIUM, json_bool leg ''freePremium'' False),
        (INIT_PREMIUM_UPDATE, json_bool leg ''updatePremiumStateAtStartup'' True),
        (ON_OR_OFF_CHARLIST, json_bool leg ''displayOnOrOffAtCharlist'' True),
        (DAEMONIZE, json_bool leg ''daemonize'' False),
        (TRUNCATE_LOG, json_bool leg ''truncateLogsOnStartup'' True),
        (FORCE_CLOSE_SLOW_CONNECTION, json_bool leg ''forceCloseSlowConnection'' False)] c"

text \<open>Without an \<open>rsa\<close> section the defaults are stored, which is an empty section.\<close>

definition legacy_rsa :: "(string \<times> json) list \<Rightarrow> config \<Rightarrow> config" where
  "legacy_rsa leg c =
     (let rsa = (case obj_section ''rsa'' leg of Some rsa \<Rightarrow> rsa | None \<Rightarrow> [])
      in fold (\<lambda>(k, v). set_str k v)
           [(RSA_PRIME1, json_str rsa ''prime1'' RSA_PRIME1_DEFAULT),
            (RSA_PRIME2, json_str rsa ''prime2'' RSA_PRIME2_DEFAULT),
            (RSA_PUBLIC, json_str rsa ''public'' RSA_PUBLIC_DEFAULT),
            (RSA_MODULUS, json_str rsa ''modulus'' RSA_MODULUS_DEFAULT),
            (RSA_PRIVATE, json_str rsa ''private'' RSA_PRIVATE_DEFAULT)] c)"

definition legacy_cores :: "(string \<times> json) list \<Rightarrow> config \<Rightarrow> config" where
  "legacy_cores leg c =
     (let elems = (case Option.bind (obj_find ''coresUsed'' leg) as_array of Some xs \<Rightarrow> xs | None \<Rightarrow> []);
          cores = map to_i32 (List.map_filter as_int64 elems)
      in c\<lparr>m_coresUsed := (if cores = [] then [-1] else cores)\<rparr>)"

definition load_legacy :: "(string \<times> json) list \<Rightarrow> config \<Rightarrow> config" where
  "load_legacy leg c =
     legacy_cores leg (legacy_rsa leg (legacy_bools leg (legacy_strings leg (legacy_numbers leg c))))"

definition load_no_legacy :: "config \<Rightarrow> config" where
  "load_no_legacy c =
     (let c = fold (\<lambda>(k, v). set_num k v)
            [(LOGIN_TRIES, 3), (RETRY_TIMEOUT, 30000), (LOGIN_TIMEOUT, 5000), (MAX_PLAYERS, 1000),
             (NICE_LEVEL, 5), (MOTD_ID, 1), (SERVICE_THREADS, 1), (GAMEMASTER_GROUP, 4),
             (MAX_PACKETS_PER_SECOND, 25)] c;
          c = set_str MOTD_TEXT [] (set_str SERVER_NAME ''Forgotten'' c);
          c = set_bool TRUNCATE_LOG True (set_bool ON_OR_OFF_CHARLIST True c)
      in c\<lparr>m_coresUsed := [-1]\<rparr>)"

definition load_root ::
  "string \<Rightarrow> (string \<times> json) list \<Rightarrow> config \<Rightarrow> config" where
  "load_root configDir root c =
     (let c = load_discord root (load_auth root (load_database root (set_str CONFIG_DIR configDir c)))
      in case obj_section ''legacy'' root of
           Some leg \<Rightarrow> load_legacy leg c
         | None \<Rightarrow> load_no_legacy c)"

text \<open>\<open>read_file\<close> gives the contents of a file that can be opened.\<close>

definition load ::
  "(string \<Rightarrow> string option) \<Rightarrow> (string \<Rightarrow> json option) \<Rightarrow>
   (string \<Rightarrow> string \<Rightarrow> (nat \<times> string) option) \<Rightarrow> string \<Rightarrow> config \<Rightarrow> bool \<times> config" where
  "load read_file parse fetch configDir c =
     (case read_file (configDir @ ''/config.json'') of
        None \<Rightarrow> (False, c)
      | Some contents \<Rightarrow>
          (case parse contents of
             None \<Rightarrow> (False, c)
           | Some jv \<Rightarrow>
               (case as_object jv of
                  None \<Rightarrow> (False, c)
                | Some root \<Rightarrow>
                    (True, reloadMotd parse fetch ((load_root configDir root c)\<lparr>m_loaded := True\<rparr>)))))"

section \<open>Arrays of settings\<close>

text \<open>
  What the loading code relies on: an array is read back as it was written, and the other
  arrays do not matter. The three arrays of the class are instances.
\<close>

locale setting_array =
  fixes put :: "'k \<Rightarrow> 'v \<Rightarrow> config \<Rightarrow> config" and look :: "config \<Rightarrow> 'k \<Rightarrow> 'v"
  assumes look_put: "look (put k v c) = (look c)(k := v)"
begin

lemma look_fold_put:
  "look (fold (\<lambda>(k, v). put k v) kvs c) k = (case map_of (rev kvs) k of Some v \<Rightarrow> v | None \<Rightarrow> look c k)"
  by (induction kvs arbitrary: c) (auto simp: look_put map_add_Some_iff map_add_def split: option.split)

lemma look_fold_put_keep: "k \<notin> fst ` set kvs \<Longrightarrow> look (fold (\<lambda>(k, v). put k v) kvs c) k = look c k"
  by (induction kvs arbitrary: c) (auto simp: look_put)

end

interpretation str_array: setting_array set_str m_confString
  by unfold_locales (simp add: set_str_def)

interpretation num_array: setting_array set_num m_confNumber
  by unfold_locales (simp add: set_num_def)

interpretation bool_array: setting_array set_bool m_confBool
  by unfold_locales (simp add: set_bool_def)

named_theorems config_simps "what an operation does not change"

lemma set_str_others [config_simps]:
  "m_confBool (set_str k v c) = m_confBool c" "m_confNumber (set_str k v c) = m_confNumber c"
  "m_coresUsed (set_str k v c) = m_coresUsed c" "m_loaded (set_str k v c) = m_loaded c"
  by (simp_all add: set_str_def)

lemma set_num_others [config_simps]:
  "m_confBool (set_num k v c) = m_confBool c" "m_confString (set_num k v c) = m_confString c"
  "m_coresUsed (set_num k v c) = m_coresUsed c" "m_loaded (set_num k v c) = m_loaded c"
  by (simp_all add: set_num_def)

lemma set_bool_others [config_simps]:
  "m_confNumber (set_bool k v c) = m_confNumber c" "m_confString (set_bool k v c) = m_confString c"
  "m_coresUsed (set_bool k v c) = m_coresUsed c" "m_loaded (set_bool k v c) = m_loaded c"
  by (simp_all add: set_bool_def)

lemmas look_put [config_simps] = str_array.look_put num_array.look_put bool_array.look_put

lemma reloadMotd_frame [config_simps]:
  "m_loaded (reloadMotd parse fetch c) = m_loaded c"
  "m_confBool (reloadMotd parse fetch c) = m_confBool c"
  "m_coresUsed (reloadMotd parse fetch c) = m_coresUsed c"
  "k \<noteq> MOTD_TEXT \<Longrightarrow> m_confString (reloadMotd parse fetch c) k = m_confString c k"
  "n \<noteq> MOTD_ID \<Longrightarrow> m_confNumber (reloadMotd parse fetch c) n = m_confNumber c n"
  by (simp_all add: reloadMotd_def motd_default_def Let_def config_simps
      split: option.splits prod.splits list.splits)

lemma legacy_cores_frame [config_simps]:
  "m_confBool (legacy_cores leg c) = m_confBool c" "m_confNumber (legacy_cores leg c) = m_confNumber c"
  "m_confString (legacy_cores leg c) = m_confString c" "m_loaded (legacy_cores leg c) = m_loaded c"
  by (simp_all add: legacy_cores_def Let_def)

section \<open>Properties\<close>

text \<open>The settings of the \<open>legacy\<close> section: name in the file and default.\<close>

definition number_settings :: "(number_config_t \<times> string \<times> int) list" where
  "number_settings =
     [(LOGIN_TRIES, ''loginTries'', 3), (RETRY_TIMEOUT, ''retryTimeout'', 30000),
      (LOGIN_TIMEOUT, ''loginTimeout'', 5000), (MAX_PLAYERS, ''maxPlayers'', 1000),
      (NICE_LEVEL, ''niceLevel'', 5), (SERVICE_THREADS, ''serviceThreads'', 1),
      (GAMEMASTER_GROUP, ''gamemasterGroup'', 4), (MAX_PACKETS_PER_SECOND, ''maxPacketsPerSecond'', 25)]"

definition string_settings :: "(string_config_t \<times> string \<times> string) list" where
  "string_settings =
     [(SERVER_NAME, ''serverName'', ''Forgotten''), (OWNER_NAME, ''ownerName'', []),
      (OWNER_EMAIL, ''ownerEmail'', ''@otland.net''), (URL, ''url'', ''http://otland.net/''),
      (LOCATION, ''location'', ''Europe''), (LISTEN_ADDR, ''listenAddr'', ''0.0.0.0:7171'')]"

definition bool_settings :: "(bool_config_t \<times> string \<times> bool) list" where
  "bool_settings =
     [(FREE_PREMIUM, ''freePremium'', False), (INIT_PREMIUM_UPDATE, ''updatePremiumStateAtStartup'', True),
      (ON_OR_OFF_CHARLIST, ''displayOnOrOffAtCharlist'', True), (DAEMONIZE, ''daemonize'', False),
      (TRUNCATE_LOG, ''truncateLogsOnStartup'', True),
      (FORCE_CLOSE_SLOW_CONNECTION, ''forceCloseSlowConnection'', False)]"

lemma load_succeeds:
  assumes "read_file (dir @ ''/config.json'') = Some contents" and "parse contents = Some (JObject root)"
  shows "load read_file parse fetch dir c =
     (True, reloadMotd parse fetch ((load_root dir root c)\<lparr>m_loaded := True\<rparr>))"
  using assms by (simp add: load_def)

text \<open>A configuration that is loaded lists some processor.\<close>

lemma load_sets_cores:
  assumes "load read_file parse fetch dir c = (True, c1)"
  shows "m_coresUsed c1 \<noteq> []"
proof -
  have "m_coresUsed (load_root dir root c) \<noteq> []" for root
    by (simp add: load_root_def load_legacy_def load_no_legacy_def legacy_cores_def Let_def split: option.split)
  then show ?thesis using assms by (auto simp: load_def config_simps split: option.splits)
qed

lemma legacy_number_values:
  "(k, key, d) \<in> set number_settings \<Longrightarrow> m_confNumber (load_legacy leg c) k = json_num leg key d"
  by (auto simp: number_settings_def load_legacy_def legacy_cores_frame legacy_rsa_def legacy_bools_def
      legacy_strings_def legacy_numbers_def Let_def config_simps)

lemma legacy_string_values:
  "(k, key, d) \<in> set string_settings \<Longrightarrow> m_confString (load_legacy leg c) k = json_str leg key d"
  by (auto simp: string_settings_def load_legacy_def legacy_cores_frame legacy_rsa_def legacy_bools_def
      legacy_strings_def legacy_numbers_def Let_def config_simps)

lemma legacy_bool_values:
  "(k, key, d) \<in> set bool_settings \<Longrightarrow> m_confBool (load_legacy leg c) k = json_bool leg key d"
  by (auto simp: bool_settings_def load_legacy_def legacy_cores_frame legacy_rsa_def legacy_bools_def
      legacy_strings_def legacy_numbers_def Let_def config_simps)

lemma settings_in_range:
  "(n, key, i) \<in> set number_settings \<Longrightarrow> n \<noteq> MOTD_ID \<and> n \<noteq> LAST_NUMBER_CONFIG"
  "(s, key, t) \<in> set string_settings \<Longrightarrow> s \<noteq> MOTD_TEXT \<and> s \<noteq> LAST_STRING_CONFIG"
  "(b, key, d) \<in> set bool_settings \<Longrightarrow> b \<noteq> LAST_BOOL_CONFIG"
  by (auto simp: number_settings_def string_settings_def bool_settings_def)

text \<open>Loading a configuration with a \<open>legacy\<close> section: every setting is the value of its
  key when the key is there with the right type, and its default otherwise, whatever the
  memory held before.\<close>

theorem load_reads_legacy_settings:
  assumes "read_file (dir @ ''/config.json'') = Some contents" and "parse contents = Some (JObject root)"
    and "obj_section ''legacy'' root = Some leg"
  shows "\<exists>c'. load read_file parse fetch dir c = (True, c') \<and>
     (\<forall>(k, key, d) \<in> set number_settings. getNumber k c' = json_num leg key d) \<and>
     (\<forall>(k, key, d) \<in> set string_settings. getString k c' = json_str leg key d) \<and>
     (\<forall>(k, key, d) \<in> set bool_settings. getBool k c' = json_bool leg key d)"
proof -
  have root: "\<exists>c1. load_root dir root c = load_legacy leg c1"
    using assms(3) by (auto simp: load_root_def)
  then obtain c1 where c1: "load_root dir root c = load_legacy leg c1" by blast
  show ?thesis
    using load_succeeds [of read_file dir contents parse root fetch c] assms(1,2) settings_in_range
    by (auto simp: c1 getNumber_def getString_def getBool_def config_simps legacy_number_values
        legacy_string_values legacy_bool_values)
qed

theorem load_reads_legacy_settings_witness:
  "\<exists>c'. load (\<lambda>f. if f = ''etc/config.json'' then Some ''x'' else None)
        (\<lambda>s. Some (JObject [(''legacy'', JObject [(''loginTries'', JInt64 7)])])) (\<lambda>t a. None) ''etc''
        (new_config (\<lambda>_. True) (\<lambda>_. 99)) = (True, c') \<and>
     getNumber LOGIN_TRIES c' = 7 \<and> getNumber RETRY_TIMEOUT c' = 30000 \<and> \<not> getBool FREE_PREMIUM c'"
proof -
  let ?rf = "\<lambda>f. if f = ''etc/config.json'' then Some ''x'' else None"
  let ?root = "[(''legacy'', JObject [(''loginTries'', JInt64 7)])]"
  obtain c' where c': "load ?rf (\<lambda>s. Some (JObject ?root)) (\<lambda>t a. None) ''etc'' (new_config (\<lambda>_. True) (\<lambda>_. 99)) = (True, c')"
    "\<forall>(k, key, d) \<in> set number_settings. getNumber k c' = json_num [(''loginTries'', JInt64 7)] key d"
    "\<forall>(k, key, d) \<in> set bool_settings. getBool k c' = json_bool [(''loginTries'', JInt64 7)] key d"
    using load_reads_legacy_settings [of ?rf "''etc''" "''x''" "\<lambda>s. Some (JObject ?root)" ?root
        "[(''loginTries'', JInt64 7)]" "\<lambda>t a. None" "new_config (\<lambda>_. True) (\<lambda>_. 99)"]
    by (auto simp: obj_section_def obj_find_def)
  then show ?thesis
    by (intro exI [of _ c']) (simp add: number_settings_def bool_settings_def json_num_def json_bool_def obj_find_def)
qed

text \<open>Loading either succeeds, which happens exactly when the file opens and parses to an
  object, or leaves the configuration as it was.\<close>

theorem load_fails_without_change:
  "(fst (load read_file parse fetch dir c) \<longleftrightarrow>
      (\<exists>contents root. read_file (dir @ ''/config.json'') = Some contents \<and> parse contents = Some (JObject root))) \<and>
   (fst (load read_file parse fetch dir c) \<or> snd (load read_file parse fetch dir c) = c)"
proof -
  have "as_object jv = Some root \<longleftrightarrow> jv = JObject root" for jv root by (cases jv) auto
  moreover have "as_object jv = None \<longleftrightarrow> (\<forall>root. jv \<noteq> JObject root)" for jv by (cases jv) auto
  ultimately show ?thesis
    by (auto simp: load_def split: option.splits)
qed

text \<open>Refreshing the message of the day never loses it: a message that is set stays set, and
  unless a new text was fetched (which takes the next number) nothing changes at all.\<close>

theorem reloadMotd_keeps_message:
  assumes "m_confString c MOTD_TEXT \<noteq> []"
  shows "m_confString (reloadMotd parse fetch c) MOTD_TEXT \<noteq> [] \<and>
     (reloadMotd parse fetch c = c \<or>
      m_confNumber (reloadMotd parse fetch c) MOTD_ID = m_confNumber c MOTD_ID + 1)"
  using assms by (auto simp: reloadMotd_def motd_default_def Let_def config_simps
      split: option.splits prod.splits list.splits)

theorem reloadMotd_keeps_message_witness:
  "m_confString (reloadMotd (\<lambda>s. None) (\<lambda>t a. None) (set_str MOTD_TEXT ''Hi'' (new_config (\<lambda>_. True) (\<lambda>_. 1)))) MOTD_TEXT \<noteq> []"
  using reloadMotd_keeps_message [of "set_str MOTD_TEXT ''Hi'' (new_config (\<lambda>_. True) (\<lambda>_. 1))" "\<lambda>s. None" "\<lambda>t a. None"]
  by (simp add: config_simps)

text \<open>The limit of the defaults: without a \<open>legacy\<close> section the listening address and the
  RSA key stay empty on a fresh configuration, and the free premium, premium update and slow
  connection switches keep whatever the uninitialised memory held.\<close>

theorem load_without_legacy_incomplete:
  assumes "read_file (dir @ ''/config.json'') = Some contents" and "parse contents = Some (JObject root)"
    and "obj_section ''legacy'' root = None"
  shows "\<exists>c'. load read_file parse fetch dir (new_config bools numbers) = (True, c') \<and>
     getString LISTEN_ADDR c' = [] \<and> getString RSA_MODULUS c' = [] \<and> getString RSA_PRIVATE c' = [] \<and>
     getBool FREE_PREMIUM c' = bools FREE_PREMIUM \<and>
     getBool INIT_PREMIUM_UPDATE c' = bools INIT_PREMIUM_UPDATE \<and>
     getBool FORCE_CLOSE_SLOW_CONNECTION c' = bools FORCE_CLOSE_SLOW_CONNECTION"
  using load_succeeds [of read_file dir contents parse root fetch "new_config bools numbers"] assms
  by (simp add: getString_def getBool_def config_simps load_root_def load_no_legacy_def Let_def
      load_discord_def load_auth_def load_database_def new_config_def split: option.split)

theorem load_without_legacy_incomplete_witness:
  "\<exists>c'. load (\<lambda>f. Some ''x'') (\<lambda>s. Some (JObject [])) (\<lambda>t a. None) ''etc''
       (new_config (\<lambda>_. True) (\<lambda>_. 0)) = (True, c') \<and> getString LISTEN_ADDR c' = [] \<and> getBool FREE_PREMIUM c'"
  using load_without_legacy_incomplete [of "\<lambda>f. Some ''x''" "''etc''" "''x''" "\<lambda>s. Some (JObject [])" "[]"
      "\<lambda>t a. None" "\<lambda>_. True" "\<lambda>_. 0"]
  by (auto simp: obj_section_def obj_find_def)

end
