(* ===== verification/Connection_Manager.thy ===== *)
theory Connection_Manager
  imports Config_Manager
begin

text \<open>
  The connection manager of \<open>net/connection.h\<close> and \<open>net/connection.cpp\<close>: the list of open
  connections, the counter of login attempts per address and the limiter of new
  connections. Connections are handles. The clock is an argument of the operations
  that read it: seconds for \<open>time\<close>, milliseconds for \<open>OTSYS_TIME\<close>. The lock makes every
  operation one step, so a concurrent run is a sequence of operations.
\<close>

record login_block =
  lastLogin :: int
  lastProtocol :: int
  loginsAmount :: int

record connect_block =
  cb_count :: u32
  startTime :: u64
  blockTime :: u64

record connection_manager =
  ipLoginMap :: "u32 \<rightharpoonup> login_block"
  ipConnectMap :: "u32 \<rightharpoonup> connect_block"
  cm_connections :: "nat list"

definition new_connection_manager :: connection_manager where
  "new_connection_manager = \<lparr>ipLoginMap = Map.empty, ipConnectMap = Map.empty, cm_connections = []\<rparr>"

section \<open>Operations\<close>

definition cm_createConnection :: "nat \<Rightarrow> connection_manager \<Rightarrow> connection_manager" where
  "cm_createConnection h cm = cm\<lparr>cm_connections := cm_connections cm @ [h]\<rparr>"

definition cm_releaseConnection :: "nat \<Rightarrow> connection_manager \<Rightarrow> connection_manager" where
  "cm_releaseConnection h cm = cm\<lparr>cm_connections := remove1 h (cm_connections cm)\<rparr>"

text \<open>\<open>shutdown\<close> also gives the handles whose sockets it shuts down and closes.\<close>

definition cm_shutdown :: "connection_manager \<Rightarrow> nat list \<times> connection_manager" where
  "cm_shutdown cm = (cm_connections cm, cm\<lparr>cm_connections := []\<rparr>)"

definition isDisabled :: "config \<Rightarrow> int \<Rightarrow> u32 \<Rightarrow> int \<Rightarrow> connection_manager \<Rightarrow> bool" where
  "isDisabled cfg now clientIp protocolId cm =
     (let maxLoginTries = to_i32 (getNumber LOGIN_TRIES cfg)
      in if maxLoginTries = 0 \<or> clientIp = 0 then False
         else case ipLoginMap cm clientIp of
           None \<Rightarrow> False
         | Some b \<Rightarrow>
             lastProtocol b \<noteq> protocolId \<and> loginsAmount b > maxLoginTries \<and>
             to_i32 now < lastLogin b + c_div (getNumber LOGIN_TIMEOUT cfg) 1000)"

definition addAttempt :: "config \<Rightarrow> int \<Rightarrow> u32 \<Rightarrow> int \<Rightarrow> bool \<Rightarrow> connection_manager \<Rightarrow> connection_manager" where
  "addAttempt cfg now clientIp protocolId success cm =
     (if clientIp = 0 then cm
      else
        let b = (case ipLoginMap cm clientIp of
                   None \<Rightarrow> \<lparr>lastLogin = 0, lastProtocol = 0, loginsAmount = 0\<rparr>
                 | Some b \<Rightarrow> b);
            b = (if loginsAmount b > getNumber LOGIN_TRIES cfg then b\<lparr>loginsAmount := 0\<rparr> else b);
            currentTime = to_i32 now;
            b = (if \<not> success \<or> currentTime < lastLogin b + c_div (to_i32 (getNumber RETRY_TIMEOUT cfg)) 1000
                 then b\<lparr>loginsAmount := loginsAmount b + 1\<rparr>
                 else b\<lparr>loginsAmount := 0\<rparr>);
            b = b\<lparr>lastLogin := currentTime, lastProtocol := protocolId\<rparr>
        in cm\<lparr>ipLoginMap := (ipLoginMap cm)(clientIp \<mapsto> b)\<rparr>)"

definition acceptConnection :: "u64 \<Rightarrow> u32 \<Rightarrow> connection_manager \<Rightarrow> bool \<times> connection_manager" where
  "acceptConnection currentTime clientIp cm =
     (if clientIp = 0 then (False, cm)
      else case ipConnectMap cm clientIp of
        None \<Rightarrow>
          (True, cm\<lparr>ipConnectMap := (ipConnectMap cm)(clientIp \<mapsto>
             \<lparr>cb_count = 1, startTime = currentTime, blockTime = 0\<rparr>)\<rparr>)
      | Some b \<Rightarrow>
          (let b = b\<lparr>cb_count := cb_count b + 1\<rparr>;
               store = (\<lambda>b. cm\<lparr>ipConnectMap := (ipConnectMap cm)(clientIp \<mapsto> b)\<rparr>)
           in if blockTime b > currentTime then (False, store b)
              else if currentTime - startTime b > 1000 then
                (let tmp = cb_count b;
                     b = b\<lparr>startTime := currentTime, cb_count := 0, blockTime := 0\<rparr>
                 in if tmp > 10 then (False, store (b\<lparr>blockTime := currentTime + 10000\<rparr>))
                    else (True, store b))
              else (True, store b)))"

section \<open>Runs of the manager\<close>

text \<open>The operations as events; each carries the clock value it reads.\<close>

datatype cm_event =
  CmCreate nat | CmRelease nat | CmShutdown | CmAttempt int u32 int bool | CmAccept u64 u32

fun cm_step :: "config \<Rightarrow> cm_event \<Rightarrow> connection_manager \<Rightarrow> connection_manager" where
  "cm_step cfg (CmCreate h) cm = cm_createConnection h cm"
| "cm_step cfg (CmRelease h) cm = cm_releaseConnection h cm"
| "cm_step cfg CmShutdown cm = snd (cm_shutdown cm)"
| "cm_step cfg (CmAttempt now ip protocolId success) cm = addAttempt cfg now ip protocolId success cm"
| "cm_step cfg (CmAccept now ip) cm = snd (acceptConnection now ip cm)"

lemma cm_frames [simp]:
  "ipLoginMap (snd (acceptConnection now ip cm)) = ipLoginMap cm"
  "ipLoginMap (cm_createConnection h cm) = ipLoginMap cm"
  "ipLoginMap (cm_releaseConnection h cm) = ipLoginMap cm"
  "ipLoginMap (snd (cm_shutdown cm)) = ipLoginMap cm"
  "ipConnectMap (addAttempt cfg t ip pr s cm) = ipConnectMap cm"
  "ipConnectMap (cm_createConnection h cm) = ipConnectMap cm"
  "ipConnectMap (cm_releaseConnection h cm) = ipConnectMap cm"
  "ipConnectMap (snd (cm_shutdown cm)) = ipConnectMap cm"
  by (simp_all add: acceptConnection_def addAttempt_def cm_createConnection_def cm_releaseConnection_def
      cm_shutdown_def Let_def split: option.splits)

section \<open>Login attempts\<close>

definition attempts_bounded :: "config \<Rightarrow> connection_manager \<Rightarrow> bool" where
  "attempts_bounded cfg cm \<longleftrightarrow>
     (\<forall>ip b. ipLoginMap cm ip = Some b \<longrightarrow> 0 \<le> loginsAmount b \<and> loginsAmount b \<le> max 0 (getNumber LOGIN_TRIES cfg) + 1)"

lemma attempts_bounded_step: "attempts_bounded cfg cm \<Longrightarrow> attempts_bounded cfg (cm_step cfg e cm)"
  by (cases e) (auto simp: attempts_bounded_def addAttempt_def Let_def split: option.splits)

interpretation attempts: guarded_machine "cm_step cfg" "attempts_bounded cfg" for cfg
  by unfold_locales (rule attempts_bounded_step)

text \<open>The counter of login attempts never runs away: in every run from an empty manager it
  stays between 0 and one more than the configured number of tries, so the \<open>int32_t\<close> of the
  code cannot overflow.\<close>

theorem login_attempts_bounded:
  assumes "ipLoginMap (fold (cm_step cfg) es new_connection_manager) ip = Some b"
  shows "0 \<le> loginsAmount b \<and> loginsAmount b \<le> max 0 (getNumber LOGIN_TRIES cfg) + 1"
proof -
  have "attempts_bounded cfg new_connection_manager"
    by (simp add: attempts_bounded_def new_connection_manager_def)
  then show ?thesis
    using attempts.run_inv [of cfg new_connection_manager es] assms by (simp add: attempts_bounded_def)
qed

theorem login_attempts_bounded_witness:
  "loginsAmount (the (ipLoginMap (fold (cm_step (new_config (\<lambda>_. False) (\<lambda>_. 3)))
     [CmAttempt 1000 7 1 False, CmAttempt 1001 7 1 False] new_connection_manager) 7)) \<le> 1"
proof -
  let ?cfg = "new_config (\<lambda>_. False) (\<lambda>_. 3)"
  let ?cm = "fold (cm_step ?cfg) [CmAttempt 1000 7 1 False, CmAttempt 1001 7 1 False] new_connection_manager"
  obtain b where b: "ipLoginMap ?cm 7 = Some b" by (simp add: addAttempt_def Let_def)
  have "getNumber LOGIN_TRIES ?cfg = 0" by (simp add: getNumber_def new_config_def)
  then show ?thesis using login_attempts_bounded [OF b] b by simp
qed

definition attempts_by :: "int \<Rightarrow> cm_event \<Rightarrow> bool" where
  "attempts_by protocolId e = (case e of CmAttempt _ _ p _ \<Rightarrow> p = protocolId | _ \<Rightarrow> True)"

lemma lastProtocol_run:
  assumes "\<forall>e \<in> set es. attempts_by p e"
    and "\<forall>ip b. ipLoginMap cm ip = Some b \<longrightarrow> lastProtocol b = p"
  shows "\<forall>ip b. ipLoginMap (fold (cm_step cfg) es cm) ip = Some b \<longrightarrow> lastProtocol b = p"
  using assms
proof (induction es arbitrary: cm)
  case (Cons e es)
  have "\<forall>ip b. ipLoginMap (cm_step cfg e cm) ip = Some b \<longrightarrow> lastProtocol b = p"
    using Cons.prems by (cases e) (auto simp: attempts_by_def addAttempt_def Let_def split: if_splits)
  then show ?case using Cons by simp
qed simp

text \<open>The limit of the login lock: \<open>isDisabled\<close> asks that the last attempt came through a
  different protocol. When every attempt is recorded under one protocol, as this server does
  with its only protocol, no number of failed attempts ever disables an address.\<close>

theorem single_protocol_never_disabled:
  assumes "\<forall>e \<in> set es. attempts_by p e"
  shows "\<not> isDisabled cfg now ip p (fold (cm_step cfg) es new_connection_manager)"
  using lastProtocol_run [OF assms, of new_connection_manager cfg]
  by (auto simp: isDisabled_def new_connection_manager_def Let_def split: option.splits)

theorem single_protocol_never_disabled_witness:
  "\<not> isDisabled (new_config (\<lambda>_. False) (\<lambda>_. 3)) 1005 7 1 (fold (cm_step (new_config (\<lambda>_. False) (\<lambda>_. 3)))
      [CmAttempt 1000 7 1 False, CmAttempt 1001 7 1 False, CmAttempt 1002 7 1 False, CmAttempt 1003 7 1 False]
      new_connection_manager)"
  by (rule single_protocol_never_disabled) (simp add: attempts_by_def)

section \<open>New connections\<close>

definition accepts_before :: "u64 \<Rightarrow> cm_event \<Rightarrow> bool" where
  "accepts_before limit e = (case e of CmAccept now _ \<Rightarrow> now < limit | _ \<Rightarrow> True)"

lemma acceptConnection_blocked:
  assumes "ip \<noteq> 0" and "ipConnectMap cm ip = Some b" and "now < blockTime b"
  shows "acceptConnection now ip cm =
     (False, cm\<lparr>ipConnectMap := (ipConnectMap cm)(ip \<mapsto> b\<lparr>cb_count := cb_count b + 1\<rparr>)\<rparr>)"
  using assms by (simp add: acceptConnection_def Let_def)

lemma acceptConnection_other:
  "ip' \<noteq> ip \<Longrightarrow> ipConnectMap (snd (acceptConnection now ip' cm)) ip = ipConnectMap cm ip"
  by (simp add: acceptConnection_def Let_def split: option.splits)

lemma blockTime_run:
  assumes "ip \<noteq> 0" and "\<forall>e \<in> set es. accepts_before limit e"
    and "\<exists>b. ipConnectMap cm ip = Some b \<and> blockTime b = limit"
  shows "\<exists>b. ipConnectMap (fold (cm_step cfg) es cm) ip = Some b \<and> blockTime b = limit"
  using assms(2,3)
proof (induction es arbitrary: cm)
  case (Cons e es)
  have "\<exists>b. ipConnectMap (cm_step cfg e cm) ip = Some b \<and> blockTime b = limit"
  proof (cases e)
    case (CmAccept now ip')
    then show ?thesis
      using Cons.prems assms(1) acceptConnection_blocked [of ip cm _ now] acceptConnection_other [of ip' ip now cm]
      by (cases "ip' = ip") (auto simp: accepts_before_def)
  qed (use Cons.prems in auto)
  then show ?case using Cons by simp
qed simp

lemma flood_blocks:
  assumes "ip \<noteq> 0" and "ipConnectMap cm ip = Some b" and "\<not> t < blockTime b"
    and "1000 < t - startTime b" and "10 < cb_count b + 1"
  shows "acceptConnection t ip cm = (False, cm\<lparr>ipConnectMap := (ipConnectMap cm)(ip \<mapsto>
     \<lparr>cb_count = 0, startTime = t, blockTime = t + 10000\<rparr>)\<rparr>)"
  using assms by (cases b) (simp add: acceptConnection_def Let_def)

text \<open>C36. The connection limiter: an address whose counted connections exceed ten when its window
  of one second is over is refused, and stays refused for ten seconds whatever else the
  manager does meanwhile, including further connections from the same address.\<close>

theorem flood_refused_for_ten_seconds:
  assumes "ip \<noteq> 0" and "ipConnectMap cm ip = Some b" and "\<not> t < blockTime b"
    and "1000 < t - startTime b" and "10 < cb_count b + 1"
    and "\<forall>e \<in> set es. accepts_before (t + 10000) e" and "now < t + 10000"
  shows "\<not> fst (acceptConnection t ip cm) \<and>
     \<not> fst (acceptConnection now ip (fold (cm_step cfg) es (snd (acceptConnection t ip cm))))"
proof -
  note blocked = flood_blocks [OF assms(1-5)]
  obtain b' where "ipConnectMap (fold (cm_step cfg) es (snd (acceptConnection t ip cm))) ip = Some b'"
    "blockTime b' = t + 10000"
    using blockTime_run [OF assms(1,6), of "snd (acceptConnection t ip cm)" cfg] blocked by auto
  then show ?thesis
    using acceptConnection_blocked [OF assms(1), of _ b' now] assms(7) blocked by simp
qed

theorem flood_refused_for_ten_seconds_witness:
  "\<not> fst (acceptConnection 14999 7 (fold (cm_step (new_config (\<lambda>_. False) (\<lambda>_. 3))) [CmAccept 9000 7, CmAccept 9100 8]
      (snd (acceptConnection 5000 7 (new_connection_manager\<lparr>ipConnectMap :=
         [7 \<mapsto> \<lparr>cb_count = 10, startTime = 3000, blockTime = 0\<rparr>]\<rparr>)))))"
  using flood_refused_for_ten_seconds [of 7 "new_connection_manager\<lparr>ipConnectMap :=
         [7 \<mapsto> \<lparr>cb_count = 10, startTime = 3000, blockTime = 0\<rparr>]\<rparr>"
      "\<lparr>cb_count = 10, startTime = 3000, blockTime = 0\<rparr>" 5000 "[CmAccept 9000 7, CmAccept 9100 8]" 14999
      "new_config (\<lambda>_. False) (\<lambda>_. 3)"]
  by (simp add: accepts_before_def)

text \<open>The exact decision of the limiter: a connection is accepted if and only if the address
  is known, no block is running, and the window of one second is not over or at most ten
  connections were counted with this one.\<close>

theorem acceptConnection_decision:
  "fst (acceptConnection now ip cm) \<longleftrightarrow>
     ip \<noteq> 0 \<and> (case ipConnectMap cm ip of None \<Rightarrow> True
       | Some b \<Rightarrow> blockTime b \<le> now \<and> (now - startTime b \<le> 1000 \<or> cb_count b + 1 \<le> 10))"
  by (auto simp: acceptConnection_def Let_def not_less not_le split: option.splits)

end
