(* ===== verification/Dispatcher.thy ===== *)
theory Dispatcher
  imports Definitions "HOL-Library.Multiset"
begin

text \<open>
  Tasks and the dispatcher thread of \<open>tasks.h\<close> and \<open>tasks.cpp\<close>. A callback is a value of the
  type variable \<open>'a\<close>; what it does is the business of its component.

  The operations are functions on the dispatcher. The thread is a machine whose program
  counter stands between two accesses to shared memory, so that \<open>addTask\<close>, \<open>stop\<close> and
  \<open>shutdown\<close> of other threads interleave with it: \<open>disp_step\<close> is the step relation, and a
  notification is a step of its own after the lock is released, as in the code.
\<close>

section \<open>Tasks\<close>

record 'a task =
  tk_callback :: 'a
  tk_expiration :: "int option"
  tk_eventId :: u32

definition createTask :: "'a \<Rightarrow> 'a task" where
  "createTask f = \<lparr>tk_callback = f, tk_expiration = None, tk_eventId = 0\<rparr>"

definition createTaskExpiring :: "int \<Rightarrow> u32 \<Rightarrow> 'a \<Rightarrow> 'a task" where
  "createTaskExpiring now ms f = \<lparr>tk_callback = f, tk_expiration = Some (now + uint ms), tk_eventId = 0\<rparr>"

definition unsetExpiration :: "'a task \<Rightarrow> 'a task" where
  "unsetExpiration t = t\<lparr>tk_expiration := None\<rparr>"

definition hasExpired :: "int \<Rightarrow> 'a task \<Rightarrow> bool" where
  "hasExpired now t = (case tk_expiration t of None \<Rightarrow> False | Some e \<Rightarrow> e < now)"

section \<open>The dispatcher\<close>

record 'a dispatcher =
  d_taskList :: "'a task list"
  d_threadState :: thread_state

definition new_dispatcher :: "'a dispatcher" where
  "new_dispatcher = \<lparr>d_taskList = [], d_threadState = STATE_RUNNING\<rparr>"

text \<open>The result says whether the thread has to be signalled.\<close>

definition d_addTask :: "'a task \<Rightarrow> bool \<Rightarrow> 'a dispatcher \<Rightarrow> bool \<times> 'a dispatcher" where
  "d_addTask t front d =
     (if d_threadState d = STATE_RUNNING
      then (d_taskList d = [],
            d\<lparr>d_taskList := (if front then t # d_taskList d else d_taskList d @ [t])\<rparr>)
      else (False, d))"

definition d_stop :: "'a dispatcher \<Rightarrow> 'a dispatcher" where
  "d_stop d = d\<lparr>d_threadState := STATE_CLOSING\<rparr>"

text \<open>\<open>flush\<close> gives the tasks whose callbacks it runs, in order.\<close>

definition d_flush :: "'a dispatcher \<Rightarrow> 'a task list \<times> 'a dispatcher" where
  "d_flush d = (d_taskList d, d\<lparr>d_taskList := []\<rparr>)"

definition d_shutdown :: "'a dispatcher \<Rightarrow> 'a task list \<times> 'a dispatcher" where
  "d_shutdown d = d_flush (d\<lparr>d_threadState := STATE_TERMINATED\<rparr>)"

text \<open>The locked part of the loop after the wait: take the first task.\<close>

definition d_take :: "'a dispatcher \<Rightarrow> 'a task option \<times> 'a dispatcher" where
  "d_take d =
     (case d_taskList d of
        t # ts \<Rightarrow> if d_threadState d \<noteq> STATE_TERMINATED then (Some t, d\<lparr>d_taskList := ts\<rparr>) else (None, d)
      | [] \<Rightarrow> (None, d))"

section \<open>The thread\<close>

datatype 'a disp_pc = AtTest | AtLock | Waiting | Woken | Running "'a task" | Finished

text \<open>
  The machine: the dispatcher, the thread, the notifications still to be delivered, and what
  happened so far (tasks accepted, run, and dropped because they had expired).
\<close>

record 'a disp_machine =
  dm_disp :: "'a dispatcher"
  dm_pc :: "'a disp_pc"
  dm_signals :: nat
  dm_accepted :: "'a task multiset"
  dm_run :: "'a task list"
  dm_dropped :: "'a task list"

definition disp_init :: "'a disp_machine" where
  "disp_init = \<lparr>dm_disp = new_dispatcher, dm_pc = AtTest, dm_signals = 0, dm_accepted = {#}, dm_run = [], dm_dropped = []\<rparr>"

definition dm_take :: "'a disp_machine \<Rightarrow> 'a disp_machine" where
  "dm_take s = (case d_take (dm_disp s) of
       (Some t, d) \<Rightarrow> s\<lparr>dm_disp := d, dm_pc := Running t\<rparr>
     | (None, d) \<Rightarrow> s\<lparr>dm_disp := d, dm_pc := AtTest\<rparr>)"

definition dm_add :: "'a task \<Rightarrow> bool \<Rightarrow> 'a disp_machine \<Rightarrow> 'a disp_machine" where
  "dm_add t front s = (let (signal, d) = d_addTask t front (dm_disp s)
     in s\<lparr>dm_disp := d, dm_signals := dm_signals s + (if signal then 1 else 0),
          dm_accepted := dm_accepted s + (if d_threadState (dm_disp s) = STATE_RUNNING then {#t#} else {#})\<rparr>)"

inductive disp_step :: "'a disp_machine \<Rightarrow> 'a disp_machine \<Rightarrow> bool" where
  test_end: "dm_pc s = AtTest \<Longrightarrow> d_threadState (dm_disp s) = STATE_TERMINATED \<Longrightarrow>
     disp_step s (s\<lparr>dm_pc := Finished\<rparr>)"
| test_go: "dm_pc s = AtTest \<Longrightarrow> d_threadState (dm_disp s) \<noteq> STATE_TERMINATED \<Longrightarrow>
     disp_step s (s\<lparr>dm_pc := AtLock\<rparr>)"
| lock_wait: "dm_pc s = AtLock \<Longrightarrow> d_taskList (dm_disp s) = [] \<Longrightarrow> disp_step s (s\<lparr>dm_pc := Waiting\<rparr>)"
| lock_take: "dm_pc s = AtLock \<Longrightarrow> d_taskList (dm_disp s) \<noteq> [] \<Longrightarrow> disp_step s (dm_take s)"
| woken: "dm_pc s = Woken \<Longrightarrow> disp_step s (dm_take s)"
| spurious: "dm_pc s = Waiting \<Longrightarrow> disp_step s (s\<lparr>dm_pc := Woken\<rparr>)"
| run: "dm_pc s = Running t \<Longrightarrow> \<not> hasExpired now t \<Longrightarrow>
     disp_step s (s\<lparr>dm_pc := AtTest, dm_run := dm_run s @ [t]\<rparr>)"
| expired: "dm_pc s = Running t \<Longrightarrow> hasExpired now t \<Longrightarrow>
     disp_step s (s\<lparr>dm_pc := AtTest, dm_dropped := dm_dropped s @ [t]\<rparr>)"
| add: "disp_step s (dm_add t front s)"
| notify: "dm_signals s = Suc k \<Longrightarrow>
     disp_step s (s\<lparr>dm_signals := k, dm_pc := (if dm_pc s = Waiting then Woken else dm_pc s)\<rparr>)"
| stop: "disp_step s (s\<lparr>dm_disp := d_stop (dm_disp s)\<rparr>)"
| shutdown: "disp_step s (s\<lparr>dm_disp := snd (d_shutdown (dm_disp s)), dm_run := dm_run s @ fst (d_shutdown (dm_disp s))\<rparr>)"

inductive disp_reachable :: "'a disp_machine \<Rightarrow> bool" where
  init: "disp_reachable disp_init"
| step: "disp_reachable s \<Longrightarrow> disp_step s s' \<Longrightarrow> disp_reachable s'"

section \<open>No task is lost\<close>

definition dm_current :: "'a disp_machine \<Rightarrow> 'a task multiset" where
  "dm_current s = (case dm_pc s of Running t \<Rightarrow> {#t#} | _ \<Rightarrow> {#})"

definition disp_account :: "'a disp_machine \<Rightarrow> bool" where
  "disp_account s \<longleftrightarrow>
     dm_accepted s = mset (dm_run s) + mset (dm_dropped s) + dm_current s + mset (d_taskList (dm_disp s))"

lemma dm_take_cases:
  "dm_take s = (case d_taskList (dm_disp s) of
       t # ts \<Rightarrow> if d_threadState (dm_disp s) \<noteq> STATE_TERMINATED
                then s\<lparr>dm_disp := (dm_disp s)\<lparr>d_taskList := ts\<rparr>, dm_pc := Running t\<rparr> else s\<lparr>dm_pc := AtTest\<rparr>
     | [] \<Rightarrow> s\<lparr>dm_pc := AtTest\<rparr>)"
  by (simp add: dm_take_def d_take_def split: list.split)

lemma disp_account_take:
  "disp_account s \<Longrightarrow> dm_current s = {#} \<Longrightarrow> disp_account (dm_take s)"
  by (auto simp: disp_account_def dm_take_cases dm_current_def split: list.split)

lemma disp_account_step: "disp_step s s' \<Longrightarrow> disp_account s \<Longrightarrow> disp_account s'"
proof (induction rule: disp_step.induct)
  case (lock_take s)
  then show ?case by (intro disp_account_take) (simp_all add: dm_current_def)
next
  case (woken s)
  then show ?case by (intro disp_account_take) (simp_all add: dm_current_def)
next
  case (notify s k)
  then show ?case by (auto simp: disp_account_def dm_current_def split: disp_pc.splits)
qed (auto simp: disp_account_def dm_current_def dm_add_def d_addTask_def d_stop_def d_shutdown_def d_flush_def
    split: disp_pc.splits)

text \<open>C17. The dispatcher neither loses nor repeats a task: in every reachable state, under every
  interleaving with other threads, the accepted tasks are exactly those run, those dropped
  as expired, the one in hand and those still queued.\<close>

theorem dispatcher_no_task_lost:
  assumes "disp_reachable s"
  shows "dm_accepted s = mset (dm_run s) + mset (dm_dropped s) + dm_current s + mset (d_taskList (dm_disp s))"
proof -
  have "disp_account s"
    using assms
  proof (induction rule: disp_reachable.induct)
    case init
    show ?case by (simp add: disp_account_def disp_init_def new_dispatcher_def dm_current_def)
  next
    case (step s s')
    from disp_account_step [OF step.hyps(2) step.IH] show ?case .
  qed
  then show ?thesis by (simp add: disp_account_def)
qed

lemma demo_reachable: "disp_reachable (dm_add (createTask (7 :: nat)) False disp_init)"
  using disp_reachable.step [OF disp_reachable.init disp_step.add] .

theorem dispatcher_no_task_lost_witness:
  "dm_accepted (dm_add (createTask (7 :: nat)) False disp_init) =
     mset (d_taskList (dm_disp (dm_add (createTask (7 :: nat)) False disp_init)))"
  using dispatcher_no_task_lost [OF demo_reachable]
  by (simp add: dm_add_def disp_init_def new_dispatcher_def d_addTask_def dm_current_def)

section \<open>No wake-up is lost while tasks are waiting\<close>

definition disp_awake :: "'a disp_machine \<Rightarrow> bool" where
  "disp_awake s \<longleftrightarrow> (dm_pc s = Waiting \<longrightarrow> d_taskList (dm_disp s) \<noteq> [] \<longrightarrow> 0 < dm_signals s)"

lemma disp_awake_step: "disp_step s s' \<Longrightarrow> disp_awake s \<Longrightarrow> disp_awake s'"
  by (induction rule: disp_step.induct)
    (auto simp: disp_awake_def dm_take_cases dm_add_def d_addTask_def d_stop_def d_shutdown_def d_flush_def
      split: list.split)

lemma disp_awake_reachable: "disp_reachable s \<Longrightarrow> disp_awake s"
proof (induction rule: disp_reachable.induct)
  case init
  show ?case by (simp add: disp_awake_def disp_init_def)
next
  case (step s s')
  from disp_awake_step [OF step.hyps(2) step.IH] show ?case .
qed

text \<open>A step that the thread takes by itself, or that delivers a notification, between two tasks.\<close>

definition disp_own_step :: "'a disp_machine \<Rightarrow> 'a disp_machine \<Rightarrow> bool" where
  "disp_own_step s s' \<longleftrightarrow> disp_step s s' \<and> dm_accepted s' = dm_accepted s \<and> (\<forall>t. dm_pc s \<noteq> Running t) \<and>
     d_threadState (dm_disp s') = d_threadState (dm_disp s) \<and> dm_run s' = dm_run s \<and> dm_dropped s' = dm_dropped s"

lemma disp_own_steps: "disp_own_step\<^sup>*\<^sup>* s s' \<Longrightarrow> disp_step\<^sup>*\<^sup>* s s'"
  by (erule rtranclp_mono [THEN predicate2D, rotated]) (auto simp: disp_own_step_def)

lemma disp_own_take:
  assumes "dm_pc s \<in> {AtLock, Woken}" and "d_taskList (dm_disp s) = t # ts" and "d_threadState (dm_disp s) = STATE_RUNNING"
  obtains s' where "disp_own_step s s'" "dm_pc s' = Running t" "d_taskList (dm_disp s') = ts"
proof (rule that)
  have taken: "dm_take s = s\<lparr>dm_disp := (dm_disp s)\<lparr>d_taskList := ts\<rparr>, dm_pc := Running t\<rparr>"
    using assms(2,3) by (simp add: dm_take_cases)
  have "disp_step s (dm_take s)"
  proof (cases "dm_pc s = AtLock")
    case True
    then show ?thesis using assms(2) by (intro disp_step.lock_take) simp_all
  next
    case False
    then show ?thesis using assms(1) by (intro disp_step.woken) simp
  qed
  moreover have "dm_pc s \<noteq> Running u" for u using assms(1) by auto
  ultimately show "disp_own_step s (dm_take s)" by (simp add: disp_own_step_def) (simp add: taken)
  show "dm_pc (dm_take s) = Running t" "d_taskList (dm_disp (dm_take s)) = ts" by (simp_all add: taken)
qed

lemma disp_reaches_next:
  assumes "disp_awake s" and "d_taskList (dm_disp s) = t # ts"
    and "d_threadState (dm_disp s) = STATE_RUNNING" and "\<forall>t. dm_pc s \<noteq> Running t" and "dm_pc s \<noteq> Finished"
  shows "\<exists>s'. disp_own_step\<^sup>*\<^sup>* s s' \<and> dm_pc s' = Running t \<and> d_taskList (dm_disp s') = ts"
proof (cases "dm_pc s \<in> {AtLock, Woken}")
  case True
  obtain s' where "disp_own_step s s'" "dm_pc s' = Running t" "d_taskList (dm_disp s') = ts"
    by (rule disp_own_take [OF True assms(2,3)])
  then show ?thesis by (intro exI [of _ s']) simp
next
  case False
  obtain s1 where s1: "disp_own_step s s1" "dm_disp s1 = dm_disp s" "dm_pc s1 \<in> {AtLock, Woken}"
  proof (cases "dm_pc s")
    case AtTest
    then have "disp_own_step s (s\<lparr>dm_pc := AtLock\<rparr>)" using assms disp_step.test_go [of s] by (simp add: disp_own_step_def)
    then show thesis by (rule that) simp_all
  next
    case Waiting
    then obtain k where k: "dm_signals s = Suc k" using assms(1,2) by (auto simp: disp_awake_def gr0_conv_Suc)
    then have "disp_own_step s (s\<lparr>dm_signals := k, dm_pc := Woken\<rparr>)"
      using disp_step.notify [OF k] Waiting by (simp add: disp_own_step_def)
    then show thesis by (rule that) simp_all
  qed (use False assms in auto)
  obtain s' where s': "disp_own_step s1 s'" "dm_pc s' = Running t" "d_taskList (dm_disp s') = ts"
    by (rule disp_own_take [OF s1(3)]) (use s1(2) assms(2,3) in simp_all)
  have "disp_own_step\<^sup>*\<^sup>* s s'" using s1(1) s'(1) by (meson r_into_rtranclp rtranclp_trans)
  then show ?thesis using s'(2,3) by blast
qed



section \<open>Shutting down\<close>

text \<open>A run without spurious wake-ups: what the code itself does.\<close>

inductive disp_quiet_run :: "'a disp_machine \<Rightarrow> 'a disp_machine \<Rightarrow> bool" where
  quiet_refl: "disp_quiet_run s s"
| quiet_step: "disp_quiet_run s s' \<Longrightarrow> disp_step s' s'' \<Longrightarrow> s'' \<noteq> s'\<lparr>dm_pc := Woken\<rparr> \<or> dm_pc s' \<noteq> Waiting \<Longrightarrow> disp_quiet_run s s''"

definition disp_asleep :: "'a disp_machine \<Rightarrow> bool" where
  "disp_asleep s \<longleftrightarrow> dm_pc s = Waiting \<and> d_taskList (dm_disp s) = [] \<and> dm_signals s = 0 \<and>
     d_threadState (dm_disp s) \<noteq> STATE_RUNNING"

lemma disp_asleep_step: "disp_step s s' \<Longrightarrow> disp_asleep s \<Longrightarrow> disp_asleep s' \<or> s' = s\<lparr>dm_pc := Woken\<rparr>"
  by (induction rule: disp_step.induct)
    (auto simp: disp_asleep_def dm_add_def d_addTask_def d_stop_def d_shutdown_def d_flush_def)

text \<open>The limit of the shutdown: \<open>shutdown\<close> notifies nobody. When it comes while the thread waits
  for tasks, nothing the code does afterwards ends the wait: only a wake-up without a cause
  could, so the \<open>join\<close> in \<open>exit\<close> does not return.\<close>

theorem dispatcher_shutdown_keeps_waiting:
  assumes "dm_pc s = Waiting" and "d_taskList (dm_disp s) = []" and "dm_signals s = 0"
    and "disp_quiet_run (s\<lparr>dm_disp := snd (d_shutdown (dm_disp s)), dm_run := dm_run s @ fst (d_shutdown (dm_disp s))\<rparr>) s'"
  shows "dm_pc s' = Waiting"
proof -
  have "disp_asleep (s\<lparr>dm_disp := snd (d_shutdown (dm_disp s)), dm_run := dm_run s @ fst (d_shutdown (dm_disp s))\<rparr>)"
    using assms(1-3) by (simp add: disp_asleep_def d_shutdown_def d_flush_def)
  with assms(4) have "disp_asleep s'"
  proof (induction rule: disp_quiet_run.induct)
    case (quiet_step s s' s'')
    then show ?case using disp_asleep_step [of s' s''] by (auto simp: disp_asleep_def)
  qed
  then show ?thesis by (simp add: disp_asleep_def)
qed

theorem dispatcher_shutdown_keeps_waiting_witness:
  "dm_pc ((disp_init\<lparr>dm_pc := Waiting\<rparr>)\<lparr>dm_disp := snd (d_shutdown (new_dispatcher :: nat dispatcher)), dm_run := []\<rparr>) = Waiting"
  using dispatcher_shutdown_keeps_waiting [of "disp_init\<lparr>dm_pc := Waiting\<rparr> :: nat disp_machine", OF _ _ _ disp_quiet_run.quiet_refl]
  by (simp add: disp_init_def new_dispatcher_def)

end
