(* ===== verification/Scheduler.thy ===== *)
theory Scheduler
  imports Dispatcher
begin

text \<open>
  The scheduler of \<open>scheduler.h\<close> and \<open>scheduler.cpp\<close>: delayed events, which its thread hands to
  the dispatcher. \<open>m_eventList\<close> is a \<open>std::priority_queue\<close> by due time; the model keeps it as a
  list sorted by due time, equal times in order of arrival (the heap leaves that open). The
  thread is a machine like the one of the dispatcher, with a clock; \<open>sm_sent\<close> records
  the tasks handed over with the time of the handover.
\<close>

definition SCHEDULER_MINTICKS :: u32 where "SCHEDULER_MINTICKS = 50"

definition createSchedulerTask :: "int \<Rightarrow> u32 \<Rightarrow> 'a \<Rightarrow> 'a task" where
  "createSchedulerTask now delay f =
     createTaskExpiring now (if delay < SCHEDULER_MINTICKS then SCHEDULER_MINTICKS else delay) f"

text \<open>\<open>getCycle\<close>; every scheduler task is made with a due time.\<close>

definition getCycle :: "'a task \<Rightarrow> int" where
  "getCycle t = (case tk_expiration t of Some e \<Rightarrow> e | None \<Rightarrow> 0)"

record 'a scheduler =
  sc_lastEvent :: u32
  sc_eventIds :: "u32 set"
  sc_eventList :: "'a task list"
  sc_threadState :: thread_state

definition new_scheduler :: "'a scheduler" where
  "new_scheduler = \<lparr>sc_lastEvent = 0, sc_eventIds = {}, sc_eventList = [], sc_threadState = STATE_RUNNING\<rparr>"

section \<open>Operations\<close>

fun push_event :: "'a task \<Rightarrow> 'a task list \<Rightarrow> 'a task list" where
  "push_event t [] = [t]"
| "push_event t (u # us) = (if getCycle t < getCycle u then t # u # us else u # push_event t us)"

text \<open>\<open>addEvent\<close>: the event id, whether the thread has to be signalled, and the scheduler.\<close>

definition sc_addEvent :: "'a task \<Rightarrow> 'a scheduler \<Rightarrow> u32 \<times> bool \<times> 'a scheduler" where
  "sc_addEvent t sc =
     (if sc_threadState sc = STATE_RUNNING then
        (let (t, sc) =
               (if tk_eventId t = 0 then
                  (let lst = (if sc_lastEvent sc \<ge> 0xFFFFFFFF then 0 else sc_lastEvent sc);
                       lst = lst + 1
                   in (t\<lparr>tk_eventId := lst\<rparr>, sc\<lparr>sc_lastEvent := lst\<rparr>))
                else (t, sc));
             evs = push_event t (sc_eventList sc);
             signal = (case sc_eventList sc of [] \<Rightarrow> True | u # _ \<Rightarrow> getCycle t < getCycle u)
         in (tk_eventId t, signal,
             sc\<lparr>sc_eventIds := insert (tk_eventId t) (sc_eventIds sc), sc_eventList := evs\<rparr>))
      else (0, False, sc))"

definition sc_stopEvent :: "u32 \<Rightarrow> 'a scheduler \<Rightarrow> bool \<times> 'a scheduler" where
  "sc_stopEvent eventId sc =
     (if eventId = 0 then (False, sc)
      else if eventId \<in> sc_eventIds sc then (True, sc\<lparr>sc_eventIds := sc_eventIds sc - {eventId}\<rparr>)
      else (False, sc))"

definition sc_stop :: "'a scheduler \<Rightarrow> 'a scheduler" where
  "sc_stop sc = sc\<lparr>sc_threadState := STATE_CLOSING\<rparr>"

definition sc_shutdown :: "'a scheduler \<Rightarrow> 'a scheduler" where
  "sc_shutdown sc = sc\<lparr>sc_threadState := STATE_TERMINATED, sc_eventList := [], sc_eventIds := {}\<rparr>"

text \<open>
  The locked part of the loop after the wait, for the value of \<open>action\<close>: the task to run or to
  delete, and whether it runs. \<open>None\<close> stands for \<open>top\<close> of an empty queue, which C++
  leaves undefined.
\<close>

definition sc_take :: "bool \<Rightarrow> 'a scheduler \<Rightarrow> (('a task \<times> bool) option \<times> 'a scheduler) option" where
  "sc_take action sc =
     (if \<not> action \<and> sc_threadState sc \<noteq> STATE_TERMINATED then
        (case sc_eventList sc of
           [] \<Rightarrow> None
         | t # ts \<Rightarrow>
             (let sc = sc\<lparr>sc_eventList := ts\<rparr>
              in if tk_eventId t \<in> sc_eventIds sc
                 then Some (Some (t, True), sc\<lparr>sc_eventIds := sc_eventIds sc - {tk_eventId t}\<rparr>)
                 else Some (Some (t, False), sc)))
      else Some (None, sc))"

section \<open>The thread\<close>

text \<open>
  \<open>SPlainWait\<close> is the wait on an empty list and \<open>STimedWait\<close> the wait with the due time of the
  first event. \<open>SAfter\<close> is the code after the wait with the value of \<open>action\<close>: the plain
  wait leaves it false however it ends, the timed wait sets it to true unless it timed out.
  \<open>stop\<close> comes before \<open>shutdown\<close>, as the two are meant to be called.
\<close>

datatype sched_pc = STest | SLock | SPlainWait | STimedWait int | SPlainEnd | STimedOut | SSignalled | SFinished

record 'a sched_machine =
  sm_sched :: "'a scheduler"
  sm_pc :: sched_pc
  sm_signals :: nat
  sm_now :: int
  sm_sent :: "(int \<times> 'a task) list"

definition sched_init :: "'a sched_machine" where
  "sched_init = \<lparr>sm_sched = new_scheduler, sm_pc = STest, sm_signals = 0, sm_now = 0, sm_sent = []\<rparr>"

fun sched_wake :: "sched_pc \<Rightarrow> sched_pc" where
  "sched_wake SPlainWait = SPlainEnd"
| "sched_wake (STimedWait d) = SSignalled"
| "sched_wake pc = pc"

fun pc_action :: "sched_pc \<Rightarrow> bool option" where
  "pc_action SPlainEnd = Some False"
| "pc_action STimedOut = Some False"
| "pc_action SSignalled = Some True"
| "pc_action _ = None"

definition sm_after :: "('a task \<times> bool) option \<Rightarrow> 'a scheduler \<Rightarrow> 'a sched_machine \<Rightarrow> 'a sched_machine" where
  "sm_after r sc s = s\<lparr>sm_sched := sc, sm_pc := STest,
     sm_sent := sm_sent s @ (case r of Some (t, True) \<Rightarrow> [(sm_now s, unsetExpiration t)] | _ \<Rightarrow> [])\<rparr>"

definition sm_add :: "'a task \<Rightarrow> 'a sched_machine \<Rightarrow> 'a sched_machine" where
  "sm_add t s = (let (_, signal, sc) = sc_addEvent t (sm_sched s)
     in s\<lparr>sm_sched := sc, sm_signals := sm_signals s + (if signal then 1 else 0)\<rparr>)"

inductive sched_step :: "'a sched_machine \<Rightarrow> 'a sched_machine \<Rightarrow> bool" where
  test_end: "sm_pc s = STest \<Longrightarrow> sc_threadState (sm_sched s) = STATE_TERMINATED \<Longrightarrow> sched_step s (s\<lparr>sm_pc := SFinished\<rparr>)"
| test_go: "sm_pc s = STest \<Longrightarrow> sc_threadState (sm_sched s) \<noteq> STATE_TERMINATED \<Longrightarrow> sched_step s (s\<lparr>sm_pc := SLock\<rparr>)"
| lock_empty: "sm_pc s = SLock \<Longrightarrow> sc_eventList (sm_sched s) = [] \<Longrightarrow> sched_step s (s\<lparr>sm_pc := SPlainWait\<rparr>)"
| lock_timed: "sm_pc s = SLock \<Longrightarrow> sc_eventList (sm_sched s) = t # ts \<Longrightarrow> sched_step s (s\<lparr>sm_pc := STimedWait (getCycle t)\<rparr>)"
| timeout: "sm_pc s = STimedWait d \<Longrightarrow> d \<le> sm_now s \<Longrightarrow> sched_step s (s\<lparr>sm_pc := STimedOut\<rparr>)"
| spurious: "sm_pc s = SPlainWait \<or> sm_pc s = STimedWait d \<Longrightarrow> sched_step s (s\<lparr>sm_pc := sched_wake (sm_pc s)\<rparr>)"
| after: "pc_action (sm_pc s) = Some action \<Longrightarrow> sc_take action (sm_sched s) = Some (r, sc) \<Longrightarrow> sched_step s (sm_after r sc s)"
| add: "tk_expiration t \<noteq> None \<Longrightarrow> sched_step s (sm_add t s)"
| notify: "sm_signals s = Suc k \<Longrightarrow> sched_step s (s\<lparr>sm_signals := k, sm_pc := sched_wake (sm_pc s)\<rparr>)"
| stop_event: "sched_step s (s\<lparr>sm_sched := snd (sc_stopEvent i (sm_sched s))\<rparr>)"
| stop: "sc_threadState (sm_sched s) \<noteq> STATE_TERMINATED \<Longrightarrow> sched_step s (s\<lparr>sm_sched := sc_stop (sm_sched s)\<rparr>)"
| shutdown: "sched_step s (s\<lparr>sm_sched := sc_shutdown (sm_sched s)\<rparr>)"
| tick: "sm_now s \<le> now \<Longrightarrow> sched_step s (s\<lparr>sm_now := now\<rparr>)"

inductive sched_reachable :: "'a sched_machine \<Rightarrow> bool" where
  init: "sched_reachable sched_init"
| step: "sched_reachable s \<Longrightarrow> sched_step s s' \<Longrightarrow> sched_reachable s'"

section \<open>Order of the events\<close>

lemma set_push_event: "set (push_event t us) = insert t (set us)"
  by (induction us) auto

lemma push_event_nonempty [simp]: "push_event t us \<noteq> []"
  by (cases us) auto

lemma sorted_push_event:
  "sorted (map getCycle us) \<Longrightarrow> sorted (map getCycle (push_event t us))"
  by (induction us) (auto simp: set_push_event)

lemma hd_push_event:
  "us \<noteq> [] \<Longrightarrow> getCycle (hd (push_event t us)) \<le> getCycle (hd us)"
  by (cases us) auto

text \<open>Sorted events, and a wait whose deadline or time-out belongs to the first event.\<close>

definition sched_inv :: "'a sched_machine \<Rightarrow> bool" where
  "sched_inv s \<longleftrightarrow>
     sorted (map getCycle (sc_eventList (sm_sched s))) \<and>
     (sc_threadState (sm_sched s) \<noteq> STATE_TERMINATED \<longrightarrow>
     (\<forall>d. sm_pc s = STimedWait d \<longrightarrow> sc_eventList (sm_sched s) \<noteq> [] \<and> getCycle (hd (sc_eventList (sm_sched s))) \<le> d) \<and>
     (sm_pc s = STimedOut \<longrightarrow> sc_eventList (sm_sched s) \<noteq> [] \<and> getCycle (hd (sc_eventList (sm_sched s))) \<le> sm_now s))"

lemma sc_addEvent_list:
  assumes "sc_addEvent t sc = (i, signal, sc')"
  shows "sc' = sc \<and> \<not> signal \<or>
     (\<exists>j. sc_eventList sc' = push_event (t\<lparr>tk_eventId := j\<rparr>) (sc_eventList sc) \<and> j \<in> sc_eventIds sc' \<and>
        i = j \<and> sc_threadState sc' = STATE_RUNNING \<and>
        (tk_eventId t = 0 \<longrightarrow> j \<noteq> 0))"
proof (cases "sc_threadState sc = STATE_RUNNING")
  case False
  then show ?thesis using assms by (simp add: sc_addEvent_def)
next
  case True
  have wrap: "(if sc_lastEvent sc \<ge> 0xFFFFFFFF then 0 else sc_lastEvent sc) + 1 \<noteq> (0 :: u32)"
  proof (cases "sc_lastEvent sc \<ge> 0xFFFFFFFF")
    case False
    then have "sc_lastEvent sc \<noteq> - 1" using word_n1_ge by metis
    with False show ?thesis by (simp add: eq_neg_iff_add_eq_0)
  qed simp
  show ?thesis
    using assms True wrap by (cases "tk_eventId t = 0") (auto simp: sc_addEvent_def Let_def)
qed

lemma getCycle_setId [simp]: "getCycle (t\<lparr>tk_eventId := j\<rparr>) = getCycle t"
  by (simp add: getCycle_def)

lemma sched_inv_add: "sched_inv s \<Longrightarrow> sched_inv (sm_add t s)"
proof -
  assume s: "sched_inv s"
  obtain i signal sc' where add: "sc_addEvent t (sm_sched s) = (i, signal, sc')" by (metis prod_cases3)
  from sc_addEvent_list [OF add] show ?thesis
  proof (elim disjE exE conjE)
    assume "sc' = sm_sched s" "\<not> signal"
    then show ?thesis using s add by (simp add: sm_add_def sched_inv_def)
  next
    fix j assume l: "sc_eventList sc' = push_event (t\<lparr>tk_eventId := j\<rparr>) (sc_eventList (sm_sched s))"
    have run: "sc_threadState (sm_sched s) = sc_threadState sc'"
      using add by (auto simp: sc_addEvent_def Let_def split: if_splits)
    note h = hd_push_event [of "sc_eventList (sm_sched s)" "t\<lparr>tk_eventId := j\<rparr>"]
    show ?thesis
      using s add l run h sorted_push_event [of "sc_eventList (sm_sched s)" "t\<lparr>tk_eventId := j\<rparr>"]
      by (fastforce simp: sm_add_def sched_inv_def)
  qed
qed

lemma sched_wake_plain [simp]: "sched_wake pc \<noteq> STimedWait d"
  "sched_wake pc = STimedOut \<longleftrightarrow> pc = STimedOut"
  by (cases pc; simp)+

lemma sched_inv_after: "sched_inv s \<Longrightarrow> sc_take action (sm_sched s) = Some (r, sc) \<Longrightarrow> sched_inv (sm_after r sc s)"
  by (auto simp: sched_inv_def sc_take_def sm_after_def Let_def split: if_splits list.splits)

lemma sched_inv_step: "sched_step s s' \<Longrightarrow> sched_inv s \<Longrightarrow> sched_inv s'"
proof (induction rule: sched_step.induct)
  case (after s action r sc)
  then show ?case by (simp add: sched_inv_after)
next
  case (add t s)
  then show ?case by (simp add: sched_inv_add)
qed (auto simp: sched_inv_def sc_stopEvent_def sc_stop_def sc_shutdown_def)

lemma sched_inv_reachable: "sched_reachable s \<Longrightarrow> sched_inv s"
proof (induction rule: sched_reachable.induct)
  case init
  show ?case by (simp add: sched_inv_def sched_init_def new_scheduler_def)
next
  case (step s s')
  from sched_inv_step [OF step.hyps(2) step.IH] show ?case .
qed

section \<open>Properties\<close>

text \<open>C21. An event that the thread takes after a timed wait is never early and the queue is never
  empty there: in every reachable state after a time-out of a scheduler that is not
  terminated, there is a first event, its due time has come, no other event is due before
  it, and it reaches the dispatcher exactly when it was not stopped.\<close>

theorem timed_events_on_time:
  assumes "sched_reachable s" and "sm_pc s = STimedOut" and "sc_threadState (sm_sched s) \<noteq> STATE_TERMINATED"
  shows "\<exists>t ts sc. sc_eventList (sm_sched s) = t # ts \<and> getCycle t \<le> sm_now s \<and> (\<forall>u \<in> set ts. getCycle t \<le> getCycle u) \<and>
     sc_take False (sm_sched s) = Some (Some (t, tk_eventId t \<in> sc_eventIds (sm_sched s)), sc) \<and> sc_eventList sc = ts"
proof -
  have inv: "sorted (map getCycle (sc_eventList (sm_sched s)))" "sc_eventList (sm_sched s) \<noteq> []"
    "getCycle (hd (sc_eventList (sm_sched s))) \<le> sm_now s"
    using sched_inv_reachable [OF assms(1)] assms(2,3) by (simp_all add: sched_inv_def)
  then obtain t ts where l: "sc_eventList (sm_sched s) = t # ts" by (cases "sc_eventList (sm_sched s)") auto
  show ?thesis using inv l assms(3) by (auto simp: sc_take_def Let_def)
qed

definition sched_demo :: "nat sched_machine" where
  "sched_demo = (let s = sm_add (createSchedulerTask 0 100 7) sched_init
     in s\<lparr>sm_pc := SLock\<rparr>\<lparr>sm_pc := STimedWait 100\<rparr>\<lparr>sm_now := 120\<rparr>\<lparr>sm_pc := STimedOut\<rparr>)"

lemma sched_demo_reachable: "sched_reachable sched_demo"
proof -
  let ?t = "createSchedulerTask 0 100 (7 :: nat)"
  let ?s0 = "sm_add ?t sched_init"
  have t: "tk_expiration ?t = Some 100"
    by (simp add: createSchedulerTask_def createTaskExpiring_def SCHEDULER_MINTICKS_def)
  have "sched_reachable ?s0" using sched_reachable.init sched_step.add [of ?t] t by (auto intro: sched_reachable.step)
  moreover have "sm_pc ?s0 = STest" "sc_threadState (sm_sched ?s0) = STATE_RUNNING"
    by (simp_all add: sm_add_def sched_init_def new_scheduler_def sc_addEvent_def Let_def createSchedulerTask_def createTaskExpiring_def)
  ultimately have s1: "sched_reachable (?s0\<lparr>sm_pc := SLock\<rparr>)"
    by (intro sched_reachable.step [OF _ sched_step.test_go]) simp_all
  obtain u where u: "sc_eventList (sm_sched ?s0) = [u]" "getCycle u = 100"
    by (simp add: sm_add_def sched_init_def new_scheduler_def sc_addEvent_def Let_def getCycle_def
        createSchedulerTask_def createTaskExpiring_def SCHEDULER_MINTICKS_def)
  have "sched_reachable (?s0\<lparr>sm_pc := SLock\<rparr>\<lparr>sm_pc := STimedWait 100\<rparr>)"
    using sched_reachable.step [OF s1 sched_step.lock_timed [of _ u "[]"]] u by simp
  from sched_reachable.step [OF this sched_step.tick [of _ 120]]
  have "sched_reachable (?s0\<lparr>sm_pc := SLock\<rparr>\<lparr>sm_pc := STimedWait 100\<rparr>\<lparr>sm_now := 120\<rparr>)"
    by (simp add: sm_add_def sched_init_def Let_def split: prod.split)
  from sched_reachable.step [OF this sched_step.timeout [of _ 100]]
  show ?thesis by (simp add: sched_demo_def Let_def)
qed

theorem timed_events_on_time_witness:
  "\<exists>t ts. sc_eventList (sm_sched sched_demo) = t # ts \<and> getCycle t \<le> 120"
proof -
  have "sm_pc sched_demo = STimedOut" "sm_now sched_demo = 120" by (simp_all add: sched_demo_def Let_def)
  moreover have "sc_threadState (sm_sched sched_demo) \<noteq> STATE_TERMINATED"
    by (simp add: sched_demo_def sm_add_def sched_init_def new_scheduler_def sc_addEvent_def Let_def
        createSchedulerTask_def createTaskExpiring_def)
  ultimately show ?thesis using timed_events_on_time [OF sched_demo_reachable] by auto
qed

text \<open>The limit of the delay: the plain wait leaves \<open>action\<close> false. An event added to an empty
  scheduler whose thread waits is handed to the dispatcher as soon as the notification
  arrives, at any time before it is due, whatever delay it was created with.\<close>

theorem first_event_not_delayed:
  assumes "sm_pc s = SPlainWait" and "sc_eventList (sm_sched s) = []" and "sc_threadState (sm_sched s) = STATE_RUNNING"
    and "tk_eventId t = 0" and "tk_expiration t = Some due"
  shows "\<exists>s'. sched_step\<^sup>*\<^sup>* s s' \<and> sm_now s' = sm_now s \<and>
     (\<exists>i. sm_sent s' = sm_sent s @ [(sm_now s, unsetExpiration (t\<lparr>tk_eventId := i\<rparr>))])"
proof -
  obtain i signal sc where add: "sc_addEvent t (sm_sched s) = (i, signal, sc)" by (metis prod_cases3)
  have sc: "signal" "sc_eventList sc = [t\<lparr>tk_eventId := i\<rparr>]" "i \<in> sc_eventIds sc" "sc_threadState sc = STATE_RUNNING"
    using add assms(2-4) by (auto simp: sc_addEvent_def Let_def)
  define s1 where "s1 = sm_add t s"
  have s1: "s1 = s\<lparr>sm_sched := sc, sm_signals := Suc (sm_signals s)\<rparr>"
    using add sc by (simp add: s1_def sm_add_def)
  define s2 where "s2 = s1\<lparr>sm_signals := sm_signals s, sm_pc := SPlainEnd\<rparr>"
  define sc' where "sc' = sc\<lparr>sc_eventList := [], sc_eventIds := sc_eventIds sc - {i}\<rparr>"
  define s3 where "s3 = sm_after (Some (t\<lparr>tk_eventId := i\<rparr>, True)) sc' s2"
  have "sched_step s s1" using sched_step.add [of t s] assms(5) by (simp add: s1_def)
  moreover have "sched_step s1 s2"
    using sched_step.notify [of s1 "sm_signals s"] assms(1) by (simp add: s1 s2_def)
  moreover have "sc_take False (sm_sched s2) = Some (Some (t\<lparr>tk_eventId := i\<rparr>, True), sc')"
    using sc by (simp add: s2_def s1 sc_take_def sc'_def Let_def)
  then have "sched_step s2 s3"
    using sched_step.after [of s2 False] by (simp add: s2_def s3_def)
  ultimately have "sched_step\<^sup>*\<^sup>* s s3" by (meson converse_rtranclp_into_rtranclp r_into_rtranclp)
  moreover have "sm_now s3 = sm_now s" by (simp add: s3_def sm_after_def s2_def s1)
  moreover have "sm_sent s3 = sm_sent s @ [(sm_now s, unsetExpiration (t\<lparr>tk_eventId := i\<rparr>))]"
    by (simp add: s3_def sm_after_def s2_def s1)
  ultimately show ?thesis by blast
qed

theorem first_event_not_delayed_witness:
  "\<exists>s'. sched_step\<^sup>*\<^sup>* ((sched_init :: nat sched_machine)\<lparr>sm_pc := SPlainWait\<rparr>) s' \<and> sm_now s' = 0 \<and> sm_sent s' \<noteq> []"
proof -
  have "tk_expiration (createSchedulerTask 0 60000 (7 :: nat)) = Some 60000" "tk_eventId (createSchedulerTask 0 60000 (7 :: nat)) = 0"
    by (simp_all add: createSchedulerTask_def createTaskExpiring_def SCHEDULER_MINTICKS_def)
  then show ?thesis
    using first_event_not_delayed [of "(sched_init :: nat sched_machine)\<lparr>sm_pc := SPlainWait\<rparr>" "createSchedulerTask 0 60000 7" 60000]
    by (fastforce simp: sched_init_def new_scheduler_def)
qed

end
