(* ===== verification/Network.thy ===== *)
theory Network
  imports Protocol Connection_Manager Scheduler
begin

text \<open>
  The network core: connections (\<open>net/connection.cpp\<close>), the pool of outgoing messages
  (\<open>net/outputmessage.cpp\<close>) and the part of \<open>Protocol\<close> that lives in objects
  (\<open>protocol/protocol.cpp\<close>).

  Objects live in a store: connections, protocols and messages have numbers as addresses.
  A protocol can be deleted, so its store is partial; an access to a deleted protocol, like an
  access outside a message buffer, makes an operation return \<open>None\<close>. Shared pointers keep
  connections and messages alive, so their stores are total. Callbacks that the code posts
  to the dispatcher, the scheduler or the I/O service are values of \<open>callback\<close>. Starting an
  asynchronous read or write appends to \<open>n_io\<close>; its completion is a later call of the
  handler. Starting one does not throw, and log output is left out.
\<close>

section \<open>State\<close>

datatype connection_state =
  CONNECTION_STATE_OPEN | CONNECTION_STATE_REQUEST_CLOSE | CONNECTION_STATE_CLOSING | CONNECTION_STATE_CLOSED

datatype asio_error = NoError | OperationAborted | Eof | ConnectionReset | ConnectionAborted | OtherError

text \<open>\<open>cn_ip\<close> is the address of the peer while the socket knows it.\<close>

record connection =
  cn_msg :: network_message
  cn_protocol :: "nat option"
  cn_socket :: bool
  cn_open :: bool
  cn_readTimer :: bool
  cn_writeTimer :: bool
  cn_receivedFirst :: bool
  cn_writeError :: bool
  cn_readError :: bool
  cn_pendingWrite :: int
  cn_pendingRead :: int
  cn_state :: connection_state
  cn_refCount :: u32
  cn_time :: int
  cn_packets :: u32
  cn_ip :: u32

definition new_connection :: "int \<Rightarrow> u32 \<Rightarrow> connection" where
  "new_connection now ip =
     \<lparr>cn_msg = new_network_message, cn_protocol = None, cn_socket = True, cn_open = True,
      cn_readTimer = False, cn_writeTimer = False, cn_receivedFirst = False, cn_writeError = False,
      cn_readError = False, cn_pendingWrite = 0, cn_pendingRead = 0, cn_state = CONNECTION_STATE_OPEN,
      cn_refCount = 0, cn_time = now, cn_packets = 0, cn_ip = ip\<rparr>"

datatype callback =
  CloseConnection nat | ReleaseConnection nat | OnStop nat | ReleaseProtocol nat
| InternalReleaseMessage nat | Delegate nat string string u32 u16 | OpenServices u16 "u32 list" | MotdReload

datatype io_request = ReadHeader nat | ReadBody nat nat | Write nat nat "u8 list"

record net =
  n_conns :: "nat \<Rightarrow> connection"
  n_protos :: "nat \<rightharpoonup> protocol"
  n_msgs :: "nat \<Rightarrow> output_message"
  n_nextMsg :: nat
  n_nextProto :: nat
  p_autoSend :: "nat list"
  p_addQueue :: "nat list"
  p_free :: "nat list"
  p_frameTime :: u64
  p_shutdown :: bool
  n_cm :: connection_manager
  n_disp :: "callback dispatcher"
  n_sched :: "callback scheduler"
  n_posted :: "callback list"
  n_io :: "io_request list"
  n_ms :: int

definition upd_conn :: "nat \<Rightarrow> (connection \<Rightarrow> connection) \<Rightarrow> net \<Rightarrow> net" where
  "upd_conn h f n = n\<lparr>n_conns := (n_conns n)(h := f (n_conns n h))\<rparr>"

definition upd_msg :: "nat \<Rightarrow> (output_message \<Rightarrow> output_message) \<Rightarrow> net \<Rightarrow> net" where
  "upd_msg m f n = n\<lparr>n_msgs := (n_msgs n)(m := f (n_msgs n m))\<rparr>"

definition upd_proto :: "nat \<Rightarrow> (protocol \<Rightarrow> protocol) \<Rightarrow> net \<Rightarrow> net option" where
  "upd_proto p f n = map_option (\<lambda>pr. n\<lparr>n_protos := (n_protos n)(p \<mapsto> f pr)\<rparr>) (n_protos n p)"

text \<open>Handing a callback to the dispatcher and to the scheduler.\<close>

definition add_task :: "callback \<Rightarrow> bool \<Rightarrow> net \<Rightarrow> net" where
  "add_task cb front n = n\<lparr>n_disp := snd (d_addTask (createTask cb) front (n_disp n))\<rparr>"

definition add_event :: "u32 \<Rightarrow> callback \<Rightarrow> net \<Rightarrow> net" where
  "add_event delay cb n = n\<lparr>n_sched := snd (snd (sc_addEvent (createSchedulerTask (n_ms n) delay cb) (n_sched n)))\<rparr>"

section \<open>Protocol objects\<close>

definition p_deleteProtocolTask :: "nat \<Rightarrow> net \<Rightarrow> net" where
  "p_deleteProtocolTask p n = n\<lparr>n_protos := (n_protos n)(p := None)\<rparr>"

definition p_releaseProtocol :: "nat \<Rightarrow> net \<Rightarrow> net option" where
  "p_releaseProtocol p n = do {
     pr \<leftarrow> n_protos n p;
     Some (if pr_refCount pr > 0 then add_event SCHEDULER_MINTICKS (ReleaseProtocol p) n
           else p_deleteProtocolTask p n)
   }"

definition p_onSendMessage :: "nat \<Rightarrow> nat \<Rightarrow> net \<Rightarrow> net option" where
  "p_onSendMessage p m n = do {
     pr \<leftarrow> n_protos n p;
     (pr, om) \<leftarrow> onSendMessage m pr (n_msgs n m);
     Some (n\<lparr>n_protos := (n_protos n)(p \<mapsto> pr), n_msgs := (n_msgs n)(m := om)\<rparr>)
   }"

section \<open>Closing a connection\<close>

definition conn_close :: "nat \<Rightarrow> net \<Rightarrow> net" where
  "conn_close h n =
     (if cn_state (n_conns n h) \<in> {CONNECTION_STATE_CLOSING, CONNECTION_STATE_CLOSED, CONNECTION_STATE_REQUEST_CLOSE}
      then n
      else add_task (CloseConnection h) False (upd_conn h (cn_state_update (\<lambda>_. CONNECTION_STATE_REQUEST_CLOSE)) n))"

text \<open>\<open>onStop\<close> deletes the socket; a later access to it is \<open>None\<close>.\<close>

definition conn_closeSocket :: "nat \<Rightarrow> net \<Rightarrow> net option" where
  "conn_closeSocket h n =
     (if \<not> cn_socket (n_conns n h) then None
      else if cn_open (n_conns n h)
      then Some (upd_conn h (\<lambda>c. c\<lparr>cn_pendingRead := 0, cn_pendingWrite := 0, cn_open := False\<rparr>) n)
      else Some n)"

definition conn_deleteConnection :: "nat \<Rightarrow> net \<Rightarrow> net" where
  "conn_deleteConnection h n = n\<lparr>n_posted := n_posted n @ [OnStop h]\<rparr>"

definition conn_releaseConnection :: "nat \<Rightarrow> net \<Rightarrow> net" where
  "conn_releaseConnection h n =
     (if cn_refCount (n_conns n h) > 0 then add_event SCHEDULER_MINTICKS (ReleaseConnection h) n
      else conn_deleteConnection h n)"

definition conn_closeConnection :: "nat \<Rightarrow> net \<Rightarrow> net option" where
  "conn_closeConnection h n =
     (if cn_state (n_conns n h) \<noteq> CONNECTION_STATE_REQUEST_CLOSE then Some n
      else do {
        n \<leftarrow> (case cn_protocol (n_conns n h) of
                None \<Rightarrow> Some n
              | Some p \<Rightarrow> do {
                  n \<leftarrow> upd_proto p (\<lambda>pr. pr\<lparr>pr_connection := None\<rparr>) n;
                  n \<leftarrow> p_releaseProtocol p n;
                  Some (upd_conn h (\<lambda>c. c\<lparr>cn_protocol := None\<rparr>) n)
                });
        let n = upd_conn h (cn_state_update (\<lambda>_. CONNECTION_STATE_CLOSING)) n;
        if cn_pendingWrite (n_conns n h) = 0 \<or> cn_writeError (n_conns n h)
        then do {
          n \<leftarrow> conn_closeSocket h n;
          Some (upd_conn h (cn_state_update (\<lambda>_. CONNECTION_STATE_CLOSED)) (conn_releaseConnection h n))
        }
        else Some n
      })"

definition conn_onStop :: "nat \<Rightarrow> net \<Rightarrow> net option" where
  "conn_onStop h n =
     (if \<not> cn_socket (n_conns n h) then None
      else let n = upd_conn h (\<lambda>c. c\<lparr>cn_readTimer := False, cn_writeTimer := False, cn_open := False, cn_socket := False\<rparr>) n
      in Some (n\<lparr>n_cm := cm_releaseConnection h (n_cm n)\<rparr>))"

section \<open>Errors and time-outs\<close>

definition conn_handleReadError :: "asio_error \<Rightarrow> nat \<Rightarrow> net \<Rightarrow> net" where
  "conn_handleReadError err h n =
     upd_conn h (\<lambda>c. c\<lparr>cn_readError := True\<rparr>) (if err = OperationAborted then n else conn_close h n)"

definition conn_handleWriteError :: "asio_error \<Rightarrow> nat \<Rightarrow> net \<Rightarrow> net" where
  "conn_handleWriteError err h n =
     upd_conn h (\<lambda>c. c\<lparr>cn_writeError := True\<rparr>) (if err = OperationAborted then n else conn_close h n)"

definition conn_onReadTimeout :: "nat \<Rightarrow> net \<Rightarrow> net option" where
  "conn_onReadTimeout h n =
     (if cn_pendingRead (n_conns n h) > 0 \<or> cn_readError (n_conns n h)
      then map_option (conn_close h) (conn_closeSocket h n) else Some n)"

definition conn_onWriteTimeout :: "nat \<Rightarrow> net \<Rightarrow> net option" where
  "conn_onWriteTimeout h n =
     (if cn_pendingWrite (n_conns n h) > 0 \<or> cn_writeError (n_conns n h)
      then map_option (conn_close h) (conn_closeSocket h n) else Some n)"

definition conn_handleReadTimeout :: "asio_error \<Rightarrow> nat \<Rightarrow> net \<Rightarrow> net option" where
  "conn_handleReadTimeout err h n = (if err = OperationAborted then Some n else conn_onReadTimeout h n)"

definition conn_handleWriteTimeout :: "asio_error \<Rightarrow> nat \<Rightarrow> net \<Rightarrow> net option" where
  "conn_handleWriteTimeout err h n = (if err = OperationAborted then Some n else conn_onWriteTimeout h n)"

section \<open>Reading\<close>

definition conn_accept :: "nat \<Rightarrow> net \<Rightarrow> net" where
  "conn_accept h n =
     (let n = upd_conn h (\<lambda>c. c\<lparr>cn_pendingRead := cn_pendingRead c + 1, cn_readTimer := True\<rparr>) n
      in n\<lparr>n_io := n_io n @ [ReadHeader h]\<rparr>)"

text \<open>The completion of the header read, with the bytes it brought into the buffer.\<close>

definition conn_parseHeader :: "asio_error \<Rightarrow> u8 list \<Rightarrow> nat \<Rightarrow> net \<Rightarrow> net option" where
  "conn_parseHeader err bytes h n = do {
     buf \<leftarrow> mem_write (m_buffer (cn_msg (n_conns n h))) 0 bytes;
     (size, msg) \<leftarrow> msg_decodeHeader ((cn_msg (n_conns n h))\<lparr>m_buffer := buf\<rparr>);
     let n = upd_conn h (\<lambda>c. c\<lparr>cn_readTimer := False, cn_msg := msg\<rparr>) n;
     let n = (if err \<noteq> NoError \<or> size \<le> 0 \<or> size \<ge> int NETWORK_MAX_SIZE - 16 then conn_handleReadError err h n else n);
     if cn_state (n_conns n h) \<noteq> CONNECTION_STATE_OPEN \<or> cn_readError (n_conns n h)
     then Some (conn_close h n)
     else do {
       let n = upd_conn h (\<lambda>c. c\<lparr>cn_readTimer := True,
                 cn_msg := msg_writeBuffer (msg_setSize (u16_of_int (size + int NETWORK_HEADER_SIZE)) (cn_msg c))\<rparr>) n;
       Some (n\<lparr>n_io := n_io n @ [ReadBody h (nat size)]\<rparr>)
     }
   }"

section \<open>Sending\<close>

definition pool_autoSend :: "nat \<Rightarrow> net \<Rightarrow> net" where
  "pool_autoSend m n = n\<lparr>p_addQueue := p_addQueue n @ [m]\<rparr>"

definition conn_internalSend :: "nat \<Rightarrow> nat \<Rightarrow> net \<Rightarrow> net option" where
  "conn_internalSend h m n = do {
     bytes \<leftarrow> om_wire (n_msgs n m);
     let n = upd_conn h (\<lambda>c. c\<lparr>cn_pendingWrite := cn_pendingWrite c + 1, cn_writeTimer := True\<rparr>) n;
     Some (n\<lparr>n_io := n_io n @ [Write h m bytes]\<rparr>)
   }"

definition conn_send :: "config \<Rightarrow> nat \<Rightarrow> nat \<Rightarrow> net \<Rightarrow> (bool \<times> net) option" where
  "conn_send cfg h m n =
     (if cn_state (n_conns n h) \<noteq> CONNECTION_STATE_OPEN \<or> cn_writeError (n_conns n h) then Some (False, n)
      else if cn_pendingWrite (n_conns n h) = 0 then do {
        n \<leftarrow> (case m_protocol (n_msgs n m) of None \<Rightarrow> Some n | Some p \<Rightarrow> p_onSendMessage p m n);
        n \<leftarrow> conn_internalSend h m n;
        Some (True, n)
      }
      else if cn_pendingWrite (n_conns n h) > 100 \<and> getBool FORCE_CLOSE_SLOW_CONNECTION cfg
        then Some (True, conn_close h n)
      else Some (True, pool_autoSend m n))"

text \<open>Dropping the last reference to a message gives it back through the dispatcher.\<close>

definition pool_releaseMessage :: "nat \<Rightarrow> net \<Rightarrow> net" where
  "pool_releaseMessage m n = add_task (InternalReleaseMessage m) True n"

text \<open>The completion of a write; its handler holds the last reference to the message.\<close>

definition conn_onWrite :: "asio_error \<Rightarrow> nat \<Rightarrow> nat \<Rightarrow> net \<Rightarrow> net option" where
  "conn_onWrite err h m n =
     (let n = upd_conn h (\<lambda>c. c\<lparr>cn_writeTimer := False\<rparr>) n;
          n = pool_releaseMessage m n;
          n = (if err \<noteq> NoError then conn_handleWriteError err h n else n)
      in if cn_state (n_conns n h) \<noteq> CONNECTION_STATE_OPEN \<or> cn_writeError (n_conns n h)
         then map_option (conn_close h) (conn_closeSocket h n)
         else Some (upd_conn h (\<lambda>c. c\<lparr>cn_pendingWrite := cn_pendingWrite c - 1\<rparr>) n))"

section \<open>The pool\<close>

definition OUTPUT_POOL_SIZE :: nat where "OUTPUT_POOL_SIZE = 100"

definition pool_startExecutionFrame :: "net \<Rightarrow> net" where
  "pool_startExecutionFrame n = n\<lparr>p_frameTime := word_of_int (n_ms n), p_shutdown := False\<rparr>"

definition pool_stop :: "net \<Rightarrow> net" where
  "pool_stop n = n\<lparr>p_shutdown := True\<rparr>"

definition pool_internalReleaseMessage :: "nat \<Rightarrow> net \<Rightarrow> net option" where
  "pool_internalReleaseMessage m n = do {
     let om = n_msgs n m;
     n \<leftarrow> (case m_protocol om of None \<Rightarrow> Some n | Some p \<Rightarrow> upd_proto p (\<lambda>pr. pr\<lparr>pr_refCount := pr_refCount pr - 1\<rparr>) n);
     let n = (case m_connection om of None \<Rightarrow> n | Some h \<Rightarrow> upd_conn h (\<lambda>c. c\<lparr>cn_refCount := cn_refCount c - 1\<rparr>) n);
     let n = upd_msg m om_freeMessage n;
     Some (n\<lparr>p_free := p_free n @ [m]\<rparr>)
   }"

definition pool_configureOutputMessage :: "nat \<Rightarrow> nat \<Rightarrow> bool \<Rightarrow> net \<Rightarrow> net option" where
  "pool_configureOutputMessage m p autoSend n = do {
     let n = upd_msg m (msg_reset (of_nat NETWORK_CRYPTOHEADER_SIZE)) n;
     let n = (if autoSend
              then (upd_msg m (m_state_update (\<lambda>_. STATE_ALLOCATED)) n)\<lparr>p_autoSend := p_autoSend n @ [m]\<rparr>
              else upd_msg m (m_state_update (\<lambda>_. STATE_ALLOCATED_NO_AUTOSEND)) n);
     pr \<leftarrow> n_protos n p;
     let n = upd_msg m (\<lambda>om. om\<lparr>m_protocol := Some p, m_frame := p_frameTime n\<rparr>) n;
     n \<leftarrow> upd_proto p (\<lambda>pr. pr\<lparr>pr_refCount := pr_refCount pr + 1\<rparr>) n;
     Some (case pr_connection pr of
             None \<Rightarrow> n
           | Some h \<Rightarrow> upd_conn h (\<lambda>c. c\<lparr>cn_refCount := cn_refCount c + 1\<rparr>) (upd_msg m (\<lambda>om. om\<lparr>m_connection := Some h\<rparr>) n))
   }"

text \<open>\<open>getOutputMessage\<close>: a message of the free list, its last element, or a new one.\<close>

definition pool_getOutputMessage :: "nat \<Rightarrow> bool \<Rightarrow> net \<Rightarrow> (nat option \<times> net) option" where
  "pool_getOutputMessage p autoSend n =
     (if p_shutdown n then Some (None, n)
      else do {
        pr \<leftarrow> n_protos n p;
        if pr_connection pr = None then Some (None, n)
        else do {
          let n = (if p_free n = []
                   then n\<lparr>n_msgs := (n_msgs n)(n_nextMsg n := new_output_message), n_nextMsg := n_nextMsg n + 1,
                          p_free := [n_nextMsg n]\<rparr>
                   else n);
          let m = last (p_free n);
          n \<leftarrow> pool_configureOutputMessage m p autoSend (n\<lparr>p_free := butlast (p_free n)\<rparr>);
          Some (Some m, n)
        }
      })"

text \<open>What the pool does with a message that a connection does not take.\<close>

definition pool_dropped :: "nat \<Rightarrow> net \<Rightarrow> net option" where
  "pool_dropped m n = (case m_protocol (n_msgs n m) of None \<Rightarrow> Some n | Some p \<Rightarrow> p_onSendMessage p m n)"

definition pool_deliver :: "config \<Rightarrow> nat \<Rightarrow> net \<Rightarrow> net option" where
  "pool_deliver cfg m n =
     (case m_connection (n_msgs n m) of
        None \<Rightarrow> Some n
      | Some h \<Rightarrow> do {
          (taken, n) \<leftarrow> conn_send cfg h m n;
          if taken then Some n else pool_dropped m n
        })"

definition pool_send :: "config \<Rightarrow> nat \<Rightarrow> net \<Rightarrow> net option" where
  "pool_send cfg m n =
     (if m_state (n_msgs n m) \<noteq> STATE_ALLOCATED_NO_AUTOSEND then Some n else pool_deliver cfg m n)"

text \<open>A reference to a message ends: unless a write, the queue or the protocol's output buffer still
  holds the message, it goes back to the pool.\<close>

definition end_of_scope :: "nat \<Rightarrow> net \<Rightarrow> net \<Rightarrow> net" where
  "end_of_scope m before n =
     (let buffered = (case m_protocol (n_msgs n m) of
                        None \<Rightarrow> False
                      | Some p \<Rightarrow> (case n_protos n p of None \<Rightarrow> False | Some pr \<Rightarrow> m_outputBuffer pr = Some m))
      in if n_io n \<noteq> n_io before \<or> m \<in> set (p_addQueue n) \<or> buffered then n else pool_releaseMessage m n)"

text \<open>\<open>sendAll\<close>: the loop over the queue of postponed messages, then the one over \<open>m_autoSend\<close>.\<close>

fun pool_requeue :: "u64 \<Rightarrow> u64 \<Rightarrow> nat list \<Rightarrow> net \<Rightarrow> net option" where
  "pool_requeue dropTime frameTime [] n = Some n"
| "pool_requeue dropTime frameTime (m # ms) n = do {
     let frame = m_frame (n_msgs n m);
     n \<leftarrow> (if frame \<ge> dropTime then
              (let n = upd_msg m (m_state_update (\<lambda>_. STATE_ALLOCATED)) n
               in if frameTime > frame then Some (n\<lparr>p_autoSend := m # p_autoSend n\<rparr>)
                  else Some (n\<lparr>p_autoSend := p_autoSend n @ [m]\<rparr>))
            else map_option (pool_releaseMessage m) (pool_dropped m n));
     pool_requeue dropTime frameTime ms n
   }"

fun pool_flush :: "config \<Rightarrow> u64 \<Rightarrow> nat list \<Rightarrow> net \<Rightarrow> net option" where
  "pool_flush cfg frameTime [] n = Some (n\<lparr>p_autoSend := []\<rparr>)"
| "pool_flush cfg frameTime (m # ms) n =
     (if frameTime \<le> m_frame (n_msgs n m) then Some (n\<lparr>p_autoSend := m # ms\<rparr>)
      else do {
        n' \<leftarrow> pool_deliver cfg m n;
        pool_flush cfg frameTime ms (end_of_scope m n n')
      })"

definition pool_sendAll :: "config \<Rightarrow> net \<Rightarrow> net option" where
  "pool_sendAll cfg n = do {
     let dropTime = p_frameTime n - 10000;
     let frameTime = p_frameTime n - 10;
     n \<leftarrow> pool_requeue dropTime frameTime (p_addQueue n) n;
     let n = n\<lparr>p_addQueue := []\<rparr>;
     pool_flush cfg frameTime (p_autoSend n) n
   }"

text \<open>The two queues of the pool, which are empty between the tasks of an idle server.\<close>

definition queues :: "net \<Rightarrow> nat list \<times> nat list" where
  "queues n = (p_autoSend n, p_addQueue n)"

lemma sendAll_idle: "queues n = ([], []) \<Longrightarrow> pool_sendAll cfg n = Some n"
  by (cases n) (simp add: queues_def pool_sendAll_def Let_def)

lemma queues_simps [simp]:
  "queues (n\<lparr>n_conns := x1\<rparr>) = queues n" "queues (n\<lparr>n_protos := x2\<rparr>) = queues n" "queues (n\<lparr>n_msgs := x3\<rparr>) = queues n"
  "queues (n\<lparr>n_io := x4\<rparr>) = queues n" "queues (n\<lparr>n_disp := x5\<rparr>) = queues n" "queues (n\<lparr>n_cm := x6\<rparr>) = queues n"
  "queues (n\<lparr>n_nextMsg := x7\<rparr>) = queues n" "queues (n\<lparr>p_free := x8\<rparr>) = queues n"
  "queues (upd_conn h f n) = queues n" "queues (upd_msg m g n) = queues n" "queues (add_task cb b n) = queues n"
  "queues (conn_close h n) = queues n" "queues (pool_startExecutionFrame n) = queues n"
  by (simp_all add: queues_def upd_conn_def upd_msg_def add_task_def conn_close_def pool_startExecutionFrame_def)

section \<open>Protocol access to its buffer\<close>

definition p_getOutputBuffer :: "nat \<Rightarrow> net \<Rightarrow> (nat option \<times> net) option" where
  "p_getOutputBuffer p n = do {
     pr \<leftarrow> n_protos n p;
     case m_outputBuffer pr of
       Some m \<Rightarrow> Some (Some m, n)
     | None \<Rightarrow>
         if pr_connection pr = None then Some (None, n)
         else do {
           (m, n) \<leftarrow> pool_getOutputMessage p True n;
           n \<leftarrow> upd_proto p (\<lambda>pr. pr\<lparr>m_outputBuffer := m\<rparr>) n;
           Some (m, n)
         }
   }"

definition p_writeOutputBuffer :: "nat \<Rightarrow> network_message \<Rightarrow> net \<Rightarrow> net option" where
  "p_writeOutputBuffer p msg n = do {
     pr \<leftarrow> n_protos n p;
     if m_outputBuffer pr = None \<and> pr_connection pr = None then Some n
     else do {
       (m, n) \<leftarrow>
         (case m_outputBuffer pr of
            Some m \<Rightarrow>
              if int NETWORK_MAX_SIZE < uint (m_position (n_msgs n m)) + uint (m_size msg)
              then pool_getOutputMessage p True n else Some (Some m, n)
          | None \<Rightarrow> pool_getOutputMessage p True n);
       n \<leftarrow> upd_proto p (\<lambda>pr. pr\<lparr>m_outputBuffer := m\<rparr>) n;
       case m of
         None \<Rightarrow> Some n
       | Some m \<Rightarrow> do {
           bytes \<leftarrow> mem_read (m_buffer msg) NETWORK_CRYPTOHEADER_SIZE (unat (m_size msg));
           om \<leftarrow> msg_putString (string_of_bytes bytes) False (n_msgs n m);
           Some (upd_msg m (\<lambda>_. om) n)
         }
     }
   }"

section \<open>The life of a connection\<close>

text \<open>What can happen to the connection \<open>h\<close>: the calls of other components and the completions of
  its asynchronous operations.\<close>

datatype conn_event =
  EvClose | EvCloseConnection | EvReleaseConnection | EvOnStop | EvAccept | EvSend nat
| EvHeader asio_error "u8 list" | EvWritten asio_error nat | EvReadTimeout asio_error | EvWriteTimeout asio_error

fun conn_step :: "config \<Rightarrow> nat \<Rightarrow> conn_event \<Rightarrow> net \<Rightarrow> net option" where
  "conn_step cfg h EvClose n = Some (conn_close h n)"
| "conn_step cfg h EvCloseConnection n = conn_closeConnection h n"
| "conn_step cfg h EvReleaseConnection n = Some (conn_releaseConnection h n)"
| "conn_step cfg h EvOnStop n = conn_onStop h n"
| "conn_step cfg h EvAccept n = Some (conn_accept h n)"
| "conn_step cfg h (EvSend m) n = map_option snd (conn_send cfg h m n)"
| "conn_step cfg h (EvHeader err bytes) n = conn_parseHeader err bytes h n"
| "conn_step cfg h (EvWritten err m) n = conn_onWrite err h m n"
| "conn_step cfg h (EvReadTimeout err) n = conn_handleReadTimeout err h n"
| "conn_step cfg h (EvWriteTimeout err) n = conn_handleWriteTimeout err h n"

fun state_rank :: "connection_state \<Rightarrow> nat" where
  "state_rank CONNECTION_STATE_OPEN = 0"
| "state_rank CONNECTION_STATE_REQUEST_CLOSE = 1"
| "state_rank CONNECTION_STATE_CLOSING = 2"
| "state_rank CONNECTION_STATE_CLOSED = 3"

text \<open>The order in which the source lists the states.\<close>

lemma state_rank_inj: "state_rank a = state_rank b \<Longrightarrow> a = b"
  by (cases a; cases b) simp_all

instantiation connection_state :: linorder
begin

definition less_eq_connection_state :: "connection_state \<Rightarrow> connection_state \<Rightarrow> bool" where
  "less_eq_connection_state a b \<longleftrightarrow> state_rank a \<le> state_rank b"

definition less_connection_state :: "connection_state \<Rightarrow> connection_state \<Rightarrow> bool" where
  "less_connection_state a b \<longleftrightarrow> state_rank a < state_rank b"

instance
  by standard (auto simp: less_eq_connection_state_def less_connection_state_def intro: state_rank_inj)

end

lemma open_least [simp]: "CONNECTION_STATE_OPEN \<le> st"
  by (simp add: less_eq_connection_state_def)

lemma state_order [simp]:
  "CONNECTION_STATE_REQUEST_CLOSE \<le> CONNECTION_STATE_CLOSING" "CONNECTION_STATE_REQUEST_CLOSE \<le> CONNECTION_STATE_CLOSED"
  "CONNECTION_STATE_CLOSING \<le> CONNECTION_STATE_CLOSED"
  by (simp_all add: less_eq_connection_state_def)

named_theorems net_simps "fields of the network state after an operation"

lemma upd_conn_sel [net_simps]:
  "n_conns (upd_conn h f n) h' = (if h' = h then f (n_conns n h) else n_conns n h')"
  "n_protos (upd_conn h f n) = n_protos n" "n_msgs (upd_conn h f n) = n_msgs n"
  "n_posted (upd_conn h f n) = n_posted n" "n_io (upd_conn h f n) = n_io n" "n_cm (upd_conn h f n) = n_cm n"
  "n_sched (upd_conn h f n) = n_sched n"
  by (simp_all add: upd_conn_def)

lemma upd_msg_sel [net_simps]:
  "n_msgs (upd_msg m f n) m' = (if m' = m then f (n_msgs n m) else n_msgs n m')"
  "n_conns (upd_msg m f n) = n_conns n" "n_protos (upd_msg m f n) = n_protos n" "n_io (upd_msg m f n) = n_io n"
  by (simp_all add: upd_msg_def)

lemma add_sel [net_simps]:
  "n_conns (add_task cb b n) = n_conns n" "n_protos (add_task cb b n) = n_protos n" "n_msgs (add_task cb b n) = n_msgs n"
  "n_posted (add_task cb b n) = n_posted n" "n_io (add_task cb b n) = n_io n" "n_cm (add_task cb b n) = n_cm n"
  "n_sched (add_task cb b n) = n_sched n"
  "n_conns (add_event d cb n) = n_conns n" "n_protos (add_event d cb n) = n_protos n" "n_msgs (add_event d cb n) = n_msgs n"
  "n_posted (add_event d cb n) = n_posted n" "n_io (add_event d cb n) = n_io n" "n_cm (add_event d cb n) = n_cm n"
  by (simp_all add: add_task_def add_event_def)

lemma conn_close_sel [net_simps]:
  "n_protos (conn_close h n) = n_protos n" "n_msgs (conn_close h n) = n_msgs n" "n_posted (conn_close h n) = n_posted n"
  "n_io (conn_close h n) = n_io n" "n_cm (conn_close h n) = n_cm n" "n_sched (conn_close h n) = n_sched n"
  by (simp_all add: conn_close_def net_simps)

lemma conn_close_conns [net_simps]:
  "n_conns (conn_close h n) h' = (if h' = h \<and> cn_state (n_conns n h) = CONNECTION_STATE_OPEN
     then (n_conns n h)\<lparr>cn_state := CONNECTION_STATE_REQUEST_CLOSE\<rparr> else n_conns n h')"
  by (cases "cn_state (n_conns n h)") (simp_all add: conn_close_def net_simps)

lemma upd_proto_sel [net_simps]:
  "upd_proto p f n = Some n' \<Longrightarrow> n_conns n' = n_conns n \<and> n_msgs n' = n_msgs n \<and> n_posted n' = n_posted n \<and> n_io n' = n_io n \<and> n_cm n' = n_cm n \<and> n_sched n' = n_sched n"
  by (auto simp: upd_proto_def)

lemma p_releaseProtocol_sel [net_simps]:
  "p_releaseProtocol p n = Some n' \<Longrightarrow> n_conns n' = n_conns n \<and> n_msgs n' = n_msgs n \<and> n_posted n' = n_posted n \<and> n_io n' = n_io n \<and> n_cm n' = n_cm n"
  by (auto simp: p_releaseProtocol_def p_deleteProtocolTask_def net_simps split: if_splits bind_splits)

lemma p_onSendMessage_sel [net_simps]:
  "p_onSendMessage p m n = Some n' \<Longrightarrow> n_conns n' = n_conns n \<and> n_posted n' = n_posted n \<and> n_io n' = n_io n \<and> n_cm n' = n_cm n \<and> n_sched n' = n_sched n"
  by (auto simp: p_onSendMessage_def split: bind_splits)

end
