(* ===== verification/Connection.thy ===== *)
theory Connection
  imports Network
begin

text \<open>
  Properties of the connection as a state machine, over the operations of \<open>Network\<close>: the order
  of its states, memory safety and bounds of the header, what goes onto the wire, and what
  becomes of a connection that is closed while a write is pending.
\<close>

fun conn_run :: "config \<Rightarrow> nat \<Rightarrow> conn_event list \<Rightarrow> net \<Rightarrow> net option" where
  "conn_run cfg h [] n = Some n"
| "conn_run cfg h (e # es) n = Option.bind (conn_step cfg h e n) (conn_run cfg h es)"

section \<open>Effects of the operations on the connection\<close>

lemma closeSocket_conns [net_simps]:
  assumes "conn_closeSocket h n = Some n'"
  shows "cn_state (n_conns n' h') = cn_state (n_conns n h')" "cn_refCount (n_conns n' h') = cn_refCount (n_conns n h')"
    "h' \<noteq> h \<Longrightarrow> n_conns n' h' = n_conns n h'"
    "n_posted n' = n_posted n" "n_sched n' = n_sched n" "n_io n' = n_io n" "n_cm n' = n_cm n" "n_protos n' = n_protos n"
  using assms by (auto simp: conn_closeSocket_def net_simps split: if_splits)

lemma releaseConnection_conns [net_simps]:
  "n_conns (conn_releaseConnection h n) = n_conns n" "n_io (conn_releaseConnection h n) = n_io n"
  "n_cm (conn_releaseConnection h n) = n_cm n"
  by (simp_all add: conn_releaseConnection_def conn_deleteConnection_def net_simps)

lemma handleError_conns [net_simps]:
  "cn_state (n_conns (conn_handleReadError err h n) h') = cn_state (n_conns (if err = OperationAborted then n else conn_close h n) h')"
  "cn_state (n_conns (conn_handleWriteError err h n) h') = cn_state (n_conns (if err = OperationAborted then n else conn_close h n) h')"
  "n_posted (conn_handleReadError err h n) = n_posted n" "n_posted (conn_handleWriteError err h n) = n_posted n"
  "n_sched (conn_handleReadError err h n) = n_sched n" "n_sched (conn_handleWriteError err h n) = n_sched n"
  "n_io (conn_handleReadError err h n) = n_io n" "n_io (conn_handleWriteError err h n) = n_io n"
  "n_cm (conn_handleReadError err h n) = n_cm n" "n_cm (conn_handleWriteError err h n) = n_cm n"
  by (simp_all add: conn_handleReadError_def conn_handleWriteError_def net_simps)

lemma pool_sel [net_simps]:
  "n_conns (pool_releaseMessage m n) = n_conns n" "n_posted (pool_releaseMessage m n) = n_posted n"
  "n_sched (pool_releaseMessage m n) = n_sched n" "n_io (pool_releaseMessage m n) = n_io n" "n_cm (pool_releaseMessage m n) = n_cm n"
  "n_conns (pool_autoSend m n) = n_conns n" "n_posted (pool_autoSend m n) = n_posted n"
  "n_sched (pool_autoSend m n) = n_sched n" "n_io (pool_autoSend m n) = n_io n" "n_cm (pool_autoSend m n) = n_cm n"
  by (simp_all add: pool_releaseMessage_def pool_autoSend_def net_simps)

lemma internalSend_sel [net_simps]:
  assumes "conn_internalSend h m n = Some n'"
  shows "cn_state (n_conns n' h') = cn_state (n_conns n h')" "n_posted n' = n_posted n" "n_cm n' = n_cm n" "n_sched n' = n_sched n"
  using assms by (auto simp: conn_internalSend_def net_simps Let_def split: bind_splits)

lemma conn_send_state:
  assumes "conn_send cfg h m n = Some (b, n')"
  shows "cn_state (n_conns n h) \<le> cn_state (n_conns n' h)"
proof -
  have "cn_state (n_conns n' h) = cn_state (n_conns n h) \<or> cn_state (n_conns n h) = CONNECTION_STATE_OPEN"
    using assms by (auto simp: conn_send_def split: if_splits)
  then show ?thesis by auto
qed

lemma closeConnection_state:
  assumes "conn_closeConnection h n = Some n'"
  shows "cn_state (n_conns n h) \<le> cn_state (n_conns n' h)"
  using assms
  by (auto simp: conn_closeConnection_def net_simps Let_def split: if_splits bind_splits option.splits
      dest: closeSocket_conns)

lemma conn_close_rank: "cn_state (n_conns n h) \<le> cn_state (n_conns (conn_close h n) h)"
  by (simp add: net_simps)

lemma parseHeader_state:
  assumes "conn_parseHeader err bytes h n = Some n'"
  shows "cn_state (n_conns n h) \<le> cn_state (n_conns n' h)"
  using assms by (auto simp: conn_parseHeader_def net_simps Let_def split: if_splits bind_splits)

lemma timeout_state:
  assumes "conn_handleReadTimeout err h n = Some n' \<or> conn_handleWriteTimeout err h n = Some n'"
  shows "cn_state (n_conns n h) \<le> cn_state (n_conns n' h)"
  using assms by (auto simp: conn_handleReadTimeout_def conn_handleWriteTimeout_def conn_onReadTimeout_def
      conn_onWriteTimeout_def net_simps split: if_splits dest: closeSocket_conns(1) [of _ _ _ h])

lemma onWrite_state:
  assumes "conn_onWrite err h m n = Some n'"
  shows "cn_state (n_conns n h) \<le> cn_state (n_conns n' h)"
  using assms by (auto simp: conn_onWrite_def Let_def net_simps split: if_splits dest: closeSocket_conns(1) [of _ _ _ h])

lemma conn_step_state:
  "conn_step cfg h e n = Some n' \<Longrightarrow> cn_state (n_conns n h) \<le> cn_state (n_conns n' h)"
  by (cases e) (auto simp: net_simps conn_accept_def conn_onStop_def Let_def split: if_splits
      dest: conn_send_state closeConnection_state parseHeader_state timeout_state [OF disjI1]
        timeout_state [OF disjI2] onWrite_state)


definition demo_net :: net where
  "demo_net = \<lparr>n_conns = (\<lambda>_. new_connection 0 1), n_protos = Map.empty, n_msgs = (\<lambda>_. new_output_message),
     n_nextMsg = 0, n_nextProto = 0, p_autoSend = [], p_addQueue = [], p_free = [], p_frameTime = 0, p_shutdown = False,
     n_cm = cm_createConnection 4 new_connection_manager, n_disp = new_dispatcher, n_sched = new_scheduler,
     n_posted = [], n_io = [], n_ms = 0\<rparr>"


section \<open>Closing with a pending write\<close>

text \<open>The events that can happen while no release of the connection is posted or scheduled.\<close>

definition not_release :: "conn_event \<Rightarrow> bool" where
  "not_release e \<longleftrightarrow> e \<noteq> EvReleaseConnection \<and> e \<noteq> EvOnStop"

definition closing_like :: "nat \<Rightarrow> net \<Rightarrow> net \<Rightarrow> bool" where
  "closing_like h n n' \<longleftrightarrow> cn_state (n_conns n' h) = CONNECTION_STATE_CLOSING \<and>
     n_posted n' = n_posted n \<and> n_sched n' = n_sched n \<and> n_cm n' = n_cm n"

lemma conn_close_closing [simp]:
  "cn_state (n_conns n h) = CONNECTION_STATE_CLOSING \<Longrightarrow> conn_close h n = n"
  by (simp add: conn_close_def)

lemma closing_step:
  assumes "cn_state (n_conns n h) = CONNECTION_STATE_CLOSING" and "not_release e" and "conn_step cfg h e n = Some n'"
  shows "closing_like h n n'"
proof (cases e)
  case (EvHeader err bytes)
  then show ?thesis
    using assms by (auto simp: closing_like_def conn_parseHeader_def net_simps Let_def split: if_splits bind_splits)
next
  case (EvWritten err m)
  then show ?thesis
    using assms by (auto simp: closing_like_def conn_onWrite_def net_simps Let_def split: if_splits)
next
  case (EvReadTimeout err)
  then show ?thesis
    using assms by (auto simp: closing_like_def conn_handleReadTimeout_def conn_onReadTimeout_def net_simps split: if_splits)
next
  case (EvWriteTimeout err)
  then show ?thesis
    using assms by (auto simp: closing_like_def conn_handleWriteTimeout_def conn_onWriteTimeout_def net_simps split: if_splits)
qed (use assms in \<open>auto simp: closing_like_def not_release_def conn_closeConnection_def conn_accept_def
    conn_send_def net_simps Let_def\<close>)

lemma closing_run:
  assumes "cn_state (n_conns n h) = CONNECTION_STATE_CLOSING" and "\<forall>e \<in> set es. not_release e"
    and "conn_run cfg h es n = Some n'"
  shows "closing_like h n n'"
  using assms
proof (induction es arbitrary: n)
  case Nil
  then show ?case by (simp add: closing_like_def)
next
  case (Cons e es)
  then obtain n1 where n1: "conn_step cfg h e n = Some n1" "conn_run cfg h es n1 = Some n'"
    by (auto split: bind_splits)
  have "closing_like h n n1" using closing_step [OF _ _ n1(1)] Cons.prems by simp
  then show ?case using Cons.IH [OF _ _ n1(2)] Cons.prems by (simp add: closing_like_def)
qed



section \<open>The header of a packet\<close>

lemma decodeHeader_value:
  assumes "length (m_buffer m) = 16384"
  shows "\<exists>size. msg_decodeHeader m = Some (size, m\<lparr>m_size := u16_of_int size\<rparr>) \<and> 0 \<le> size"
proof -
  have "length (take 2 (m_buffer m)) = 2" using assms by simp
  then show ?thesis using assms by (simp add: msg_decodeHeader_def mem_read_def Let_def)
qed

lemma conn_send_frame:
  assumes "n_protos n p = Some pr" and "m_protocol (n_msgs n m) = Some p" and "om_open body (n_msgs n m)"
    and "unat (m_position (n_msgs n m)) + 7 < NETWORK_BODY_SIZE" and "\<not> m_rawMessages pr"
    and "cn_pendingWrite (n_conns n h) = 0"
    and "cn_state (n_conns n h) = CONNECTION_STATE_OPEN" and "\<not> cn_writeError (n_conns n h)"
  obtains n' pr' where "conn_send cfg h m n = Some (True, n')" "n_io n' = n_io n @ [Write h m (wire_frame pr body)]"
    "n_conns n' = (n_conns n)(h := (n_conns n h)\<lparr>cn_pendingWrite := 1, cn_writeTimer := True\<rparr>)"
    "n_protos n' p = Some pr'" "pr_connection pr' = pr_connection pr" "n_cm n' = n_cm n" "n_disp n' = n_disp n"
    "queues n' = queues n"
proof -
  have held: "om_holds 8 body (n_msgs n m)" "unat (m_position (n_msgs n m)) = 8 + length body"
    using assms(3) by (simp_all add: om_open_def)
  obtain om' where om': "onSendMessage m pr (n_msgs n m) = Some (if m_outputBuffer pr = Some m then pr\<lparr>m_outputBuffer := None\<rparr> else pr, om')"
    "om_wire om' = Some (wire_frame pr body)"
    using onSendMessage_holds [OF held assms(4,5), of m] om_wire_holds by blast
  define pr' where "pr' = (if m_outputBuffer pr = Some m then pr\<lparr>m_outputBuffer := None\<rparr> else pr)"
  define n1 where "n1 = n\<lparr>n_protos := (n_protos n)(p \<mapsto> pr'), n_msgs := (n_msgs n)(m := om')\<rparr>"
  have p: "p_onSendMessage p m n = Some n1"
    using assms(1) om'(1) by (simp add: p_onSendMessage_def n1_def pr'_def [symmetric])
  have w: "om_wire (n_msgs n1 m) = Some (wire_frame pr body)" using om'(2) by (simp add: n1_def)
  define n2 where "n2 = upd_conn h (\<lambda>c. c\<lparr>cn_pendingWrite := cn_pendingWrite c + 1, cn_writeTimer := True\<rparr>) n1"
  have sent: "conn_send cfg h m n = Some (True, n2\<lparr>n_io := n_io n2 @ [Write h m (wire_frame pr body)]\<rparr>)"
    using assms p w by (simp add: conn_send_def conn_internalSend_def n2_def Let_def)
  show ?thesis
    by (rule that [OF sent, of pr']) (use assms(6) in \<open>simp_all add: n2_def n1_def upd_conn_def pr'_def\<close>)
qed

lemma parseHeader_cases:
  assumes "length (m_buffer (cn_msg (n_conns n h))) = NETWORK_MAX_SIZE" and "length bytes = 2"
  shows "\<exists>n'. conn_parseHeader err bytes h n = Some n' \<and>
     (n_io n' = n_io n \<and> cn_state (n_conns n' h) \<noteq> CONNECTION_STATE_OPEN \<or>
      (\<exists>k msg. n' = (upd_conn h (\<lambda>c. c\<lparr>cn_readTimer := True, cn_msg := msg\<rparr>) n)\<lparr>n_io := n_io n @ [ReadBody h k]\<rparr> \<and>
           0 < k \<and> NETWORK_HEADER_SIZE + k < NETWORK_MAX_SIZE \<and> unat (m_size msg) = NETWORK_HEADER_SIZE + k \<and>
           m_position msg = 2 \<and> length (m_buffer msg) = NETWORK_MAX_SIZE \<and> err = NoError))"
proof -
  define msg0 where "msg0 = (cn_msg (n_conns n h))\<lparr>m_buffer := bytes @ drop 2 (m_buffer (cn_msg (n_conns n h)))\<rparr>"
  have w: "mem_write (m_buffer (cn_msg (n_conns n h))) 0 bytes = Some (bytes @ drop 2 (m_buffer (cn_msg (n_conns n h))))"
    using assms by (simp add: mem_write_def layout numeral_2_eq_2)
  have "length (m_buffer msg0) = 16384" using assms by (simp add: msg0_def layout)
  then obtain size where size: "msg_decodeHeader msg0 = Some (size, msg0\<lparr>m_size := u16_of_int size\<rparr>)" "0 \<le> size"
    using decodeHeader_value by blast
  define n1 where "n1 = upd_conn h (\<lambda>c. c\<lparr>cn_readTimer := False, cn_msg := msg0\<lparr>m_size := u16_of_int size\<rparr>\<rparr>) n"
  define bad where "bad = (err \<noteq> NoError \<or> size \<le> 0 \<or> size \<ge> int NETWORK_MAX_SIZE - 16)"
  define n2 where "n2 = (if bad then conn_handleReadError err h n1 else n1)"
  define n3 where "n3 = upd_conn h (\<lambda>c. c\<lparr>cn_readTimer := True,
        cn_msg := msg_writeBuffer (msg_setSize (u16_of_int (size + int NETWORK_HEADER_SIZE)) (cn_msg c))\<rparr>) n2"
  have run: "conn_parseHeader err bytes h n =
      (if cn_state (n_conns n2 h) \<noteq> CONNECTION_STATE_OPEN \<or> cn_readError (n_conns n2 h) then Some (conn_close h n2)
       else Some (n3\<lparr>n_io := n_io n3 @ [ReadBody h (nat size)]\<rparr>))"
    using size unfolding conn_parseHeader_def w n3_def n2_def n1_def bad_def by (simp add: msg0_def [symmetric] Let_def)
  have io2: "n_io n2 = n_io n" by (simp add: n2_def n1_def net_simps)
  show ?thesis
  proof (cases "cn_state (n_conns n2 h) \<noteq> CONNECTION_STATE_OPEN \<or> cn_readError (n_conns n2 h)")
    case True
    then have "conn_parseHeader err bytes h n = Some (conn_close h n2)" using run by simp
    moreover have "cn_state (n_conns (conn_close h n2) h) \<noteq> CONNECTION_STATE_OPEN" by (simp add: net_simps)
    ultimately show ?thesis using io2 by (simp add: net_simps)
  next
    case False
    have "\<not> bad" using False by (auto simp: n2_def conn_handleReadError_def net_simps)
    then have range: "err = NoError" "0 < size" "size < 16368" and n2: "n2 = n1" by (auto simp: bad_def n2_def layout)
    have run: "conn_parseHeader err bytes h n = Some (n3\<lparr>n_io := n_io n3 @ [ReadBody h (nat size)]\<rparr>)"
      using run False by simp
    define msg where "msg = msg_writeBuffer (msg_setSize (u16_of_int (size + int NETWORK_HEADER_SIZE)) (msg0\<lparr>m_size := u16_of_int size\<rparr>))"
    have n3: "n3\<lparr>n_io := n_io n3 @ [ReadBody h (nat size)]\<rparr> =
        (upd_conn h (\<lambda>c. c\<lparr>cn_readTimer := True, cn_msg := msg\<rparr>) n)\<lparr>n_io := n_io n @ [ReadBody h (nat size)]\<rparr>"
      by (simp add: n3_def n2 n1_def upd_conn_def msg_def)
    have "unat (u16_of_int (size + 2)) = nat (size + 2)" using range by (intro unat_u16_of_int) simp_all
    then have "unat (m_size msg) = 2 + nat size" "m_position msg = 2" "length (m_buffer msg) = NETWORK_MAX_SIZE"
      using range assms by (simp_all add: msg_def msg0_def msg_writeBuffer_def msg_setSize_def layout)
    then show ?thesis using run range unfolding n3 by (intro exI conjI disjI2) (auto simp: layout)
  qed
qed

text \<open>C16. Reading a header is memory safe and bounded: with the two bytes in the buffer,
  \<open>parseHeader\<close> either closes the connection, or asks for a body of at least one byte that ends
  before the end of the buffer, with the size of the message set to the end of the body and
  the position to its beginning.\<close>

theorem parseHeader_bounds:
  assumes "length (m_buffer (cn_msg (n_conns n h))) = NETWORK_MAX_SIZE" and "length bytes = 2"
  shows "\<exists>n'. conn_parseHeader err bytes h n = Some n' \<and>
     (n_io n' = n_io n \<and> cn_state (n_conns n' h) \<noteq> CONNECTION_STATE_OPEN \<or>
      (\<exists>k. n_io n' = n_io n @ [ReadBody h k] \<and> 0 < k \<and> NETWORK_HEADER_SIZE + k < NETWORK_MAX_SIZE \<and>
           unat (m_size (cn_msg (n_conns n' h))) = NETWORK_HEADER_SIZE + k \<and>
           unat (m_position (cn_msg (n_conns n' h))) = NETWORK_HEADER_SIZE \<and> err = NoError))"
proof -
  from parseHeader_cases [OF assms, of err] obtain n' where n': "conn_parseHeader err bytes h n = Some n'"
    and "n_io n' = n_io n \<and> cn_state (n_conns n' h) \<noteq> CONNECTION_STATE_OPEN \<or>
      (\<exists>k msg. n' = (upd_conn h (\<lambda>c. c\<lparr>cn_readTimer := True, cn_msg := msg\<rparr>) n)\<lparr>n_io := n_io n @ [ReadBody h k]\<rparr> \<and>
           0 < k \<and> NETWORK_HEADER_SIZE + k < NETWORK_MAX_SIZE \<and> unat (m_size msg) = NETWORK_HEADER_SIZE + k \<and>
           m_position msg = 2 \<and> length (m_buffer msg) = NETWORK_MAX_SIZE \<and> err = NoError)" by blast
  then show ?thesis by (auto simp: upd_conn_def layout)
qed

theorem parseHeader_bounds_witness:
  "\<exists>n'. conn_parseHeader NoError [5, 0] 4 demo_net = Some n'"
  using parseHeader_bounds [of demo_net 4 "[5, 0]" NoError]
  by (auto simp: demo_net_def new_connection_def new_network_message_def)

section \<open>What goes onto the wire\<close>

text \<open>Sending on an open, idle connection puts exactly one write request out, with the frame of
  the message body as its bytes; on a connection that is not open, nothing is written and
  the caller is told so.\<close>

theorem conn_send_writes_frame:
  assumes "n_protos n p = Some pr" and "m_protocol (n_msgs n m) = Some p" and "om_open body (n_msgs n m)"
    and "unat (m_position (n_msgs n m)) + 7 < NETWORK_BODY_SIZE" and "\<not> m_rawMessages pr"
    and "cn_pendingWrite (n_conns n h) = 0"
  shows "\<exists>n' b. conn_send cfg h m n = Some (b, n') \<and>
     (if cn_state (n_conns n h) = CONNECTION_STATE_OPEN \<and> \<not> cn_writeError (n_conns n h)
      then b \<and> n_io n' = n_io n @ [Write h m (wire_frame pr body)] \<and> cn_pendingWrite (n_conns n' h) = 1
      else \<not> b \<and> n' = n)"
proof (cases "cn_state (n_conns n h) = CONNECTION_STATE_OPEN \<and> \<not> cn_writeError (n_conns n h)")
  case False
  then show ?thesis by (auto simp: conn_send_def)
next
  case True
  then obtain n' where "conn_send cfg h m n = Some (True, n')" "n_io n' = n_io n @ [Write h m (wire_frame pr body)]"
    "n_conns n' = (n_conns n)(h := (n_conns n h)\<lparr>cn_pendingWrite := 1, cn_writeTimer := True\<rparr>)"
    using conn_send_frame [OF assms] by blast
  then show ?thesis using True by auto
qed

theorem conn_send_writes_frame_witness:
  "\<exists>n' b. conn_send (new_config (\<lambda>_. False) (\<lambda>_. 0)) 4 0
     (demo_net\<lparr>n_protos := [2 \<mapsto> new_protocol (Some 4)], n_msgs := (\<lambda>_. new_output_message\<lparr>m_protocol := Some 2\<rparr>)\<rparr>) = Some (b, n') \<and> b"
proof -
  let ?n = "demo_net\<lparr>n_protos := [2 \<mapsto> new_protocol (Some 4)], n_msgs := (\<lambda>_. new_output_message\<lparr>m_protocol := Some 2\<rparr>)\<rparr>"
  have "om_open [] (n_msgs ?n 0)" using om_open_new by (simp add: om_open_def om_holds_def)
  moreover have "unat (m_position (n_msgs ?n 0)) + 7 < NETWORK_BODY_SIZE"
    by (simp add: new_output_message_def om_freeMessage_def layout)
  moreover have "cn_state (n_conns ?n 4) = CONNECTION_STATE_OPEN" "\<not> cn_writeError (n_conns ?n 4)" "cn_pendingWrite (n_conns ?n 4) = 0"
    by (simp_all add: demo_net_def new_connection_def)
  moreover have "\<not> m_rawMessages (new_protocol (Some 4))" by (simp add: new_protocol_def)
  ultimately show ?thesis
    using conn_send_writes_frame [of ?n 2 "new_protocol (Some 4)" 0 "[]" 4 "new_config (\<lambda>_. False) (\<lambda>_. 0)"] by auto
qed

section \<open>Postponed messages\<close>

lemma requeue_old:
  assumes "\<forall>m \<in> set ms. m_frame (n_msgs n m) \<ge> dropTime \<and> frameTime > m_frame (n_msgs n m)"
  shows "\<exists>n'. pool_requeue dropTime frameTime ms n = Some n' \<and> p_autoSend n' = rev ms @ p_autoSend n"
  using assms
proof (induction ms arbitrary: n)
  case (Cons m ms)
  define n1 where "n1 = (upd_msg m (m_state_update (\<lambda>_. STATE_ALLOCATED)) n)\<lparr>p_autoSend := m # p_autoSend n\<rparr>"
  have frames: "m_frame (n_msgs n1 k) = m_frame (n_msgs n k)" for k by (simp add: n1_def upd_msg_def)
  have "pool_requeue dropTime frameTime (m # ms) n = pool_requeue dropTime frameTime ms n1"
    using Cons.prems by (simp add: n1_def Let_def upd_msg_def)
  then show ?case using Cons.IH [of n1] Cons.prems frames by (simp add: n1_def)
qed simp

text \<open>The limit of the order of messages: the messages that were postponed because their
  connection was busy, and are older than ten milliseconds when the pool sends, are put in
  front of the sending queue one by one, so that they are sent in reverse order.\<close>

theorem postponed_messages_reversed:
  assumes "\<forall>m \<in> set (p_addQueue n). p_frameTime n - 10000 \<le> m_frame (n_msgs n m) \<and> m_frame (n_msgs n m) < p_frameTime n - 10"
    and "p_autoSend n = []"
  shows "\<exists>n'. pool_requeue (p_frameTime n - 10000) (p_frameTime n - 10) (p_addQueue n) n = Some n' \<and>
     pool_sendAll cfg n = pool_flush cfg (p_frameTime n - 10) (rev (p_addQueue n)) (n'\<lparr>p_addQueue := []\<rparr>)"
  using requeue_old [where ms = "p_addQueue n" and n = n and dropTime = "p_frameTime n - 10000" and frameTime = "p_frameTime n - 10"] assms
  by (auto simp: pool_sendAll_def Let_def)

theorem postponed_messages_reversed_witness:
  "\<exists>n'. pool_sendAll (new_config (\<lambda>_. False) (\<lambda>_. 0))
     (demo_net\<lparr>p_addQueue := [1, 2], p_frameTime := 20000, n_msgs := (\<lambda>_. new_output_message\<lparr>m_frame := 15000\<rparr>)\<rparr>) =
     pool_flush (new_config (\<lambda>_. False) (\<lambda>_. 0)) 19990 [2, 1] n'"
proof -
  let ?n = "demo_net\<lparr>p_addQueue := [1, 2], p_frameTime := 20000, n_msgs := (\<lambda>_. new_output_message\<lparr>m_frame := 15000\<rparr>)\<rparr>"
  have "\<forall>m \<in> set (p_addQueue ?n). p_frameTime ?n - 10000 \<le> m_frame (n_msgs ?n m) \<and> m_frame (n_msgs ?n m) < p_frameTime ?n - 10"
    "p_autoSend ?n = []" by (simp_all add: demo_net_def)
  from postponed_messages_reversed [OF this, of "new_config (\<lambda>_. False) (\<lambda>_. 0)"]
  obtain n' where "pool_sendAll (new_config (\<lambda>_. False) (\<lambda>_. 0)) ?n =
      pool_flush (new_config (\<lambda>_. False) (\<lambda>_. 0)) (p_frameTime ?n - 10) (rev (p_addQueue ?n)) n'" by blast
  moreover have "p_frameTime ?n - 10 = 19990" "rev (p_addQueue ?n) = [2, 1]" by simp_all
  ultimately show ?thesis by metis
qed

end
