(* ===== verification/Worlds.thy ===== *)
theory Worlds
  imports Config_Manager
begin

text \<open>
  The game worlds of \<open>io/worlds.h\<close> and \<open>io/worlds.cpp\<close>: the list the login server offers, read
  from \<open>worlds.json\<close>. The list is a \<open>std::map\<close> by id, so it is the ordered map of the
  prelude and its first element is the world with the smallest id. The file system, the
  JSON parser and \<open>inet_addr\<close> are parameters; log output is left out.
\<close>

record world =
  w_name :: string
  w_address :: u32
  w_ports :: "int list"

type_synonym worlds = "(u32 \<times> world) list"

definition worlds_clear :: "worlds \<Rightarrow> worlds" where
  "worlds_clear ws = []"

definition world_ports :: "(string \<times> json) list \<Rightarrow> int list" where
  "world_ports obj =
     (let ports = map to_i32 (List.map_filter as_int64
            (case Option.bind (obj_find ''ports'' obj) as_array of Some ps \<Rightarrow> ps | None \<Rightarrow> []))
      in if ports = [] then [7172] else ports)"

text \<open>One round of the loop over the entries of the file.\<close>

definition load_world :: "(string \<Rightarrow> u32) \<Rightarrow> json \<Rightarrow> worlds \<Rightarrow> worlds" where
  "load_world inet_addr entry ws =
     (case as_object entry of
        None \<Rightarrow> ws
      | Some obj \<Rightarrow>
          (case Option.bind (obj_find ''id'' obj) as_int64 of
             None \<Rightarrow> ws
           | Some n \<Rightarrow>
               (let i = u32_of_int n
                in if map_of ws i \<noteq> None then ws
                   else omap_put i
                     \<lparr>w_name = json_str obj ''name'' (''Server #'' @ show_nat (unat i)),
                      w_address = inet_addr (json_str obj ''address'' ''localhost''),
                      w_ports = world_ports obj\<rparr> ws)))"

definition loadFromJson ::
  "(string \<Rightarrow> string option) \<Rightarrow> (string \<Rightarrow> json option) \<Rightarrow> (string \<Rightarrow> u32) \<Rightarrow> string \<Rightarrow> worlds \<Rightarrow> bool \<times> worlds" where
  "loadFromJson read_file parse inet_addr configDir ws =
     (case read_file (configDir @ ''/worlds.json'') of
        None \<Rightarrow> (False, ws)
      | Some content \<Rightarrow>
          (case Option.bind (parse content) as_array of
             None \<Rightarrow> (False, ws)
           | Some entries \<Rightarrow> (True, fold (load_world inet_addr) entries ws)))"

definition getWorldById :: "u32 \<Rightarrow> worlds \<Rightarrow> world option" where
  "getWorldById i ws = map_of ws i"

text \<open>\<open>getFirstWorld\<close>, when it is not \<open>getLastWorld\<close>.\<close>

definition getFirstWorld :: "worlds \<Rightarrow> world option" where
  "getFirstWorld ws = (case ws of [] \<Rightarrow> None | (_, w) # _ \<Rightarrow> Some w)"

section \<open>Invariant\<close>

definition worlds_inv :: "worlds \<Rightarrow> bool" where
  "worlds_inv ws \<longleftrightarrow> omap_inv ws \<and> (\<forall>(i, w) \<in> set ws. w_ports w \<noteq> [])"

lemma world_ports_nonempty: "world_ports obj \<noteq> []"
  by (simp add: world_ports_def Let_def)

lemma worlds_inv_put:
  assumes "worlds_inv ws" and "w_ports w \<noteq> []"
  shows "worlds_inv (omap_put i w ws)"
  using assms omap_inv_put [of ws i w] omap.entries_put_all [of ws "\<lambda>w. w_ports w \<noteq> []" w i]
  by (simp add: worlds_inv_def)

lemma worlds_inv_load_world: "worlds_inv ws \<Longrightarrow> worlds_inv (load_world inet_addr e ws)"
  by (simp add: load_world_def Let_def worlds_inv_put world_ports_nonempty split: option.split)

interpretation world_loading: guarded_machine "load_world inet_addr" worlds_inv for inet_addr
  by unfold_locales (rule worlds_inv_load_world)

lemma load_world_keeps:
  "worlds_inv ws \<Longrightarrow> map_of ws i = Some w \<Longrightarrow> map_of (load_world inet_addr e ws) i = Some w"
  by (auto simp: worlds_inv_def load_world_def map_of_omap_put Let_def split: option.splits)

lemma load_worlds_keep:
  "worlds_inv ws \<Longrightarrow> map_of ws i = Some w \<Longrightarrow> map_of (fold (load_world inet_addr) es ws) i = Some w"
  by (induction es arbitrary: ws) (auto simp: load_world_keeps worlds_inv_load_world)

section \<open>Properties\<close>

text \<open>After loading the world list from any file, the ids are distinct and in order, and every
  world has at least one port, so choosing a port at random always finds one.\<close>

theorem loaded_worlds_have_ports:
  assumes "loadFromJson read_file parse inet_addr dir [] = (ok, ws)"
  shows "sorted_wrt (<) (map fst ws) \<and>
     (\<forall>(i, w) \<in> set ws. nat (random_range r1 r2 0 (int (length (w_ports w)) - 1)) < length (w_ports w))"
proof -
  have "worlds_inv []" by (simp add: worlds_inv_def omap_inv_def)
  then have inv: "worlds_inv ws"
    using assms world_loading.run_inv [of "[]" inet_addr]
    by (auto simp: loadFromJson_def split: option.splits)
  have "nat (random_range r1 r2 0 (int (length ps) - 1)) < length ps" if "ps \<noteq> []" for ps :: "int list"
  proof -
    have "0 \<le> int (length ps) - 1" using that by (cases ps) auto
    from random_range_bounds [OF this, of r1 r2] show ?thesis using that by linarith
  qed
  then show ?thesis using inv by (auto simp: worlds_inv_def omap_inv_def)
qed

theorem loaded_worlds_have_ports_witness:
  "\<exists>ws. loadFromJson (\<lambda>f. Some ''x'')
       (\<lambda>s. Some (JArray [JObject [(''id'', JInt64 1)], JObject [(''id'', JInt64 0)]])) (\<lambda>a. 0) ''etc'' [] = (True, ws) \<and>
     sorted_wrt (<) (map fst ws)"
proof -
  obtain ok ws where ws: "loadFromJson (\<lambda>f. Some ''x'')
       (\<lambda>s. Some (JArray [JObject [(''id'', JInt64 1)], JObject [(''id'', JInt64 0)]])) (\<lambda>a. 0) ''etc'' [] = (ok, ws)"
    by (meson surj_pair)
  then have "ok" by (simp add: loadFromJson_def)
  then show ?thesis using ws loaded_worlds_have_ports [OF ws] by auto
qed

text \<open>Reading a world file never changes a world that is already known: of several entries with
  one id, also across reloads, the first one counts.\<close>

theorem known_worlds_kept:
  assumes "worlds_inv ws" and "getWorldById i ws = Some w"
  shows "getWorldById i (snd (loadFromJson read_file parse inet_addr dir ws)) = Some w"
  using assms load_worlds_keep by (auto simp: loadFromJson_def getWorldById_def split: option.splits)

theorem known_worlds_kept_witness:
  "getWorldById 3 (snd (loadFromJson (\<lambda>f. Some ''x'')
      (\<lambda>s. Some (JArray [JObject [(''id'', JInt64 3), (''name'', JString ''B'')]])) (\<lambda>a. 0) ''etc''
      [(3, \<lparr>w_name = ''A'', w_address = 1, w_ports = [7172]\<rparr>)])) = Some \<lparr>w_name = ''A'', w_address = 1, w_ports = [7172]\<rparr>"
  by (rule known_worlds_kept) (simp_all add: worlds_inv_def omap_inv_def getWorldById_def)

end
