(* ===== verification/Io.thy ===== *)
theory Io
  imports Database Worlds
begin

text \<open>
  Accounts, premium time and bans of \<open>io/io.h\<close> and \<open>io/io.cpp\<close>, on top of the database layer.

  The handlers take what they read of the rest of the server as an environment: the
  configuration, the worlds, the MySQL library with the DSN, and the clock (one reading per
  handler, in seconds and in milliseconds). The database object of the thread is passed
  through. The statements are the strings the code sends.
\<close>

record 's env =
  e_config :: config
  e_worlds :: worlds
  e_ext :: "'s mysql"
  e_dsn :: string
  e_time :: int
  e_ms :: int

text \<open>\<open>Database::local()\<close> on the object of the thread, and the calls on it.\<close>

definition io_local :: "'s env \<Rightarrow> 's database \<Rightarrow> 's database" where
  "io_local env db = db_local (e_ext env) (e_dsn env) (e_ms env) (server db) (Some db)"

definition io_store :: "'s env \<Rightarrow> string \<Rightarrow> 's database \<Rightarrow> db_result option \<times> 's database" where
  "io_store env sql db = db_storeQuery (e_ext env) (e_dsn env) sql db"

definition io_query :: "'s env \<Rightarrow> string \<Rightarrow> 's database \<Rightarrow> bool \<times> 's database" where
  "io_query env sql db = db_query (e_ext env) (e_dsn env) sql db"

section \<open>Data\<close>

datatype ban_t = BAN_NONE | BAN_IP | BAN_PLAYER | BAN_ACCOUNT | BAN_NOTATION

record character =
  ch_name :: string
  ch_server :: world
  ch_status :: int

record account =
  premiumDays :: u16
  warnings :: u16
  number :: u32
  lastDay :: u32
  acc_name :: string
  acc_password :: string
  recoveryKey :: string
  salt :: string
  charList :: "(string \<times> character) list"

definition new_account :: account where
  "new_account = \<lparr>premiumDays = 0, warnings = 0, number = 0, lastDay = 0, acc_name = [], acc_password = [],
     recoveryKey = [], salt = [], charList = []\<rparr>"

record ban =
  ban_type :: ban_t
  ban_id :: u32
  bannedBy :: u32
  ban_target :: string
  reason :: string
  banType :: string
  createdAt :: string
  expiresAt :: string
  active :: bool

definition new_ban :: ban where
  "new_ban = \<lparr>ban_type = BAN_NONE, ban_id = 0, bannedBy = 0, ban_target = [], reason = [], banType = [],
     createdAt = [], expiresAt = [], active = False\<rparr>"

definition to_i8 :: "int \<Rightarrow> int" where
  "to_i8 x = signed_take_bit 7 x"

section \<open>Accounts\<close>

definition account_query :: "string \<Rightarrow> 's database \<Rightarrow> string" where
  "account_query name db =
     ''SELECT `id`, `password`, `salt`, `premium_days`, `lastday`, `key`, `warnings` FROM `accounts` WHERE `name` ''
     @ getStringComparer @ escapeString name db @ '' LIMIT 1''"

definition players_query :: "u32 \<Rightarrow> string" where
  "players_query n =
     ''SELECT `name`, `group_id`, `online` FROM `players` WHERE `account_id` = '' @ show_nat (unat n) @ '' AND `deleted` = 0''"

text \<open>The fields that both forms of \<open>loadAccount\<close> read.\<close>

definition read_account :: "db_result \<Rightarrow> account \<Rightarrow> account" where
  "read_account r a =
     a\<lparr>acc_password := getDataString ''password'' r, salt := getDataString ''salt'' r,
       premiumDays := u16_of_int (max 0 (min (int GRATIS_PREMIUM) (getDataInt ''premium_days'' r))),
       lastDay := u32_of_int (getDataInt ''lastday'' r), recoveryKey := getDataString ''key'' r,
       warnings := u16_of_int (getDataInt ''warnings'' r)\<rparr>"

text \<open>One round of the loop over the players of the account.\<close>

definition gm_characters :: "string \<Rightarrow> worlds \<Rightarrow> (string \<times> character) list \<Rightarrow> (string \<times> character) list" where
  "gm_characters name ws cl =
     fold (\<lambda>(hax, w). omap_put (name @ show_nat (unat (of_nat hax :: u16))) \<lparr>ch_name = name, ch_server = w, ch_status = -1\<rparr>)
       (zip [0..<length ws] (map snd ws)) cl"

definition load_character ::
  "config \<Rightarrow> worlds \<Rightarrow> db_result \<Rightarrow> (string \<times> character) list \<Rightarrow> (string \<times> character) list" where
  "load_character cfg ws r cl =
     (let name = getDataString ''name'' r
      in if getDataInt ''group_id'' r \<ge> getNumber GAMEMASTER_GROUP cfg then gm_characters name ws cl
         else case getFirstWorld ws of
           Some w \<Rightarrow> omap_put name \<lparr>ch_name = name, ch_server = w, ch_status = to_i8 (getDataInt ''online'' r)\<rparr> cl
         | None \<Rightarrow> cl)"

definition loadAccount :: "'s env \<Rightarrow> string \<Rightarrow> account \<Rightarrow> 's database \<Rightarrow> (bool \<times> account) \<times> 's database" where
  "loadAccount env name a db =
     (let db = io_local env db
      in case io_store env (account_query name db) db of
           (None, db) \<Rightarrow> ((False, a), db)
         | (Some r, db) \<Rightarrow>
             (let a = read_account r (a\<lparr>number := u32_of_int (getDataInt ''id'' r), acc_name := name\<rparr>)
              in case io_store env (players_query (number a)) db of
                   (None, db) \<Rightarrow> ((True, a), db)
                 | (Some r, db) \<Rightarrow>
                     ((True, a\<lparr>charList := result_loop (load_character (e_config env) (e_worlds env)) r (charList a)\<rparr>), db)))"

definition loadAccountById :: "'s env \<Rightarrow> u32 \<Rightarrow> 's database \<Rightarrow> account \<times> 's database" where
  "loadAccountById env accountId db =
     (let db = io_local env db
      in case io_store env
           (''SELECT `name`, `password`, `salt`, `premium_days`, `lastday`, `key`, `warnings` FROM `accounts` WHERE `id` = ''
            @ show_nat (unat accountId) @ '' LIMIT 1'') db of
           (None, db) \<Rightarrow> (new_account, db)
         | (Some r, db) \<Rightarrow>
             (read_account r (new_account\<lparr>number := accountId, acc_name := getDataString ''name'' r\<rparr>), db))"

definition saveAccount :: "'s env \<Rightarrow> account \<Rightarrow> 's database \<Rightarrow> bool \<times> 's database" where
  "saveAccount env a db =
     io_query env
       (''UPDATE `accounts` SET `premium_days` = '' @ show_nat (unat (premiumDays a)) @ '', `warnings` = ''
        @ show_nat (unat (warnings a)) @ '', `lastday` = '' @ show_nat (unat (lastDay a)) @ '' WHERE `id` = ''
        @ show_nat (unat (number a)) @ getUpdateLimiter) (io_local env db)"

text \<open>The name cache of the object; a name found in it is returned without a query.\<close>

definition getNameByGuid ::
  "'s env \<Rightarrow> u32 \<Rightarrow> (u32 \<rightharpoonup> string) \<Rightarrow> 's database \<Rightarrow> string option \<times> (u32 \<rightharpoonup> string) \<times> 's database" where
  "getNameByGuid env guid cache db =
     (case cache guid of
        Some name \<Rightarrow> (Some name, cache, db)
      | None \<Rightarrow>
          (case io_store env (''SELECT `name` FROM `players` WHERE `id` = '' @ show_nat (unat guid)
                  @ '' AND `deleted` = 0 LIMIT 1'') (io_local env db) of
             (None, db) \<Rightarrow> (None, cache, db)
           | (Some r, db) \<Rightarrow>
               (let name = getDataString ''name'' r in (Some name, cache(guid \<mapsto> name), db))))"

section \<open>Premium time\<close>

text \<open>\<open>now\<close> is the \<open>uint64_t\<close> of the code. The result says whether the account has to be saved.\<close>

definition premium_step :: "u64 \<Rightarrow> account \<Rightarrow> bool \<times> account" where
  "premium_step now a =
     (if ucast (lastDay a) > now \<or> now - ucast (lastDay a) < 86400 then (False, a)
      else if premiumDays a > 0 \<and> premiumDays a < of_nat GRATIS_PREMIUM then
        (if lastDay a = 0 then (True, a\<lparr>lastDay := ucast now\<rparr>)
         else let days = (ucast ((now - ucast (lastDay a)) div 86400) :: u32)
              in if days > 0 then
                   (if ucast (premiumDays a) \<ge> days
                    then (True, a\<lparr>premiumDays := premiumDays a - ucast days,
                                  lastDay := ucast (now - (now - ucast (lastDay a)) mod 86400)\<rparr>)
                    else (True, a\<lparr>premiumDays := 0, lastDay := 0\<rparr>))
                 else (False, a))
      else if lastDay a \<noteq> 0 then (True, a\<lparr>lastDay := 0\<rparr>)
      else (False, a))"

definition updatePremium :: "'s env \<Rightarrow> account \<Rightarrow> 's database \<Rightarrow> account \<times> 's database" where
  "updatePremium env a db =
     (let (save, a) = premium_step (word_of_int (e_time env)) a
      in (a, if save then snd (saveAccount env a db) else db))"

text \<open>The update of all accounts at startup, in one transaction; every return runs its destructor.\<close>

definition updatePremiumAll :: "'s env \<Rightarrow> 's database \<Rightarrow> bool \<times> 's database" where
  "updatePremiumAll env db =
     (let db = io_local env db
      in case trans_begin (e_ext env) (e_dsn env) db of
           (False, st, db) \<Rightarrow> (False, trans_end (e_ext env) st db)
         | (True, st, db) \<Rightarrow>
             (case io_store env (''SELECT `id` FROM `accounts` WHERE `lastday` <= '' @ show_int (e_time env - 86400)) db of
                (None, db) \<Rightarrow> (False, trans_end (e_ext env) st db)
              | (Some r, db) \<Rightarrow>
                  (let db = result_loop (\<lambda>r db. let (a, db) = loadAccountById env (u32_of_int (getDataInt ''id'' r)) db
                                               in snd (updatePremium env a db)) r db;
                       (ok, st, db) = trans_commit (e_ext env) st db
                   in (ok, trans_end (e_ext env) st db))))"

section \<open>Bans\<close>

definition ip_bans_query :: string where
  "ip_bans_query =
     ''SELECT `id`, `target`, `expires_at` FROM `bans` WHERE `ban_type` = 'ip' AND `active` = 1''
     @ '' AND (`expires_at` IS NULL OR `expires_at` > NOW())''"

text \<open>The loop stops at the first match; it has no other effect.\<close>

definition isIpBanished :: "'s env \<Rightarrow> u32 \<Rightarrow> 's database \<Rightarrow> bool \<times> 's database" where
  "isIpBanished env ip db =
     (if ip = 0 then (False, db)
      else case io_store env ip_bans_query (io_local env db) of
        (None, db) \<Rightarrow> (False, db)
      | (Some r, db) \<Rightarrow>
          (result_loop (\<lambda>r found. found \<or> getDataString ''target'' r = convertIPAddress ip) r False, db))"

definition checkBanishments :: "'s env \<Rightarrow> 's database \<Rightarrow> bool \<times> 's database" where
  "checkBanishments env db =
     io_query env ''UPDATE `bans` SET `active` = 0 WHERE `active` = 1 AND `expires_at` IS NOT NULL AND `expires_at` <= NOW()''
       (io_local env db)"

definition ban_type_clause :: "ban_t \<Rightarrow> string" where
  "ban_type_clause t =
     (let clause = (\<lambda>v. '' AND `ban_type` = '' @ [quote] @ v @ [quote])
      in case t of BAN_IP \<Rightarrow> clause ''ip'' | BAN_PLAYER \<Rightarrow> clause ''player''
         | BAN_ACCOUNT \<Rightarrow> clause ''account'' | _ \<Rightarrow> [])"

definition ban_query :: "ban \<Rightarrow> 's database \<Rightarrow> string" where
  "ban_query b db =
     ''SELECT * FROM `bans` WHERE `target` = '' @ escapeString (ban_target b) db @ ban_type_clause (ban_type b)
     @ '' AND `active` = 1 AND (`expires_at` IS NULL OR `expires_at` > NOW()) LIMIT 1''"

definition getBanishment :: "'s env \<Rightarrow> ban \<Rightarrow> 's database \<Rightarrow> (bool \<times> ban) \<times> 's database" where
  "getBanishment env b db =
     (let db = io_local env db
      in case io_store env (ban_query b db) db of
           (None, db) \<Rightarrow> ((False, b), db)
         | (Some r, db) \<Rightarrow>
             (let b = b\<lparr>ban_id := u32_of_int (getDataInt ''id'' r), banType := getDataString ''ban_type'' r,
                    ban_target := getDataString ''target'' r, expiresAt := getDataString ''expires_at'' r,
                    createdAt := getDataString ''created_at'' r, bannedBy := u32_of_int (getDataInt ''banned_by'' r),
                    reason := getDataString ''reason'' r, active := getDataInt ''active'' r \<noteq> 0\<rparr>;
                  b = (if banType b = ''ip'' then b\<lparr>ban_type := BAN_IP\<rparr>
                       else if banType b = ''player'' then b\<lparr>ban_type := BAN_PLAYER\<rparr>
                       else if banType b = ''account'' then b\<lparr>ban_type := BAN_ACCOUNT\<rparr> else b)
              in ((True, b), db)))"

section \<open>Premium time in numbers\<close>

lemma unat_ucast_u64: "unat (ucast (w :: u32) :: u64) = unat w"
  using unat_u32_less [of w] by (simp add: unsigned_ucast_eq take_bit_nat_eq_self)

lemma unat_ucast_u32: "unat (ucast (w :: u16) :: u32) = unat w"
  using unat_u16_less [of w] by (simp add: unsigned_ucast_eq take_bit_nat_eq_self)

lemma unat_ucast_down: "unat (w :: u64) < 2 ^ 32 \<Longrightarrow> unat (ucast w :: u32) = unat w"
  by (simp add: unsigned_ucast_eq take_bit_nat_eq_self)

lemma unat_since:
  "unat (l :: u32) \<le> unat (now :: u64) \<Longrightarrow> unat (now - ucast l) = unat now - unat l"
  by (simp add: unat_sub unat_ucast_u64 word_le_nat_alt)

lemma premium_days_elapsed:
  assumes "unat (l :: u32) \<le> unat (now :: u64)" and "unat now < 2 ^ 32"
  shows "unat (ucast ((now - ucast l) div 86400) :: u32) = (unat now - unat l) div 86400"
proof -
  have "unat ((now - ucast l) div 86400) = (unat now - unat l) div 86400"
    by (simp add: unat_div unat_since [OF assms(1)])
  moreover have "(unat now - unat l) div 86400 < 2 ^ 32" using assms(2) by (simp add: less_mult_imp_div_less)
  ultimately show ?thesis by (simp add: unat_ucast_down)
qed

lemma premium_new_lastDay:
  assumes "unat (l :: u32) \<le> unat (now :: u64)" and "unat now < 2 ^ 32"
  shows "unat (ucast (now - (now - ucast l) mod 86400) :: u32) = unat l + 86400 * ((unat now - unat l) div 86400)"
proof -
  have m: "unat ((now - ucast l) mod 86400) = (unat now - unat l) mod 86400"
    by (simp add: unat_mod unat_since [OF assms(1)])
  have le: "(unat now - unat l) mod 86400 \<le> unat now" by (meson diff_le_self le_trans mod_less_eq_dividend)
  have "unat (now - (now - ucast l) mod 86400) = unat now - (unat now - unat l) mod 86400"
    using le by (simp add: unat_sub m word_le_nat_alt)
  moreover have "unat now - (unat now - unat l) mod 86400 = unat l + 86400 * ((unat now - unat l) div 86400)"
    using assms(1) by (metis add_diff_assoc le_add_diff_inverse minus_mod_eq_mult_div mod_less_eq_dividend)
  ultimately show ?thesis using assms(2) by (simp add: unat_ucast_down)
qed

text \<open>An account that is charged: it has premium days that can run out, and its clock runs.\<close>

definition charged :: "account \<Rightarrow> bool" where
  "charged a \<longleftrightarrow> 0 < unat (premiumDays a) \<and> unat (premiumDays a) < GRATIS_PREMIUM \<and> lastDay a \<noteq> 0"

definition days_since :: "u64 \<Rightarrow> account \<Rightarrow> nat" where
  "days_since now a = (unat now - unat (lastDay a)) div 86400"

lemma premium_step_early:
  assumes "days_since now a = 0"
  shows "premium_step now a = (False, a)"
proof (cases "unat now < unat (lastDay a)")
  case True
  then show ?thesis by (simp add: premium_step_def word_less_nat_alt unat_ucast_u64)
next
  case False
  have "unat now - unat (lastDay a) < 86400"
    using assms by (simp add: days_since_def div_eq_0_iff)
  then show ?thesis using False by (simp add: premium_step_def word_less_nat_alt unat_since)
qed

lemma premium_step_late:
  assumes "charged a" and "unat now < 2 ^ 32" and d: "0 < days_since now a"
  shows "\<exists>a'. premium_step now a = (True, a') \<and> unat (premiumDays a') = unat (premiumDays a) - days_since now a \<and>
     unat (lastDay a') = (if days_since now a \<le> unat (premiumDays a) then unat (lastDay a) + 86400 * days_since now a else 0)"
proof -
  have late: "86400 \<le> unat now - unat (lastDay a)" using d by (simp add: days_since_def div_greater_zero_iff)
  then have le: "unat (lastDay a) \<le> unat now" by simp
  define days where "days = (ucast ((now - ucast (lastDay a)) div 86400) :: u32)"
  have days: "unat days = days_since now a"
    using premium_days_elapsed [OF le assms(2)] by (simp add: days_def days_since_def)
  have p: "0 < unat (premiumDays a)" "unat (premiumDays a) < 65535" "lastDay a \<noteq> 0"
    using assms(1) by (simp_all add: charged_def GRATIS_PREMIUM_def)
  have start: "\<not> (ucast (lastDay a) > now \<or> now - ucast (lastDay a) < 86400)"
    using late le by (simp add: word_less_nat_alt unat_ucast_u64 unat_since)
  have on: "premiumDays a > 0 \<and> premiumDays a < of_nat GRATIS_PREMIUM"
    using p by (simp add: word_less_nat_alt GRATIS_PREMIUM_def)
  have dpos: "days > 0" using d days by (simp add: word_less_nat_alt)
  show ?thesis
  proof (cases "days_since now a \<le> unat (premiumDays a)")
    case True
    then have "days \<le> ucast (premiumDays a)" by (simp add: word_le_nat_alt days unat_ucast_u32)
    moreover have "unat (ucast days :: u16) = days_since now a"
      using True p days by (simp add: unsigned_ucast_eq take_bit_nat_eq_self)
    then have "unat (premiumDays a - ucast days) = unat (premiumDays a) - days_since now a"
      using True by (simp add: unat_sub word_le_nat_alt)
    ultimately show ?thesis
      using start on p(3) dpos True premium_new_lastDay [OF le assms(2)]
      by (simp add: premium_step_def days_def [symmetric] Let_def) (simp add: days_since_def)
  next
    case False
    then have "\<not> days \<le> ucast (premiumDays a)" by (simp add: word_le_nat_alt days unat_ucast_u32)
    then show ?thesis
      using start on p(3) dpos False by (simp add: premium_step_def days_def [symmetric] Let_def)
  qed
qed

lemma premium_step_days:
  assumes "charged a" and "unat now < 2 ^ 32"
  shows "unat (premiumDays (snd (premium_step now a))) = unat (premiumDays a) - days_since now a"
  using premium_step_late [OF assms] premium_step_early [of now a] by (cases "days_since now a = 0") auto

text \<open>C35. Premium time is charged by whole days: for an account with running premium time, up to the
  year 2106, the update takes exactly the number of days since \<open>lastDay\<close> away, stopping
  at 0; it moves \<open>lastDay\<close> forward by whole days and keeps the part of the day already used,
  or stops the clock when the days did not suffice.\<close>

theorem updatePremium_charges_whole_days:
  assumes "charged a" and "unat now < 2 ^ 32" and "snd (premium_step now a) = a'"
  shows "unat (premiumDays a') = unat (premiumDays a) - days_since now a \<and>
     unat (lastDay a') = (if days_since now a \<le> unat (premiumDays a) then unat (lastDay a) + 86400 * days_since now a else 0) \<and>
     (fst (premium_step now a) \<longleftrightarrow> 0 < days_since now a)"
  using premium_step_late [OF assms(1,2)] premium_step_early [of now a] assms(3)
  by (cases "days_since now a = 0") auto

theorem updatePremium_charges_whole_days_witness:
  "unat (premiumDays (snd (premium_step 1000172805 (new_account\<lparr>premiumDays := 5, lastDay := 1000000000\<rparr>)))) = 3"
  using updatePremium_charges_whole_days [of "new_account\<lparr>premiumDays := 5, lastDay := 1000000000\<rparr>" 1000172805, OF _ _ refl]
  by (simp add: charged_def GRATIS_PREMIUM_def new_account_def days_since_def)

lemma premium_step_uncharged:
  assumes "\<not> charged a" and "lastDay a \<noteq> 0"
  shows "premiumDays (snd (premium_step now a)) = premiumDays a"
proof -
  have "\<not> (premiumDays a > 0 \<and> premiumDays a < of_nat GRATIS_PREMIUM)"
    using assms by (simp add: charged_def GRATIS_PREMIUM_def word_less_nat_alt)
  then show ?thesis using assms(2) by (auto simp: premium_step_def)
qed

lemma uncharged_stays:
  assumes "unat (premiumDays a) = 0 \<or> unat (premiumDays a) = 65535"
  shows "premiumDays (snd (premium_step now a)) = premiumDays a"
  using assms by (auto simp: premium_step_def GRATIS_PREMIUM_def word_less_nat_alt)

lemma day_steps:
  assumes "86400 * d \<le> (n1 :: nat) - l" and "l \<le> n1" and "n1 \<le> n2"
  shows "(n2 - (l + 86400 * d)) div 86400 = (n2 - l) div 86400 - d"
proof -
  have "n2 - (l + 86400 * d) = (n2 - l) - 86400 * d" by simp
  moreover have "86400 * d \<le> n2 - l" using assms by simp
  ultimately show ?thesis by simp
qed

lemma days_since_mono: "now1 \<le> now2 \<Longrightarrow> days_since now1 a \<le> days_since now2 a"
  by (simp add: days_since_def word_le_nat_alt div_le_mono diff_le_mono)

lemma days_since_after:
  assumes "unat (lastDay a') = unat (lastDay a) + 86400 * days_since now1 a" and "0 < days_since now1 a" and "now1 \<le> now2"
  shows "days_since now2 a' = days_since now2 a - days_since now1 a"
proof -
  have "86400 * days_since now1 a \<le> unat now1 - unat (lastDay a)"
    by (simp add: days_since_def)
  moreover have "unat (lastDay a) \<le> unat now1"
    using assms(2) by (simp add: days_since_def div_greater_zero_iff)
  ultimately show ?thesis
    using day_steps [of "days_since now1 a" "unat now1" "unat (lastDay a)" "unat now2"] assms(1,3)
    by (simp add: days_since_def word_le_nat_alt)
qed

text \<open>Premium time does not depend on how often it is updated: an update in between changes
  nothing in the number of days that are left after the next one.\<close>

theorem updatePremium_path_independent:
  assumes "lastDay a \<noteq> 0" and "now1 \<le> now2" and "unat now2 < 2 ^ 32"
  shows "premiumDays (snd (premium_step now2 (snd (premium_step now1 a)))) = premiumDays (snd (premium_step now2 a))"
proof (cases "charged a")
  case False
  then have "unat (premiumDays a) = 0 \<or> unat (premiumDays a) = 65535"
    using assms(1) unat_u16_less [of "premiumDays a"] by (auto simp: charged_def GRATIS_PREMIUM_def)
  then show ?thesis
    using uncharged_stays [of a] uncharged_stays [of "snd (premium_step now1 a)" now2] by simp
next
  case True
  have now1: "unat now1 < 2 ^ 32" using assms(2,3) by (simp add: word_le_nat_alt)
  note d = days_since_mono [OF assms(2), of a]
  note direct = premium_step_days [OF True assms(3)]
  show ?thesis
  proof (cases "days_since now1 a = 0")
    case True
    then show ?thesis by (simp add: premium_step_early)
  next
    case late: False
    define a' where "a' = snd (premium_step now1 a)"
    have a': "unat (premiumDays a') = unat (premiumDays a) - days_since now1 a"
      "unat (lastDay a') = (if days_since now1 a \<le> unat (premiumDays a) then unat (lastDay a) + 86400 * days_since now1 a else 0)"
      using premium_step_late [OF True now1] late by (auto simp: a'_def)
    have "unat (premiumDays (snd (premium_step now2 a'))) = unat (premiumDays a) - days_since now2 a"
    proof (cases "unat (premiumDays a') = 0")
      case True
      then show ?thesis using uncharged_stays [of a' now2] a'(1) d by simp
    next
      case left: False
      then have enough: "days_since now1 a \<le> unat (premiumDays a)" using a'(1) by simp
      have "unat (lastDay a') \<noteq> 0" using a'(2) enough late by simp
      then have "charged a'"
        using left a'(1) True by (auto simp: charged_def)
      from premium_step_days [OF this assms(3)] show ?thesis
        using days_since_after [of a' a now1 now2] a' enough late assms(2) d by simp
    qed
    then show ?thesis using direct unfolding a'_def by (metis unsigned_word_eqI)
  qed
qed

theorem updatePremium_path_independent_witness:
  "premiumDays (snd (premium_step 1000500000 (snd (premium_step 1000172805
      (new_account\<lparr>premiumDays := 9, lastDay := 1000000000\<rparr>))))) =
   premiumDays (snd (premium_step 1000500000 (new_account\<lparr>premiumDays := 9, lastDay := 1000000000\<rparr>)))"
  by (rule updatePremium_path_independent) simp_all

section \<open>Queries\<close>



section \<open>Characters\<close>

definition characters_inv :: "worlds \<Rightarrow> (string \<times> character) list \<Rightarrow> bool" where
  "characters_inv ws cl \<longleftrightarrow> omap_inv cl \<and> (\<forall>(k, c) \<in> set cl. ch_server c \<in> snd ` set ws)"

lemma characters_inv_put:
  assumes "characters_inv ws cl" and "ch_server c \<in> snd ` set ws"
  shows "characters_inv ws (omap_put k c cl)"
  using assms omap_inv_put [of cl k c] omap.entries_put_all [of cl "\<lambda>c. ch_server c \<in> snd ` set ws" c k]
  by (simp add: characters_inv_def)

lemma characters_inv_puts:
  "characters_inv ws cl \<Longrightarrow> snd ` set hws \<subseteq> snd ` set ws \<Longrightarrow>
   characters_inv ws (fold (\<lambda>(h, w). omap_put (f h) \<lparr>ch_name = name, ch_server = w, ch_status = s\<rparr>) hws cl)"
proof (induction hws arbitrary: cl)
  case (Cons hw hws)
  obtain h w where hw: "hw = (h, w)" by (cases hw)
  have "characters_inv ws (omap_put (f h) \<lparr>ch_name = name, ch_server = w, ch_status = s\<rparr> cl)"
    using Cons.prems hw by (intro characters_inv_put) auto
  then show ?case using Cons hw by simp
qed simp

lemma getFirstWorld_in: "getFirstWorld ws = Some w \<Longrightarrow> w \<in> snd ` set ws"
  by (auto simp: getFirstWorld_def split: list.splits)

lemma characters_inv_load: "characters_inv ws cl \<Longrightarrow> characters_inv ws (load_character cfg ws r cl)"
proof -
  assume cl: "characters_inv ws cl"
  have "snd ` set (zip [0..<length ws] (map snd ws)) \<subseteq> snd ` set ws"
    by (auto simp: set_zip)
  then have "characters_inv ws (gm_characters name ws cl)" for name
    unfolding gm_characters_def by (rule characters_inv_puts [OF cl])
  then show ?thesis
    using cl getFirstWorld_in by (auto simp: load_character_def Let_def characters_inv_put split: option.splits)
qed

interpretation character_loading: guarded_machine "load_character cfg ws" "characters_inv ws" for cfg ws
  by unfold_locales (rule characters_inv_load)

text \<open>A loaded account is well-formed whatever the database answers: every character stands on a
  configured world, the list is ordered without duplicates, and the account carries the name
  that was asked for.\<close>

theorem loadAccount_characters_on_worlds:
  assumes "loadAccount env name new_account db = ((True, a), db')"
  shows "acc_name a = name \<and> sorted_wrt (<) (map fst (charList a)) \<and>
     (\<forall>(k, c) \<in> set (charList a). ch_server c \<in> snd ` set (e_worlds env))"
proof -
  have "characters_inv (e_worlds env) []" by (simp add: characters_inv_def omap_inv_def)
  then have loop: "characters_inv (e_worlds env) (result_loop (load_character (e_config env) (e_worlds env)) r [])" for r
    using result_loop_inv [where P = "characters_inv (e_worlds env)" and x = "[]"] character_loading.step_inv by blast
  have "acc_name a = name \<and> characters_inv (e_worlds env) (charList a)"
    using assms loop \<open>characters_inv (e_worlds env) []\<close>
    by (auto simp: loadAccount_def read_account_def new_account_def Let_def split: prod.splits option.splits)
  then show ?thesis by (simp add: characters_inv_def omap_inv_def)
qed

definition demo_mysql :: "nat mysql" where
  "demo_mysql = \<lparr>my_connect = \<lambda>p s. (True, s), my_close = \<lambda>s. s,
     my_execute = \<lambda>q s. (Some \<lparr>res_meta = [''id'', ''name'', ''target''],
       res_rows = [[FInt64 7, FString ''Bob'', FString ''1.0.0.127'']], res_last_insert_id = 0\<rparr>, s + 1)\<rparr>"

definition demo_env :: "nat env" where
  "demo_env = \<lparr>e_config = new_config (\<lambda>_. False) (\<lambda>_. 4),
     e_worlds = [(1, \<lparr>w_name = ''W'', w_address = 16777343, w_ports = [7172]\<rparr>)],
     e_ext = demo_mysql, e_dsn = [], e_time = 1000000000, e_ms = 5\<rparr>"

theorem loadAccount_characters_on_worlds_witness:
  "\<exists>a db'. loadAccount demo_env ''acc'' new_account ((new_database 0)\<lparr>m_connected := True\<rparr>) = ((True, a), db') \<and> acc_name a = ''acc''"
proof -
  have "fst (fst (loadAccount demo_env ''acc'' new_account ((new_database 0)\<lparr>m_connected := True\<rparr>)))"
    by (simp add: loadAccount_def io_local_def db_local_def io_store_def db_storeQuery_def db_execute_def
        demo_env_def demo_mysql_def new_database_def verifyResult_rows Let_def)
  then obtain a db' where "loadAccount demo_env ''acc'' new_account ((new_database 0)\<lparr>m_connected := True\<rparr>) = ((True, a), db')"
    by (metis prod.collapse)
  then show ?thesis using loadAccount_characters_on_worlds by blast
qed

section \<open>Banned addresses\<close>

lemma result_loop_exists:
  assumes "1 \<le> k" and "k \<le> length (res_rows r)"
  shows "result_loop (\<lambda>row found. found \<or> P row) (at_row r k) b \<longleftrightarrow> b \<or> (\<exists>j. k \<le> j \<and> j \<le> length (res_rows r) \<and> P (at_row r j))"
proof -
  have step: "fold (\<lambda>j found. found \<or> Q j) js b \<longleftrightarrow> b \<or> (\<exists>j \<in> set js. Q j)" for Q :: "nat \<Rightarrow> bool" and js b
    by (induction js arbitrary: b) auto
  show ?thesis using result_loop_rows [OF assms, of "\<lambda>row found. found \<or> P row" b] by (auto simp: step less_Suc_eq_le)
qed

text \<open>C34. An address is refused exactly when the database has an active ban of that very address:
  with the answer of the server to the query of the code, \<open>isIpBanished\<close> holds if and only
  if a row has the dotted form of the address as its target.\<close>

theorem isIpBanished_exact:
  assumes "m_connected db" and "my_execute (e_ext env) ip_bans_query (server db) = (Some res, s)" and "ip \<noteq> 0"
    and "distinct (res_meta res)" and "\<forall>row \<in> set (res_rows res). length row = length (res_meta res)"
    and "t < length (res_meta res)" and "res_meta res ! t = ''target''"
    and "\<forall>row \<in> set (res_rows res). \<exists>s. row ! t = FString s"
  shows "fst (isIpBanished env ip db) \<longleftrightarrow> (\<exists>row \<in> set (res_rows res). row ! t = FString (convertIPAddress ip))"
proof -
  let ?n = "length (res_rows res)"
  have ext: "io_store env ip_bans_query (io_local env db) =
     (if res_rows res = [] then None else Some (at_row res 1), (io_local env db)\<lparr>server := s, m_lastInsertId := res_last_insert_id res\<rparr>)"
    using assms(1,2) by (simp add: io_store_def io_local_def db_local_def db_storeQuery_def db_execute_def verifyResult_rows)
  have at: "getDataString ''target'' (at_row res j) = x \<longleftrightarrow> res_rows res ! (j - 1) ! t = FString x"
    if "1 \<le> j" "j \<le> ?n" for j x
  proof -
    have row: "res_rows res ! (j - 1) \<in> set (res_rows res)" using that by simp
    then obtain y where "res_rows res ! (j - 1) ! t = FString y" using assms(8) by blast
    then show ?thesis
      using field_at_row [OF assms(4,5,6) that] by (simp add: getDataString_def assms(7))
  qed
  have ex: "(\<exists>j. 1 \<le> j \<and> j \<le> ?n \<and> getDataString ''target'' (at_row res j) = x) \<longleftrightarrow> (\<exists>row \<in> set (res_rows res). row ! t = FString x)" for x
  proof
    assume "\<exists>j. 1 \<le> j \<and> j \<le> ?n \<and> getDataString ''target'' (at_row res j) = x"
    then obtain j where j: "1 \<le> j" "j \<le> ?n" "res_rows res ! (j - 1) ! t = FString x" using at by blast
    then have "res_rows res ! (j - 1) \<in> set (res_rows res)" by simp
    with j(3) show "\<exists>row \<in> set (res_rows res). row ! t = FString x" by blast
  next
    assume "\<exists>row \<in> set (res_rows res). row ! t = FString x"
    then obtain i where "i < ?n" "res_rows res ! i ! t = FString x" by (metis in_set_conv_nth)
    then show "\<exists>j. 1 \<le> j \<and> j \<le> ?n \<and> getDataString ''target'' (at_row res j) = x"
      using at [of "i + 1"] by (intro exI [of _ "i + 1"]) simp
  qed
  show ?thesis
  proof (cases "res_rows res = []")
    case True
    then show ?thesis using ext assms(3) by (simp add: isIpBanished_def)
  next
    case False
    then have "1 \<le> ?n" by (cases "res_rows res") auto
    then show ?thesis
      using ext assms(3) False ex result_loop_exists [of 1 res "\<lambda>r. getDataString ''target'' r = convertIPAddress ip" False]
      by (simp add: isIpBanished_def)
  qed
qed

theorem isIpBanished_exact_witness:
  "fst (isIpBanished demo_env 0x7F000001 ((new_database 0)\<lparr>m_connected := True\<rparr>))"
proof -
  have "convertIPAddress 0x7F000001 = ''1.0.0.127''"
    by (simp add: convertIPAddress_def show_nat.simps digit_char_def char_of_def bit_Suc_0_iff)
  then show ?thesis
    using isIpBanished_exact [where db = "(new_database 0)\<lparr>m_connected := True\<rparr>" and env = demo_env and s = 1
        and ip = "0x7F000001" and t = 2 and
        res = "\<lparr>res_meta = [''id'', ''name'', ''target''], res_rows = [[FInt64 7, FString ''Bob'', FString ''1.0.0.127'']], res_last_insert_id = 0\<rparr>"]
    by (simp add: demo_env_def demo_mysql_def new_database_def)
qed

end
