(* ===== verification/Protocol_Login.thy ===== *)
theory Protocol_Login
  imports Connection Io
begin

text \<open>
  The login protocol of \<open>protocol/protocollogin.h\<close> and \<open>protocol/protocollogin.cpp\<close>: the first
  message of a client, the decision about the login in the dispatcher thread, and the reply.

  OpenSSL is a parameter: \<open>rsa\<close> for \<open>RSA_private_decrypt\<close> and \<open>H\<close> for the digests. The random
  numbers are the argument \<open>rnd\<close>, two results of \<open>rand()\<close> for every character of the list.
  \<open>getConnection()->close()\<close> on a protocol without a connection is \<open>None\<close>. Log output, also
  that of the passwords, is left out.
\<close>

definition protocolId :: int where "protocolId = 1"

definition new_login_protocol :: "nat option \<Rightarrow> protocol" where
  "new_login_protocol connection = (new_protocol connection)\<lparr>m_checksumEnabled := True\<rparr>"

definition conn_getIP :: "connection \<Rightarrow> u32" where
  "conn_getIP c = (if cn_open c then cn_ip c else 0)"

definition close_own_connection :: "nat \<Rightarrow> net \<Rightarrow> net option" where
  "close_own_connection p n = do {
     pr \<leftarrow> n_protos n p;
     h \<leftarrow> pr_connection pr;
     Some (conn_close h n)
   }"

text \<open>Fill a message of the pool with fields and send it.\<close>

definition send_fields :: "config \<Rightarrow> nat \<Rightarrow> msg_field list \<Rightarrow> net \<Rightarrow> net option" where
  "send_fields cfg m content n = do {
     om \<leftarrow> put_fields content (n_msgs n m);
     let n = upd_msg m (\<lambda>_. om) n;
     n' \<leftarrow> pool_send cfg m n;
     Some (end_of_scope m n n')
   }"

definition disconnectClient :: "config \<Rightarrow> nat \<Rightarrow> u8 \<Rightarrow> string \<Rightarrow> net \<Rightarrow> net option" where
  "disconnectClient cfg p error message n = do {
     (output, n) \<leftarrow> pool_getOutputMessage p False n;
     n \<leftarrow> (case output of
             None \<Rightarrow> Some n
           | Some m \<Rightarrow> send_fields cfg m [FU8 error, FStr (c_str message)] n);
     close_own_connection p n
   }"

section \<open>The first message\<close>

text \<open>What the first message carries in front of the asymmetric block and inside it.\<close>

record first_message =
  fm_version :: u16
  fm_dat :: u32
  fm_spr :: u32
  fm_pic :: u32

definition read_signatures :: "network_message \<Rightarrow> (first_message \<times> network_message) option" where
  "read_signatures msg = do {
     let msg = msg_skip 2 msg;
     (version, msg) \<leftarrow> msg_get False msg;
     (datSignature, msg) \<leftarrow> msg_get False msg;
     (sprSignature, msg) \<leftarrow> msg_get False msg;
     (picSignature, msg) \<leftarrow> msg_get False msg;
     Some (\<lparr>fm_version = version, fm_dat = datSignature, fm_spr = sprSignature, fm_pic = picSignature\<rparr>, msg)
   }"

definition read_credentials :: "network_message \<Rightarrow> ((u32 list \<times> string \<times> string) \<times> network_message) option" where
  "read_credentials msg = do {
     (k0, msg) \<leftarrow> msg_get False msg;
     (k1, msg) \<leftarrow> msg_get False msg;
     (k2, msg) \<leftarrow> msg_get False msg;
     (k3, msg) \<leftarrow> msg_get False msg;
     (name, msg) \<leftarrow> msg_getString False 0 msg;
     (password, msg) \<leftarrow> msg_getString False 0 msg;
     Some (([k0, k1, k2, k3], name, password), msg)
   }"

definition version_refused :: "u16 \<Rightarrow> bool" where
  "version_refused version \<longleftrightarrow>
     (unat version < CLIENT_VERSION_MIN \<or> unat version > CLIENT_VERSION_MAX) \<and> unat version \<noteq> CLIENT_VERSION_CUSTOM"

text \<open>The part after the credentials: the checks of the client, then the hand-over to the dispatcher.\<close>

definition check_client :: "'s env \<Rightarrow> first_message \<Rightarrow> nat \<Rightarrow> string \<Rightarrow> string \<Rightarrow> net \<Rightarrow> net option" where
  "check_client env fm p name password n =
     (let name = (if name = [] then ''10'' else name)
      in if version_refused (fm_version fm) then disconnectClient (e_config env) p 0x0A CLIENT_VERSION_STRING n
         else if fm_spr fm < CLIENT_VERSION_SPR then disconnectClient (e_config env) p 0x0A CLIENT_VERSION_DATA n
         else if fm_dat fm < CLIENT_VERSION_DAT then disconnectClient (e_config env) p 0x0A CLIENT_VERSION_DATA n
         else if fm_pic fm < CLIENT_VERSION_PIC then disconnectClient (e_config env) p 0x0A CLIENT_VERSION_DATA n
         else do {
           pr \<leftarrow> n_protos n p;
           c \<leftarrow> pr_connection pr;
           let clientIp = conn_getIP (n_conns n c);
           if isDisabled (e_config env) (e_time env) clientIp protocolId (n_cm n)
           then disconnectClient (e_config env) p 0x0A
                  ''Too many connections attempts from your IP address, please try again later.'' n
           else Some (add_task (Delegate p name password clientIp (fm_version fm)) False n)
         })"

definition onRecvFirstMessage ::
  "'s env \<Rightarrow> (u8 list \<Rightarrow> u8 list option) \<Rightarrow> nat \<Rightarrow> nat \<Rightarrow> net \<Rightarrow> net option" where
  "onRecvFirstMessage env rsa p h n = do {
     (fm, msg) \<leftarrow> read_signatures (cn_msg (n_conns n h));
     (ok, msg) \<leftarrow> RSA_decrypt rsa msg;
     let n = upd_conn h (\<lambda>c. c\<lparr>cn_msg := msg\<rparr>) n;
     if \<not> ok then close_own_connection p n
     else do {
       ((key, name, password), msg) \<leftarrow> read_credentials msg;
       let n = upd_conn h (\<lambda>c. c\<lparr>cn_msg := msg\<rparr>) n;
       n \<leftarrow> upd_proto p (\<lambda>pr. setXTEAKey key (pr\<lparr>m_encryptionEnabled := True\<rparr>)) n;
       check_client env fm p name password n
     }
   }"

section \<open>The decision\<close>

datatype decision = Refuse string | Accept account

definition ban_message :: "ban \<Rightarrow> string \<Rightarrow> string" where
  "ban_message b by_name =
     (let deletion = (expiresAt b = [])
      in ''Your account has been '' @ (if deletion then ''deleted'' else ''banished'') @ '' at:'' @ newline_str @ createdAt b
         @ '' by: '' @ by_name @ ''.'' @ newline_str @ ''The comment given was:'' @ newline_str @ reason b @ ''.'' @ newline_str
         @ ''Your '' @ (if deletion then ''account won'' @ [quote] @ ''t be undeleted''
                        else ''banishment will be lifted at:'' @ newline_str)
         @ (if deletion then [] else expiresAt b) @ ''.'')"

definition banner_name :: "'s env \<Rightarrow> ban \<Rightarrow> (u32 \<rightharpoonup> string) \<Rightarrow> 's database \<Rightarrow> string \<times> (u32 \<rightharpoonup> string) \<times> 's database" where
  "banner_name env b cache db =
     (let deletion = (expiresAt b = [])
      in if bannedBy b = 0
         then (''Automatic '' @ (if deletion then ''deletion'' else ''banishment''), cache, db)
         else case getNameByGuid env (bannedBy b) cache db of
                (Some name, cache, db) \<Rightarrow> (name, cache, db)
              | (None, cache, db) \<Rightarrow> (''Automatic '', cache, db))"

text \<open>\<open>delegate\<close> up to the point where it knows what to answer; each attempt is recorded.\<close>

definition delegate_decide ::
  "'s env \<Rightarrow> hash_functions \<Rightarrow> string \<Rightarrow> string \<Rightarrow> u32 \<Rightarrow> connection_manager \<Rightarrow> (u32 \<rightharpoonup> string) \<Rightarrow> 's database \<Rightarrow>
   decision \<times> connection_manager \<times> (u32 \<rightharpoonup> string) \<times> 's database" where
  "delegate_decide env H name password clientIp cm cache db =
     (let db = snd (checkBanishments env db);
          (ipBanned, db) = isIpBanished env clientIp db
      in if ipBanned then (Refuse ''Your IP is banished!'', cm, cache, db)
         else
           let ((loaded, a), db) = loadAccount env name new_account db;
               enc = getNumber ENCRYPTION (e_config env);
               a = (if loaded \<and> number a \<noteq> 10
                    then a\<lparr>acc_password := snd (encryptTest H enc (salt a @ password) (acc_password a))\<rparr> else a)
           in if \<not> loaded \<or> (number a \<noteq> 10 \<and> \<not> fst (encryptTest H enc (salt a @ password) (acc_password a)))
              then (Refuse ''Invalid account name or password.'',
                    addAttempt (e_config env) (e_time env) clientIp protocolId False cm, cache, db)
              else
                let ((banned, b), db) =
                      getBanishment env (new_ban\<lparr>ban_target := show_nat (unat (number a)), ban_type := BAN_ACCOUNT\<rparr>) db
                in if banned then
                     (let (by_name, cache, db) = banner_name env b cache db
                      in (Refuse (ban_message b by_name), cm, cache, db))
                   else
                     let (a, db) = updatePremium env a db
                     in if number a \<noteq> 10 \<and> charList a = []
                        then (Refuse (''This account does not contain any character for this client yet.'' @ newline_str
                                @ ''Create a new character on the '' @ getString SERVER_NAME (e_config env)
                                @ '' website at '' @ getString URL (e_config env) @ ''.''), cm, cache, db)
                        else (Accept a, addAttempt (e_config env) (e_time env) clientIp protocolId True cm, cache, db))"

section \<open>The reply\<close>

text \<open>\<open>sprintf\<close> into \<open>char motd[1300]\<close>; a longer text overflows the array.\<close>

definition motd_field :: "config \<Rightarrow> string option" where
  "motd_field cfg =
     (let s = show_int (to_i32 (getNumber MOTD_ID cfg)) @ newline_str @ c_str (getString MOTD_TEXT cfg)
      in if length s < 1300 then Some s else None)"

definition pick_port :: "int \<times> int \<Rightarrow> world \<Rightarrow> u16 option" where
  "pick_port r w =
     (let i = random_range (fst r) (snd r) 0 (int (length (w_ports w)) - 1)
      in if 0 \<le> i \<and> nat i < length (w_ports w) then Some (u16_of_int (w_ports w ! nat i)) else None)"

definition character_fields :: "config \<Rightarrow> int \<times> int \<Rightarrow> character \<Rightarrow> msg_field list option" where
  "character_fields cfg r c = do {
     port \<leftarrow> pick_port r (ch_server c);
     Some [FStr (ch_name c),
           FStr (if \<not> getBool ON_OR_OFF_CHARLIST cfg \<or> ch_status c < 0 then w_name (ch_server c)
                 else if ch_status c \<noteq> 0 then ''Online'' else ''Offline''),
           FU32 (w_address (ch_server c)), FU16 port]
   }"

text \<open>The loop over the entries of a list, the \<open>i\<close>-th one with the \<open>i\<close>-th random numbers.\<close>

fun each_fields ::
  "(nat \<Rightarrow> int \<times> int) \<Rightarrow> (int \<times> int \<Rightarrow> 'c \<Rightarrow> msg_field list option) \<Rightarrow> nat \<Rightarrow> 'c list \<Rightarrow> msg_field list option" where
  "each_fields rnd f i [] = Some []"
| "each_fields rnd f i (c # cs) = do {
     x \<leftarrow> f (rnd i) c;
     xs \<leftarrow> each_fields rnd f (Suc i) cs;
     Some (x @ xs)
   }"

text \<open>The list of broadcasting players that the account 10 gets.\<close>

record cast_entry =
  ce_name :: string
  ce_star :: bool
  ce_world :: world
  ce_level :: int

definition load_cast :: "worlds \<Rightarrow> db_result \<Rightarrow> (string \<times> cast_entry) list \<Rightarrow> (string \<times> cast_entry) list" where
  "load_cast ws r tmp =
     (let t = (word_of_int (getDataInt ''broadcasting'' r) :: u8)
      in case getFirstWorld ws of
           Some w \<Rightarrow> if t AND 1 = 1
             then omap_put (getDataString ''name'' r)
               \<lparr>ce_name = getDataString ''name'' r, ce_star = (t AND 2 = 2), ce_world = w, ce_level = getDataInt ''level'' r\<rparr> tmp
             else tmp
         | None \<Rightarrow> tmp)"

definition cast_fields :: "int \<times> int \<Rightarrow> cast_entry \<Rightarrow> msg_field list option" where
  "cast_fields r c = do {
     port \<leftarrow> pick_port r (ce_world c);
     Some [FStr (ce_name c), FStr (show_int (ce_level c) @ (if ce_star c then ''*'' else [])),
           FU32 (w_address (ce_world c)), FU16 port]
   }"

definition cast_query :: string where
  "cast_query = ''SELECT `name`, `level`, `broadcasting` FROM `players` WHERE `broadcasting` > 0''"

definition reply_list ::
  "'s env \<Rightarrow> (nat \<Rightarrow> int \<times> int) \<Rightarrow> account \<Rightarrow> 's database \<Rightarrow> (msg_field list \<times> 's database) option" where
  "reply_list env rnd a db =
     (if number a = 10 then
        (case io_store env cast_query (io_local env db) of
           (None, db) \<Rightarrow> Some ([FU8 0], db)
         | (Some r, db) \<Rightarrow> do {
             let tmp = result_loop (load_cast (e_worlds env)) r [];
             fs \<leftarrow> each_fields rnd cast_fields 0 (map snd tmp);
             Some (FU8 (of_nat (length tmp)) # fs, db)
           })
      else do {
        fs \<leftarrow> each_fields rnd (character_fields (e_config env)) 0 (map snd (charList a));
        Some (FU8 (of_nat (length (charList a))) # fs, db)
      })"

definition reply_fields ::
  "'s env \<Rightarrow> (nat \<Rightarrow> int \<times> int) \<Rightarrow> account \<Rightarrow> 's database \<Rightarrow> (msg_field list \<times> 's database) option" where
  "reply_fields env rnd a db = do {
     motd \<leftarrow> motd_field (e_config env);
     (fs, db) \<leftarrow> reply_list env rnd a db;
     Some ([FU8 0x14, FStr motd, FU8 0x64] @ fs
           @ [FU16 (if getBool FREE_PREMIUM (e_config env) then of_nat GRATIS_PREMIUM else premiumDays a)], db)
   }"

definition delegate ::
  "'s env \<Rightarrow> hash_functions \<Rightarrow> (nat \<Rightarrow> int \<times> int) \<Rightarrow> nat \<Rightarrow> string \<Rightarrow> string \<Rightarrow> u32 \<Rightarrow>
   net \<times> (u32 \<rightharpoonup> string) \<times> 's database \<Rightarrow> (net \<times> (u32 \<rightharpoonup> string) \<times> 's database) option" where
  "delegate env H rnd p name password clientIp st =
     (let (n, cache, db) = st;
          (d, cm, cache, db) = delegate_decide env H name password clientIp (n_cm n) cache db;
          n = n\<lparr>n_cm := cm\<rparr>
      in case d of
           Refuse message \<Rightarrow> do {
             n \<leftarrow> disconnectClient (e_config env) p 0x0A message n;
             Some (n, cache, db)
           }
         | Accept a \<Rightarrow> do {
             (output, n) \<leftarrow> pool_getOutputMessage p False n;
             (n, db) \<leftarrow> (case output of
                 None \<Rightarrow> Some (n, db)
               | Some m \<Rightarrow> do {
                   (content, db) \<leftarrow> reply_fields env rnd a db;
                   n \<leftarrow> send_fields (e_config env) m content n;
                   Some (n, db)
                 });
             n \<leftarrow> close_own_connection p n;
             Some (n, cache, db)
           })"

section \<open>What a login reply puts onto the wire\<close>

text \<open>
  The situation in which the login protocol answers: the protocol \<open>p\<close> is bound to the open,
  idle connection \<open>h\<close>, the pool runs, and the messages of its free list have been reset by
  \<open>freeMessage\<close>.
\<close>

definition reply_ready :: "nat \<Rightarrow> protocol \<Rightarrow> nat \<Rightarrow> net \<Rightarrow> bool" where
  "reply_ready p pr h n \<longleftrightarrow>
     n_protos n p = Some pr \<and> pr_connection pr = Some h \<and> \<not> m_rawMessages pr \<and>
     cn_state (n_conns n h) = CONNECTION_STATE_OPEN \<and> \<not> cn_writeError (n_conns n h) \<and> cn_pendingWrite (n_conns n h) = 0 \<and>
     \<not> p_shutdown n \<and>
     (\<forall>m \<in> set (p_free n). length (m_buffer (n_msgs n m)) = NETWORK_MAX_SIZE \<and> m_outputBufferStart (n_msgs n m) = 8)"

lemma reply_ready_cm [simp]: "reply_ready p pr h (n\<lparr>n_cm := cm\<rparr>) = reply_ready p pr h n"
  by (simp add: reply_ready_def)

lemma reset_open:
  assumes "length (m_buffer om) = NETWORK_MAX_SIZE" and "m_outputBufferStart om = 8"
  shows "om_open [] (msg_reset (of_nat NETWORK_CRYPTOHEADER_SIZE) om)"
  using assms by (simp add: om_open_def om_holds_def msg_reset_def layout)

lemma configureOutputMessage_ready:
  assumes "n_protos n p = Some pr" and "pr_connection pr = Some h"
    and "length (m_buffer (n_msgs n m)) = NETWORK_MAX_SIZE" and "m_outputBufferStart (n_msgs n m) = 8"
  obtains n1 where "pool_configureOutputMessage m p False n = Some n1" "om_open [] (n_msgs n1 m)"
    "m_state (n_msgs n1 m) = STATE_ALLOCATED_NO_AUTOSEND" "m_protocol (n_msgs n1 m) = Some p" "m_connection (n_msgs n1 m) = Some h"
    "n_protos n1 p = Some (pr\<lparr>pr_refCount := pr_refCount pr + 1\<rparr>)" "n_io n1 = n_io n" "n_cm n1 = n_cm n"
    "n_conns n1 = (n_conns n)(h := (n_conns n h)\<lparr>cn_refCount := cn_refCount (n_conns n h) + 1\<rparr>)"
    "queues n1 = queues n"
proof -
  have open': "om_open [] (msg_reset (of_nat NETWORK_CRYPTOHEADER_SIZE) (n_msgs n m))"
    by (rule reset_open) fact+
  define om where "om = (msg_reset (of_nat NETWORK_CRYPTOHEADER_SIZE) (n_msgs n m))\<lparr>m_state := STATE_ALLOCATED_NO_AUTOSEND,
      m_protocol := Some p, m_frame := p_frameTime n, m_connection := Some h\<rparr>"
  define n1 where "n1 = n\<lparr>n_protos := (n_protos n)(p \<mapsto> pr\<lparr>pr_refCount := pr_refCount pr + 1\<rparr>), n_msgs := (n_msgs n)(m := om),
      n_conns := (n_conns n)(h := (n_conns n h)\<lparr>cn_refCount := cn_refCount (n_conns n h) + 1\<rparr>)\<rparr>"
  have run: "pool_configureOutputMessage m p False n = Some n1"
    using assms(1,2) by (simp add: pool_configureOutputMessage_def upd_msg_def upd_conn_def upd_proto_def Let_def n1_def om_def)
  show ?thesis
    by (rule that [OF run]) (use open' in \<open>simp_all add: n1_def om_def om_open_def om_holds_def\<close>)
qed

lemma getOutputMessage_ready:
  assumes "reply_ready p pr h n"
  obtains m n1 where "pool_getOutputMessage p False n = Some (Some m, n1)" "om_open [] (n_msgs n1 m)"
    "m_state (n_msgs n1 m) = STATE_ALLOCATED_NO_AUTOSEND" "m_protocol (n_msgs n1 m) = Some p" "m_connection (n_msgs n1 m) = Some h"
    "n_protos n1 p = Some (pr\<lparr>pr_refCount := pr_refCount pr + 1\<rparr>)" "n_io n1 = n_io n" "n_cm n1 = n_cm n"
    "n_conns n1 = (n_conns n)(h := (n_conns n h)\<lparr>cn_refCount := cn_refCount (n_conns n h) + 1\<rparr>)" "queues n1 = queues n"
proof -
  define n0 where "n0 = (if p_free n = []
      then n\<lparr>n_msgs := (n_msgs n)(n_nextMsg n := new_output_message), n_nextMsg := n_nextMsg n + 1, p_free := [n_nextMsg n]\<rparr>
      else n)"
  define m where "m = last (p_free n0)"
  define n0' where "n0' = n0\<lparr>p_free := butlast (p_free n0)\<rparr>"
  have ready: "n_protos n p = Some pr" "pr_connection pr = Some h" "\<not> p_shutdown n" using assms by (simp_all add: reply_ready_def)
  have msg: "length (m_buffer (n_msgs n0' m)) = NETWORK_MAX_SIZE \<and> m_outputBufferStart (n_msgs n0' m) = 8"
    using assms by (auto simp: n0'_def n0_def m_def reply_ready_def new_output_message_def om_freeMessage_def layout)
  have same: "n_protos n0' = n_protos n" "n_io n0' = n_io n" "n_cm n0' = n_cm n" "n_conns n0' = n_conns n" "queues n0' = queues n"
    by (simp_all add: n0'_def n0_def)
  have "n_protos n0' p = Some pr" using ready same by simp
  from configureOutputMessage_ready [OF this ready(2) conjunct1 [OF msg] conjunct2 [OF msg]]
  obtain n1 where n1: "pool_configureOutputMessage m p False n0' = Some n1" "om_open [] (n_msgs n1 m)"
    "m_state (n_msgs n1 m) = STATE_ALLOCATED_NO_AUTOSEND" "m_protocol (n_msgs n1 m) = Some p" "m_connection (n_msgs n1 m) = Some h"
    "n_protos n1 p = Some (pr\<lparr>pr_refCount := pr_refCount pr + 1\<rparr>)" "n_io n1 = n_io n0'" "n_cm n1 = n_cm n0'"
    "n_conns n1 = (n_conns n0')(h := (n_conns n0' h)\<lparr>cn_refCount := cn_refCount (n_conns n0' h) + 1\<rparr>)" "queues n1 = queues n0'" by metis
  have "pool_getOutputMessage p False n = Some (Some m, n1)"
    using ready n1(1) by (simp add: pool_getOutputMessage_def Let_def n0_def [symmetric] m_def [symmetric] n0'_def [symmetric])
  then show ?thesis using that n1 same by simp
qed

lemma send_fields_frame:
  assumes open': "om_open [] (n_msgs n m)" and state: "m_state (n_msgs n m) = STATE_ALLOCATED_NO_AUTOSEND"
    and proto: "m_protocol (n_msgs n m) = Some p" "n_protos n p = Some pr" "\<not> m_rawMessages pr"
    and conn: "m_connection (n_msgs n m) = Some h" "cn_state (n_conns n h) = CONNECTION_STATE_OPEN"
      "\<not> cn_writeError (n_conns n h)" "cn_pendingWrite (n_conns n h) = 0"
    and content: "\<forall>f \<in> set content. field_ok f" "length (fields_bytes content) + 15 < NETWORK_BODY_SIZE"
  obtains n' pr' where "send_fields cfg m content n = Some n'"
    "n_io n' = n_io n @ [Write h m (wire_frame pr (fields_bytes content))]" "n_cm n' = n_cm n"
    "n_conns n' = (n_conns n)(h := (n_conns n h)\<lparr>cn_pendingWrite := 1, cn_writeTimer := True\<rparr>)"
    "n_protos n' p = Some pr'" "pr_connection pr' = pr_connection pr" "queues n' = queues n"
proof -
  define om where "om = msg_append (fields_bytes content) (n_msgs n m)"
  have pos: "unat (m_position (n_msgs n m)) = 8" using open' by (simp add: om_open_def)
  have fits: "msg_fits (length (fields_bytes content)) (n_msgs n m)" using content(2) by (simp add: msg_fits_def pos layout)
  have put: "put_fields content (n_msgs n m) = Some om"
    unfolding om_def by (rule put_fields_append [OF om_open_wf [OF open'] content(1) fits])
  have om: "om_open (fields_bytes content) om" using om_open_append [OF open' fits] by (simp add: om_def)
  define n1 where "n1 = upd_msg m (\<lambda>_. om) n"
  have om1: "n_msgs n1 m = om" "n_protos n1 p = Some pr" "n_conns n1 = n_conns n" "n_io n1 = n_io n" "n_cm n1 = n_cm n" "queues n1 = queues n"
    using proto(2) by (simp_all add: n1_def upd_msg_def)
  have attrs: "m_state om = m_state (n_msgs n m)" "m_protocol om = m_protocol (n_msgs n m)" "m_connection om = m_connection (n_msgs n m)"
    by (simp_all add: om_def msg_append_def)
  have room: "unat (m_position (n_msgs n1 m)) + 7 < NETWORK_BODY_SIZE" using om content(2) by (simp add: om1 om_open_def)
  from conn_send_frame [of n1 p pr m "fields_bytes content" h cfg] om om1 room proto conn attrs
  obtain n' pr' where n': "conn_send cfg h m n1 = Some (True, n')" "n_io n' = n_io n @ [Write h m (wire_frame pr (fields_bytes content))]"
    "n_conns n' = (n_conns n)(h := (n_conns n h)\<lparr>cn_pendingWrite := 1, cn_writeTimer := True\<rparr>)"
    "n_protos n' p = Some pr'" "pr_connection pr' = pr_connection pr" "n_cm n' = n_cm n" "queues n' = queues n"
    by (metis (no_types, lifting))
  have "pool_send cfg m n1 = Some n'"
    using n'(1) attrs state conn(1) by (simp add: pool_send_def pool_deliver_def om1)
  then have "send_fields cfg m content n = Some n'"
    using put n'(2) om1(4) by (simp add: send_fields_def end_of_scope_def n1_def [symmetric])
  then show ?thesis using that n' by blast
qed

lemma close_own_connection_open:
  assumes "n_protos n p = Some pr" and "pr_connection pr = Some h" and "cn_state (n_conns n h) = CONNECTION_STATE_OPEN"
  obtains n' where "close_own_connection p n = Some n'" "n_io n' = n_io n" "n_cm n' = n_cm n"
    "cn_state (n_conns n' h) = CONNECTION_STATE_REQUEST_CLOSE" "queues n' = queues n"
proof -
  have "close_own_connection p n = Some (conn_close h n)" using assms(1,2) by (simp add: close_own_connection_def)
  then show ?thesis using that assms(3) by (simp add: net_simps)
qed

text \<open>The whole answer: take a message, fill it, send it, close the connection.\<close>

lemma answer_ready:
  assumes ready: "reply_ready p pr h n"
    and content: "\<forall>f \<in> set content. field_ok f" "length (fields_bytes content) + 15 < NETWORK_BODY_SIZE"
  obtains m n1 n2 n' where "pool_getOutputMessage p False n = Some (Some m, n1)" "send_fields cfg m content n1 = Some n2"
    "close_own_connection p n2 = Some n'" "n_io n' = n_io n @ [Write h m (wire_frame pr (fields_bytes content))]"
    "n_cm n' = n_cm n" "cn_state (n_conns n' h) = CONNECTION_STATE_REQUEST_CLOSE" "queues n' = queues n"
proof -
  from getOutputMessage_ready [OF ready] obtain m n1 where n1: "pool_getOutputMessage p False n = Some (Some m, n1)"
    and open1: "om_open [] (n_msgs n1 m)" "m_state (n_msgs n1 m) = STATE_ALLOCATED_NO_AUTOSEND"
    and proto1: "m_protocol (n_msgs n1 m) = Some p" "n_protos n1 p = Some (pr\<lparr>pr_refCount := pr_refCount pr + 1\<rparr>)"
    and conn1: "m_connection (n_msgs n1 m) = Some h" "n_conns n1 = (n_conns n)(h := (n_conns n h)\<lparr>cn_refCount := cn_refCount (n_conns n h) + 1\<rparr>)"
    and same1: "n_io n1 = n_io n" "n_cm n1 = n_cm n" "queues n1 = queues n" by metis
  define pr1 where "pr1 = pr\<lparr>pr_refCount := pr_refCount pr + 1\<rparr>"
  have pr1: "\<not> m_rawMessages pr1" "pr_connection pr1 = Some h" "wire_frame pr1 = wire_frame pr" "n_protos n1 p = Some pr1"
    using ready proto1(2) by (auto simp: pr1_def reply_ready_def wire_frame_def cipher_frame_def)
  have state1: "cn_state (n_conns n1 h) = CONNECTION_STATE_OPEN" "\<not> cn_writeError (n_conns n1 h)" "cn_pendingWrite (n_conns n1 h) = 0"
    using ready conn1(2) by (simp_all add: reply_ready_def)
  from send_fields_frame [OF open1 proto1(1) pr1(4,1) conn1(1) state1 content]
  obtain n2 pr2 where n2: "send_fields cfg m content n1 = Some n2"
    "n_io n2 = n_io n1 @ [Write h m (wire_frame pr1 (fields_bytes content))]" "n_cm n2 = n_cm n1"
    and conns2: "n_conns n2 = (n_conns n1)(h := (n_conns n1 h)\<lparr>cn_pendingWrite := 1, cn_writeTimer := True\<rparr>)"
    and pr2: "n_protos n2 p = Some pr2" "pr_connection pr2 = pr_connection pr1" and queues2: "queues n2 = queues n1" by metis
  have "pr_connection pr2 = Some h" "cn_state (n_conns n2 h) = CONNECTION_STATE_OPEN" using pr2 pr1 conns2 state1 by simp_all
  from close_own_connection_open [OF pr2(1) this]
  obtain n' where "close_own_connection p n2 = Some n'" "n_io n' = n_io n2" "n_cm n' = n_cm n2"
    "cn_state (n_conns n' h) = CONNECTION_STATE_REQUEST_CLOSE" "queues n' = queues n2" by metis
  then show ?thesis using that n1 n2 same1 pr1(3) queues2 by simp
qed

section \<open>Properties of the login\<close>

text \<open>The content of the answer, by the decision.\<close>

definition login_reply :: "'s env \<Rightarrow> (nat \<Rightarrow> int \<times> int) \<Rightarrow> decision \<Rightarrow> 's database \<Rightarrow> (msg_field list \<times> 's database) option" where
  "login_reply env rnd d db =
     (case d of Refuse message \<Rightarrow> Some ([FU8 0x0A, FStr (c_str message)], db) | Accept a \<Rightarrow> reply_fields env rnd a db)"

lemma delegate_answer:
  assumes ready: "reply_ready p pr h n"
    and decided: "delegate_decide env H name password clientIp (n_cm n) cache db = (d, cm1, cache1, db1)"
    and reply: "login_reply env rnd d db1 = Some (content, db2)"
    and fits: "\<forall>f \<in> set content. field_ok f" "length (fields_bytes content) + 15 < NETWORK_BODY_SIZE"
  shows "\<exists>n' m. delegate env H rnd p name password clientIp (n, cache, db) = Some (n', cache1, db2) \<and>
     n_io n' = n_io n @ [Write h m (wire_frame pr (fields_bytes content))] \<and> n_cm n' = cm1 \<and>
     cn_state (n_conns n' h) = CONNECTION_STATE_REQUEST_CLOSE \<and> queues n' = queues n"
proof -
  from answer_ready [where cfg = "e_config env", OF _ fits, of p pr h "n\<lparr>n_cm := cm1\<rparr>"] ready
  obtain m n1 n2 n' where run: "pool_getOutputMessage p False (n\<lparr>n_cm := cm1\<rparr>) = Some (Some m, n1)"
    "send_fields (e_config env) m content n1 = Some n2" "close_own_connection p n2 = Some n'"
    and res: "n_io n' = n_io (n\<lparr>n_cm := cm1\<rparr>) @ [Write h m (wire_frame pr (fields_bytes content))]"
    "n_cm n' = n_cm (n\<lparr>n_cm := cm1\<rparr>)" "cn_state (n_conns n' h) = CONNECTION_STATE_REQUEST_CLOSE" "queues n' = queues (n\<lparr>n_cm := cm1\<rparr>)"
    by (metis reply_ready_cm)
  have "delegate env H rnd p name password clientIp (n, cache, db) = Some (n', cache1, db2)"
    using decided reply run by (cases d) (simp_all add: delegate_def disconnectClient_def login_reply_def)
  then show ?thesis using res by auto
qed

text \<open>C3. Every login is answered once: with the protocol bound to an open, idle connection, the delegated
  login task returns, has put exactly one frame onto the wire, whose body is the refusal
  (\<open>0x0A\<close> and the message) or the character list of the decision, and has asked for the
  connection to be closed. The attempts are those the decision recorded.\<close>

theorem delegate_answers_once:
  assumes ready: "reply_ready p pr h n"
    and decided: "delegate_decide env H name password clientIp (n_cm n) cache db = (d, cm1, cache1, db1)"
    and reply: "login_reply env rnd d db1 = Some (content, db2)"
    and fits: "\<forall>f \<in> set content. field_ok f" "length (fields_bytes content) + 15 < NETWORK_BODY_SIZE"
  shows "\<exists>n' m. delegate env H rnd p name password clientIp (n, cache, db) = Some (n', cache1, db2) \<and>
     n_io n' = n_io n @ [Write h m (wire_frame pr (fields_bytes content))] \<and> n_cm n' = cm1 \<and>
     cn_state (n_conns n' h) = CONNECTION_STATE_REQUEST_CLOSE"
  using delegate_answer [OF assms] by blast

text \<open>What has to hold for an account to be let in, over the state in which each question is asked.\<close>

definition may_enter :: "'s env \<Rightarrow> hash_functions \<Rightarrow> string \<Rightarrow> string \<Rightarrow> u32 \<Rightarrow> 's database \<Rightarrow> bool" where
  "may_enter env H name password clientIp db =
     (let db0 = snd (checkBanishments env db);
          (ipBanned, db1) = isIpBanished env clientIp db0;
          ((loaded, a), db2) = loadAccount env name new_account db1;
          ((banned, b), db3) = getBanishment env (new_ban\<lparr>ban_target := show_nat (unat (number a)), ban_type := BAN_ACCOUNT\<rparr>) db2
      in \<not> ipBanned \<and> loaded \<and>
         (number a = 10 \<or> encrypt H (getNumber ENCRYPTION (e_config env)) (salt a @ password) True = map upchar (acc_password a)) \<and>
         \<not> banned \<and> (number a = 10 \<or> charList a \<noteq> []))"

lemma upchar_idem [simp]: "upchar (upchar c) = upchar c"
proof -
  obtain k where k: "c = char_of (k :: nat)" "k < 256"
    by (metis char_of_char nat_of_char_less_256)
  then show ?thesis by (auto simp: upchar_def schar_def Let_def)
qed

lemma encryptTest_twice:
  "fst (encryptTest H enc plain (snd (encryptTest H enc plain hash))) = (encrypt H enc plain True = map upchar hash)"
  by (simp add: encryptTest_def Let_def comp_def)

lemma updatePremium_keeps:
  "updatePremium env a db = (a', db') \<Longrightarrow> number a' = number a \<and> charList a' = charList a"
  by (auto simp: updatePremium_def premium_step_def Let_def split: prod.splits if_splits)

definition wrong_credentials :: "'s env \<Rightarrow> hash_functions \<Rightarrow> string \<Rightarrow> string \<Rightarrow> u32 \<Rightarrow> 's database \<Rightarrow> bool" where
  "wrong_credentials env H name password clientIp db =
     (let (ipBanned, db1) = isIpBanished env clientIp (snd (checkBanishments env db));
          ((loaded, a), db2) = loadAccount env name new_account db1
      in \<not> ipBanned \<and>
         (\<not> loaded \<or>
          number a \<noteq> 10 \<and> encrypt H (getNumber ENCRYPTION (e_config env)) (salt a @ password) True \<noteq> map upchar (acc_password a)))"

text \<open>C1. Who is let in: a login ends with a character list exactly when the address is not banished,
  the account exists, the digest of the salted password is the stored one up to letter case
  (not asked for the broadcast account 10), the account is not banished, and it has a
  character or is the account 10. In every other case the client is refused. The attempt
  counter of the address hears of each accepted login and of each wrong name or password.\<close>

theorem login_accepted_iff:
  "((\<exists>a. fst (delegate_decide env H name password clientIp cm cache db) = Accept a) \<longleftrightarrow>
      may_enter env H name password clientIp db) \<and>
   fst (snd (delegate_decide env H name password clientIp cm cache db)) =
     (if may_enter env H name password clientIp db then addAttempt (e_config env) (e_time env) clientIp protocolId True cm
      else if wrong_credentials env H name password clientIp db
      then addAttempt (e_config env) (e_time env) clientIp protocolId False cm else cm)"
proof -
  obtain x db1 where ip: "isIpBanished env clientIp (snd (checkBanishments env db)) = (x, db1)" by fastforce
  obtain loaded a db2 where ld: "loadAccount env name new_account db1 = ((loaded, a), db2)" by (metis prod.collapse)
  obtain banned b db3 where bn: "getBanishment env (new_ban\<lparr>ban_target := show_nat (unat (number a)), ban_type := BAN_ACCOUNT\<rparr>) db2 =
      ((banned, b), db3)" by (metis prod.collapse)
  define a1 where "a1 = (if loaded \<and> number a \<noteq> 10
      then a\<lparr>acc_password := snd (encryptTest H (getNumber ENCRYPTION (e_config env)) (salt a @ password) (acc_password a))\<rparr> else a)"
  obtain a2 db4 where up: "updatePremium env a1 db3 = (a2, db4)" by fastforce
  obtain nm cache5 db5 where nm: "banner_name env b cache db3 = (nm, cache5, db5)" by (metis prod.collapse)
  have a1: "number a1 = number a" "charList a1 = charList a" by (simp_all add: a1_def)
  have test: "loaded \<Longrightarrow> number a \<noteq> 10 \<Longrightarrow> fst (encryptTest H (getNumber ENCRYPTION (e_config env)) (salt a1 @ password) (acc_password a1)) =
      (encrypt H (getNumber ENCRYPTION (e_config env)) (salt a @ password) True = map upchar (acc_password a))"
    by (simp add: a1_def encryptTest_twice)
  have keeps: "number a2 = number a" "charList a2 = charList a" using updatePremium_keeps [OF up] a1 by simp_all
  show ?thesis
    unfolding delegate_decide_def may_enter_def wrong_credentials_def ip ld prod.case Let_def fst_conv snd_conv a1_def [symmetric] a1(1) bn up nm
    using keeps test by (cases "loaded \<and> number a \<noteq> 10") (auto simp: bn up nm)
qed

text \<open>A server that knows the account 10 and has no ban.\<close>

definition login_mysql :: "nat mysql" where
  "login_mysql = \<lparr>my_connect = \<lambda>p s. (True, s), my_close = \<lambda>s. s,
     my_execute = \<lambda>q s. (Some \<lparr>res_meta = [''id''],
       res_rows = (if take 8 q = ''SELECT *'' then [] else [[FInt64 10]]), res_last_insert_id = 0\<rparr>, s)\<rparr>"

definition login_env :: "config \<Rightarrow> nat env" where
  "login_env cfg = demo_env\<lparr>e_ext := login_mysql, e_config := cfg\<rparr>"

definition login_net :: net where
  "login_net = demo_net\<lparr>n_protos := [2 \<mapsto> new_login_protocol (Some 4)]\<rparr>"

definition login_db :: "nat database" where
  "login_db = (new_database 0)\<lparr>m_connected := True, m_use := 5\<rparr>"

definition login_row :: db_result where
  "login_row = at_row \<lparr>res_meta = [''id''], res_rows = [[FInt64 10]], res_last_insert_id = 0\<rparr> 1"

lemma login_net_ready: "reply_ready 2 (new_login_protocol (Some 4)) 4 login_net"
  by (simp add: reply_ready_def login_net_def new_login_protocol_def new_protocol_def demo_net_def new_connection_def)

lemma login_env_queries:
  "io_local (login_env cfg) login_db = login_db"
  "io_store (login_env cfg) q login_db = (if take 8 q = ''SELECT *'' then None else Some login_row, login_db)"
  "io_query (login_env cfg) q login_db = (True, login_db)"
  by (simp_all add: io_local_def db_local_def io_store_def io_query_def db_query_def db_storeQuery_def db_execute_def login_env_def
      demo_env_def login_mysql_def verifyResult_rows login_row_def login_db_def new_database_def)

lemma login_row_fields:
  "getDataInt ''id'' login_row = 10" "getDataInt ''premium_days'' login_row = 0" "getDataInt ''lastday'' login_row = 0"
  "getDataInt ''broadcasting'' login_row = 0"
  by (simp_all add: login_row_def at_row_def getDataInt_def result_field_def new_db_result_def to_i32_def Let_def)

lemma login_loads:
  "\<exists>a. loadAccount (login_env cfg) ''10'' new_account login_db = ((True, a), login_db) \<and> number a = 10 \<and> premiumDays a = 0 \<and> lastDay a = 0"
  by (simp add: loadAccount_def login_env_queries account_query_def players_query_def read_account_def login_row_fields Let_def u32_of_int_def u16_of_int_def)

lemma login_not_banned: "isIpBanished (login_env cfg) ip login_db = (False, login_db)"
proof -
  have "getDataString ''target'' login_row = []" by (simp add: login_row_def at_row_def getDataString_def result_field_def new_db_result_def)
  moreover have "convertIPAddress ip \<noteq> []" by (simp add: convertIPAddress_def)
  ultimately have "(\<lambda>r found. found \<or> getDataString ''target'' r = convertIPAddress ip) login_row False = False" by simp
  then have "result_loop (\<lambda>r found. found \<or> getDataString ''target'' r = convertIPAddress ip) login_row False = False"
    using result_loop_rows [of 1 "\<lparr>res_meta = [''id''], res_rows = [[FInt64 10]], res_last_insert_id = 0\<rparr>"
        "\<lambda>r found. found \<or> getDataString ''target'' r = convertIPAddress ip" False]
    by (simp add: login_row_def)
  then show ?thesis by (simp add: isIpBanished_def login_env_queries)
qed

lemma login_decides:
  "\<exists>a cm1. delegate_decide (login_env cfg) H ''10'' password ip cm cache login_db = (Accept a, cm1, cache, login_db) \<and> number a = 10 \<and> premiumDays a = 0"
proof -
  obtain a where a: "loadAccount (login_env cfg) ''10'' new_account login_db = ((True, a), login_db)" "number a = 10" "premiumDays a = 0" "lastDay a = 0"
    using login_loads by blast
  then have "updatePremium (login_env cfg) a login_db = (a, login_db)"
    by (simp add: updatePremium_def premium_step_def login_env_def demo_env_def)
  then show ?thesis
    using a by (simp add: delegate_decide_def checkBanishments_def login_not_banned getBanishment_def ban_query_def login_env_queries Let_def)
qed

lemma login_cast: "result_loop (load_cast ws) login_row [] = []"
proof -
  have "load_cast ws login_row [] = []" by (simp add: load_cast_def login_row_fields Let_def split: option.splits)
  then show ?thesis
    using result_loop_rows [of 1 "\<lparr>res_meta = [''id''], res_rows = [[FInt64 10]], res_last_insert_id = 0\<rparr>" "load_cast ws" "[]"]
    by (simp add: login_row_def)
qed

lemma login_content:
  assumes "number a = 10" and "premiumDays a = 0"
    and "getNumber MOTD_ID cfg = 0" and "getString MOTD_TEXT cfg = []" and "\<not> getBool FREE_PREMIUM cfg"
  shows "login_reply (login_env cfg) rnd (Accept a) login_db =
     Some ([FU8 0x14, FStr (''0'' @ newline_str), FU8 0x64, FU8 0, FU16 0], login_db)"
proof -
  have "motd_field cfg = Some (''0'' @ newline_str)"
    using assms(3,4) by (simp add: motd_field_def show_int_def show_nat.simps digit_char_def to_i32_def
        char_of_def bit_Suc_0_iff c_str_def newline_str_def)
  moreover have "reply_list (login_env cfg) rnd a login_db = Some ([FU8 0], login_db)"
    using assms by (simp add: reply_list_def login_env_queries cast_query_def login_cast)
  moreover have "e_config (login_env cfg) = cfg" by (simp add: login_env_def)
  ultimately show ?thesis using assms by (simp add: login_reply_def reply_fields_def)
qed

lemma login_config:
  "getNumber MOTD_ID (new_config (\<lambda>_. False) (\<lambda>_. 4)) = 0" "getString MOTD_TEXT (new_config (\<lambda>_. False) (\<lambda>_. 4)) = []"
  "\<not> getBool FREE_PREMIUM (new_config (\<lambda>_. False) (\<lambda>_. 4))"
  by (simp_all add: getNumber_def getString_def getBool_def new_config_def)

lemma le_encode_2: "le_encode 2 w = [ucast w, ucast (drop_bit 8 w)]"
  by (simp add: numeral_2_eq_2)

definition plain_hash :: hash_functions where
  "plain_hash = \<lparr>MD5 = id, SHA1 = id, SHA256 = id, SHA512 = id\<rparr>"

theorem delegate_answers_once_witness:
  "\<exists>n' m cache db'. delegate (login_env (new_config (\<lambda>_. False) (\<lambda>_. 4))) plain_hash (\<lambda>_. (0, 0)) 2 ''10'' ''secret'' 0 (login_net, Map.empty, login_db) =
       Some (n', cache, db') \<and>
     n_io n' = [Write 4 m (wire_frame (new_login_protocol (Some 4)) [0x14, 2, 0, 0x30, 0x0A, 0x64, 0, 0, 0])]"
proof -
  let ?env = "login_env (new_config (\<lambda>_. False) (\<lambda>_. 4))"
  let ?content = "[FU8 0x14, FStr (''0'' @ newline_str), FU8 0x64, FU8 0, FU16 0]"
  obtain a cm1 where d: "delegate_decide ?env plain_hash ''10'' ''secret'' 0 (n_cm login_net) Map.empty login_db = (Accept a, cm1, Map.empty, login_db)"
    "number a = 10" "premiumDays a = 0" using login_decides by blast
  have bytes: "fields_bytes ?content = [0x14, 2, 0, 0x30, 0x0A, 0x64, 0, 0, 0]"
    by (simp add: fields_bytes_def string_field_def bytes_of_string_def newline_str_def byte_of_char_def le_encode_2)
  have "\<forall>f \<in> set ?content. field_ok f" "length (fields_bytes ?content) + 15 < NETWORK_BODY_SIZE"
    unfolding bytes by (simp_all add: layout newline_str_def)
  from delegate_answers_once [OF login_net_ready d(1) login_content [OF d(2,3) login_config] this]
  show ?thesis unfolding bytes by (simp add: login_net_def demo_net_def) blast
qed

text \<open>The limit of the message of the day: an accepted login formats it with \<open>sprintf\<close> into an array of
  1300 bytes, so a text that is longer, with the number in front of it, overflows the stack
  buffer for every client that logs in.\<close>

theorem motd_overflows_buffer:
  assumes "reply_ready p pr h n"
    and "delegate_decide env H name password clientIp (n_cm n) cache db = (Accept a, cm1, cache1, db1)"
    and "1300 \<le> length (show_int (to_i32 (getNumber MOTD_ID (e_config env)))) + 1 + length (c_str (getString MOTD_TEXT (e_config env)))"
  shows "delegate env H rnd p name password clientIp (n, cache, db) = None"
proof -
  obtain m n1 where "pool_getOutputMessage p False (n\<lparr>n_cm := cm1\<rparr>) = Some (Some m, n1)"
    using getOutputMessage_ready [of p pr h "n\<lparr>n_cm := cm1\<rparr>"] assms(1) by (metis reply_ready_cm)
  moreover have "motd_field (e_config env) = None" using assms(3) by (simp add: motd_field_def newline_str_def Let_def)
  ultimately show ?thesis using assms(2) by (simp add: delegate_def reply_fields_def)
qed

theorem motd_overflows_buffer_witness:
  "delegate (login_env ((new_config (\<lambda>_. False) (\<lambda>_. 4))\<lparr>m_loaded := True, m_confString := (\<lambda>_. replicate 1300 (CHR ''x''))\<rparr>)) plain_hash
     (\<lambda>_. (0, 0)) 2 ''10'' ''secret'' 0 (login_net, Map.empty, login_db) = None"
proof -
  let ?cfg = "(new_config (\<lambda>_. False) (\<lambda>_. 4))\<lparr>m_loaded := True, m_confString := (\<lambda>_. replicate 1300 (CHR ''x''))\<rparr>"
  obtain a cm1 where d: "delegate_decide (login_env ?cfg) plain_hash ''10'' ''secret'' 0 (n_cm login_net) Map.empty login_db = (Accept a, cm1, Map.empty, login_db)"
    using login_decides by blast
  have "takeWhile (\<lambda>c. c \<noteq> CHR 0x00) (replicate k (CHR ''x'')) = replicate k (CHR ''x'')" for k
    by (induction k) simp_all
  then have "1300 \<le> length (c_str (getString MOTD_TEXT (e_config (login_env ?cfg))))"
    by (simp add: login_env_def getString_def c_str_def)
  then show ?thesis using motd_overflows_buffer [OF login_net_ready d] by simp
qed

section \<open>The outcomes of the first message\<close>

lemma msg_get_step:
  assumes "msg_wf m"
  obtains v :: "'a::len word" and m' where "msg_get False m = Some (v, m')" "msg_wf m'" "m_size m' = m_size m"
proof -
  from msg_get_total [OF assms] obtain v :: "'a word" and m' where get: "msg_get False m = Some (v, m')" by blast
  then have "msg_wf m'" using msg_safe_get [OF assms, of False, where 'a = 'a] by simp
  moreover have "m_size m' = m_size m" using get assms by (auto simp: msg_get_wf split: if_splits)
  ultimately show ?thesis using that get by blast
qed

lemma msg_getString_step:
  assumes "msg_wf m"
  obtains s m' where "msg_getString False 0 m = Some (s, m')" "msg_wf m'"
  using msg_safe_getString [OF assms, of False 0] that by (auto simp: msg_safe_def)

lemma read_signatures_total:
  assumes "msg_wf m" and "unat (m_position m) + 2 \<le> NETWORK_MAX_SIZE"
  obtains fm m' where "read_signatures m = Some (fm, m')" "msg_wf m'" "m_size m' = m_size m"
proof -
  have skip: "msg_wf (msg_skip 2 m)" "m_size (msg_skip 2 m) = m_size m"
    using msg_wf_advance [OF assms(1), of 2] assms(2) by (simp_all add: msg_skip_def layout u16_of_int_def)
  obtain v :: u16 and m1 where 1: "msg_get False (msg_skip 2 m) = Some (v, m1)" "msg_wf m1" "m_size m1 = m_size (msg_skip 2 m)"
    by (rule msg_get_step [OF skip(1)])
  obtain d :: u32 and m2 where 2: "msg_get False m1 = Some (d, m2)" "msg_wf m2" "m_size m2 = m_size m1" by (rule msg_get_step [OF 1(2)])
  obtain s :: u32 and m3 where 3: "msg_get False m2 = Some (s, m3)" "msg_wf m3" "m_size m3 = m_size m2" by (rule msg_get_step [OF 2(2)])
  obtain c :: u32 and m4 where 4: "msg_get False m3 = Some (c, m4)" "msg_wf m4" "m_size m4 = m_size m3" by (rule msg_get_step [OF 3(2)])
  show ?thesis by (rule that [of _ m4]) (use 1 2 3 4 skip in \<open>simp_all add: read_signatures_def\<close>)
qed

lemma read_credentials_total:
  assumes "msg_wf m"
  obtains key name password m' where "read_credentials m = Some ((key, name, password), m')" "length key = 4"
proof -
  obtain a :: u32 and m1 where 1: "msg_get False m = Some (a, m1)" "msg_wf m1" by (rule msg_get_step [OF assms])
  obtain b :: u32 and m2 where 2: "msg_get False m1 = Some (b, m2)" "msg_wf m2" by (rule msg_get_step [OF 1(2)])
  obtain c :: u32 and m3 where 3: "msg_get False m2 = Some (c, m3)" "msg_wf m3" by (rule msg_get_step [OF 2(2)])
  obtain d :: u32 and m4 where 4: "msg_get False m3 = Some (d, m4)" "msg_wf m4" by (rule msg_get_step [OF 3(2)])
  obtain s m5 where 5: "msg_getString False 0 m4 = Some (s, m5)" "msg_wf m5" by (rule msg_getString_step [OF 4(2)])
  obtain t m6 where 6: "msg_getString False 0 m5 = Some (t, m6)" by (rule msg_getString_step [OF 5(2)])
  show ?thesis by (rule that [of "[a, b, c, d]" s t m6]) (use 1 2 3 4 5 6 in \<open>simp_all add: read_credentials_def\<close>)
qed

lemma disconnectClient_ready:
  assumes "reply_ready p pr h n" and "length (c_str message) \<le> 8192"
  obtains n' m where "disconnectClient cfg p error message n = Some n'"
    "n_io n' = n_io n @ [Write h m (wire_frame pr (fields_bytes [FU8 error, FStr (c_str message)]))]"
    "cn_state (n_conns n' h) = CONNECTION_STATE_REQUEST_CLOSE"
proof -
  have "\<forall>f \<in> set [FU8 error, FStr (c_str message)]. field_ok f"
    "length (fields_bytes [FU8 error, FStr (c_str message)]) + 15 < NETWORK_BODY_SIZE"
    using assms(2) by (simp_all add: fields_bytes_def layout)
  from answer_ready [OF assms(1) this, of cfg] obtain m n1 n2 n' where
    "pool_getOutputMessage p False n = Some (Some m, n1)" "send_fields cfg m [FU8 error, FStr (c_str message)] n1 = Some n2"
    "close_own_connection p n2 = Some n'" "n_io n' = n_io n @ [Write h m (wire_frame pr (fields_bytes [FU8 error, FStr (c_str message)]))]"
    "cn_state (n_conns n' h) = CONNECTION_STATE_REQUEST_CLOSE" by metis
  then show ?thesis using that by (simp add: disconnectClient_def)
qed

lemma length_c_str: "length (c_str s) \<le> length s"
  by (simp add: c_str_def length_takeWhile_le)

lemma refusals_short:
  "length (c_str CLIENT_VERSION_STRING) \<le> 8192" "length (c_str CLIENT_VERSION_DATA) \<le> 8192"
  "length (c_str ''Too many connections attempts from your IP address, please try again later.'') \<le> 8192"
  using length_c_str [of CLIENT_VERSION_STRING] length_c_str [of CLIENT_VERSION_DATA]
    length_c_str [of "''Too many connections attempts from your IP address, please try again later.''"]
  by (simp_all add: CLIENT_VERSION_STRING_def CLIENT_VERSION_DATA_def newline_str_def)

lemma RSA_step:
  assumes "msg_wf m" and "unat (m_size m) \<le> NETWORK_MAX_SIZE" and "\<And>bs to. rsa bs = Some to \<Longrightarrow> length to = 128"
  obtains ok m' where "RSA_decrypt rsa m = Some (ok, m')" "msg_wf m'"
proof (rule that)
  have buf: "length (m_buffer m) = NETWORK_MAX_SIZE" using assms(1) by (simp add: layout)
  note result = RSA_decrypt_value [OF buf assms(2,3)]
  show "RSA_decrypt rsa m = Some (fst (the (RSA_decrypt rsa m)), snd (the (RSA_decrypt rsa m)))"
    by (simp add: result Let_def)
  show "msg_wf (snd (the (RSA_decrypt rsa m)))"
    using assms(1,3) buf by (auto simp: result Let_def msg_wf_def layout split: option.splits)
qed

lemma reply_ready_msg: "reply_ready p pr h n \<Longrightarrow> reply_ready p pr h (upd_conn h (\<lambda>c. c\<lparr>cn_msg := msg\<rparr>) n)"
  by (simp add: reply_ready_def upd_conn_def)

lemma upd_proto_ready:
  assumes "reply_ready p pr h n" and "pr_connection (f pr) = Some h" and "\<not> m_rawMessages (f pr)"
  obtains n' where "upd_proto p f n = Some n'" "reply_ready p (f pr) h n'" "n_io n' = n_io n" "n_cm n' = n_cm n"
    "n_disp n' = n_disp n" "n_conns n' = n_conns n"
  using assms that [of "n\<lparr>n_protos := (n_protos n)(p \<mapsto> f pr)\<rparr>"] by (simp add: upd_proto_def reply_ready_def)

text \<open>How the checks of the client end, in a state where the answer can be sent.\<close>

definition checked :: "'s env \<Rightarrow> nat \<Rightarrow> protocol \<Rightarrow> nat \<Rightarrow> net \<Rightarrow> net \<Rightarrow> bool" where
  "checked env p pr h n n' \<longleftrightarrow>
     cn_state (n_conns n' h) = CONNECTION_STATE_REQUEST_CLOSE \<and>
       (\<exists>m message. n_io n' = n_io n @ [Write h m (wire_frame pr (fields_bytes [FU8 0x0A, FStr message]))]) \<or>
     n_io n' = n_io n \<and> reply_ready p pr h n' \<and>
       \<not> isDisabled (e_config env) (e_time env) (conn_getIP (n_conns n h)) protocolId (n_cm n) \<and>
       (\<exists>name password version. name \<noteq> [] \<and> \<not> version_refused version \<and>
          n_disp n' = snd (d_addTask (createTask (Delegate p name password (conn_getIP (n_conns n h)) version)) False (n_disp n)))"

lemma check_client_outcomes:
  assumes ready: "reply_ready p pr h n"
  shows "\<exists>n'. check_client env fm p name password n = Some n' \<and> checked env p pr h n n'"
proof -
  define nm where "nm = (if name = [] then ''10'' else name)"
  let ?dis = "isDisabled (e_config env) (e_time env) (conn_getIP (n_conns n h)) protocolId (n_cm n)"
  let ?task = "Delegate p nm password (conn_getIP (n_conns n h)) (fm_version fm)"
  have refuse: "\<exists>n'. disconnectClient (e_config env) p 0x0A message n = Some n' \<and> checked env p pr h n n'"
    if "length (c_str message) \<le> 8192" for message
  proof -
    from disconnectClient_ready [OF ready that, of "e_config env" "0x0A"] obtain n' m where
      "disconnectClient (e_config env) p 0x0A message n = Some n'" "cn_state (n_conns n' h) = CONNECTION_STATE_REQUEST_CLOSE"
      "n_io n' = n_io n @ [Write h m (wire_frame pr (fields_bytes [FU8 0x0A, FStr (c_str message)]))]" by metis
    then show ?thesis by (auto simp: checked_def)
  qed
  have hand: "checked env p pr h n (add_task ?task False n)" if "\<not> version_refused (fm_version fm)" "\<not> ?dis"
  proof -
    have "reply_ready p pr h (add_task ?task False n)" using ready by (simp add: reply_ready_def add_task_def)
    moreover have "nm \<noteq> []" by (simp add: nm_def)
    ultimately show ?thesis using that by (auto simp: checked_def add_task_def)
  qed
  show ?thesis
    using ready refuse [OF refusals_short(1)] refuse [OF refusals_short(2)] refuse [OF refusals_short(3)] hand
    by (auto simp: check_client_def Let_def nm_def reply_ready_def)
qed

lemma first_message_cases:
  assumes ready: "reply_ready p pr h n" and wf: "msg_wf (cn_msg (n_conns n h))"
    and room: "unat (m_position (cn_msg (n_conns n h))) + 2 \<le> NETWORK_MAX_SIZE"
    and size: "unat (m_size (cn_msg (n_conns n h))) \<le> NETWORK_MAX_SIZE"
    and rsa: "\<And>bs to. rsa bs = Some to \<Longrightarrow> length to = 128"
  shows "\<exists>n'. onRecvFirstMessage env rsa p h n = Some n' \<and>
     (cn_state (n_conns n' h) = CONNECTION_STATE_REQUEST_CLOSE \<and> n_io n' = n_io n \<or>
      (\<exists>key. checked env p (setXTEAKey key (pr\<lparr>m_encryptionEnabled := True\<rparr>)) h n n'))"
proof -
  obtain fm m1 where sigs: "read_signatures (cn_msg (n_conns n h)) = Some (fm, m1)" "msg_wf m1" "m_size m1 = m_size (cn_msg (n_conns n h))"
    by (rule read_signatures_total [OF wf room])
  obtain ok m2 where ok: "RSA_decrypt rsa m1 = Some (ok, m2)" "msg_wf m2"
    using RSA_step [OF sigs(2), of rsa] sigs(3) size rsa by metis
  define n1 where "n1 = upd_conn h (\<lambda>c. c\<lparr>cn_msg := m2\<rparr>) n"
  have n1: "reply_ready p pr h n1" "n_io n1 = n_io n" using reply_ready_msg [OF ready] by (simp_all add: n1_def upd_conn_def)
  show ?thesis
  proof (cases ok)
    case False
    have "n_protos n1 p = Some pr" "pr_connection pr = Some h" "cn_state (n_conns n1 h) = CONNECTION_STATE_OPEN"
      using n1(1) by (simp_all add: reply_ready_def)
    from close_own_connection_open [OF this] obtain n' where "close_own_connection p n1 = Some n'" "n_io n' = n_io n1"
      "cn_state (n_conns n' h) = CONNECTION_STATE_REQUEST_CLOSE" by metis
    then show ?thesis using sigs(1) ok False n1(2) by (simp add: onRecvFirstMessage_def n1_def [symmetric])
  next
    case True
    obtain key name password m3 where cred: "read_credentials m2 = Some ((key, name, password), m3)"
      by (rule read_credentials_total [OF ok(2)])
    define n2 where "n2 = upd_conn h (\<lambda>c. c\<lparr>cn_msg := m3\<rparr>) n1"
    define f where "f = (\<lambda>pr :: protocol. setXTEAKey key (pr\<lparr>m_encryptionEnabled := True\<rparr>))"
    have n2: "reply_ready p pr h n2" "n_io n2 = n_io n" "n_cm n2 = n_cm n" "n_disp n2 = n_disp n" "conn_getIP (n_conns n2 h) = conn_getIP (n_conns n h)"
      using reply_ready_msg [OF n1(1)] n1(2) by (simp_all add: n2_def n1_def upd_conn_def conn_getIP_def)
    have f: "pr_connection (f pr) = Some h" "\<not> m_rawMessages (f pr)" using ready by (simp_all add: f_def setXTEAKey_def reply_ready_def)
    obtain n3 where n3: "upd_proto p f n2 = Some n3" "reply_ready p (f pr) h n3" "n_io n3 = n_io n2" "n_cm n3 = n_cm n2"
      "n_disp n3 = n_disp n2" "n_conns n3 = n_conns n2" by (rule upd_proto_ready [where f = f, OF n2(1) f])
    obtain n' where n': "check_client env fm p name password n3 = Some n'" "checked env p (f pr) h n3 n'"
      using check_client_outcomes [OF n3(2)] by blast
    have "onRecvFirstMessage env rsa p h n = Some n'"
      using sigs(1) ok True cred n3(1) n'(1) by (simp add: onRecvFirstMessage_def n1_def [symmetric] n2_def [symmetric] f_def [symmetric])
    moreover have "checked env p (f pr) h n n'" using n'(2) n2 n3 by (simp add: checked_def)
    ultimately show ?thesis by (auto simp: f_def)
  qed
qed

text \<open>C6. The first message has three outcomes, whatever bytes it holds: the connection is closed without an
  answer (the asymmetric block is not valid), it is closed after one refusal, encrypted with the
  key of the client, or the login is handed to the dispatcher. The latter only happens with
  an accepted client version, for an address that is not disabled, and never with an empty
  account name. No byte outside the message buffer is read.\<close>

theorem first_message_outcomes:
  assumes ready: "reply_ready p pr h n" and wf: "msg_wf (cn_msg (n_conns n h))"
    and room: "unat (m_position (cn_msg (n_conns n h))) + 2 \<le> NETWORK_MAX_SIZE"
    and size: "unat (m_size (cn_msg (n_conns n h))) \<le> NETWORK_MAX_SIZE"
    and rsa: "\<And>bs to. rsa bs = Some to \<Longrightarrow> length to = 128"
  shows "\<exists>n'. onRecvFirstMessage env rsa p h n = Some n' \<and>
     (cn_state (n_conns n' h) = CONNECTION_STATE_REQUEST_CLOSE \<and> n_io n' = n_io n \<or>
      (\<exists>key. checked env p (setXTEAKey key (pr\<lparr>m_encryptionEnabled := True\<rparr>)) h n n'))"
  by (rule first_message_cases) (fact assms)+

theorem first_message_outcomes_witness:
  "\<exists>n'. onRecvFirstMessage (login_env (new_config (\<lambda>_. False) (\<lambda>_. 4))) (\<lambda>bs. Some (replicate 128 0)) 2 4 login_net = Some n'"
proof -
  have "msg_wf (cn_msg (n_conns login_net 4))" "unat (m_position (cn_msg (n_conns login_net 4))) + 2 \<le> NETWORK_MAX_SIZE"
    "unat (m_size (cn_msg (n_conns login_net 4))) \<le> NETWORK_MAX_SIZE"
    by (simp_all add: login_net_def demo_net_def new_connection_def msg_wf_new) (simp_all add: new_network_message_def layout)
  from first_message_outcomes [OF login_net_ready this, of "\<lambda>bs. Some (replicate 128 0)" "login_env (new_config (\<lambda>_. False) (\<lambda>_. 4))"]
  show ?thesis by auto
qed

end
