(* ===== verification/Session.thy ===== *)
theory Session
  imports Protocol_Login
begin

text \<open>
  The body of a packet (\<open>Connection::parsePacket\<close> of \<open>net/connection.cpp\<close>) and the services that
  make the protocol of a connection (\<open>ServicePort::makeProtocol\<close> of \<open>net/server.cpp\<close>). The only
  protocol class of the repository is the login protocol, so that is what a service makes.
\<close>

record service =
  getProtocolId :: u8
  isSingleSocket :: bool
  hasChecksum :: bool
  getProtocolName :: string

definition login_service :: service where
  "login_service = \<lparr>getProtocolId = 1, isSingleSocket = False, hasChecksum = True, getProtocolName = ''login protocol''\<rparr>"

text \<open>\<open>Service<ProtocolLogin>::makeProtocol\<close>: a new object in the store.\<close>

definition service_makeProtocol :: "nat option \<Rightarrow> net \<Rightarrow> nat \<times> net" where
  "service_makeProtocol connection n =
     (let p = n_nextProto n
      in (p, n\<lparr>n_protos := (n_protos n)(p \<mapsto> new_login_protocol connection), n_nextProto := p + 1\<rparr>))"

definition serves :: "u8 \<Rightarrow> bool \<Rightarrow> service \<Rightarrow> bool" where
  "serves i checksum sv \<longleftrightarrow> getProtocolId sv = i \<and> (checksum \<and> hasChecksum sv \<or> \<not> hasChecksum sv)"

definition makeProtocol :: "service list \<Rightarrow> bool \<Rightarrow> nat \<Rightarrow> net \<Rightarrow> (nat option \<times> net) option" where
  "makeProtocol services checksum h n = do {
     (i, msg) \<leftarrow> msg_get False (cn_msg (n_conns n h));
     let n = upd_conn h (\<lambda>c. c\<lparr>cn_msg := msg\<rparr>) n;
     case find (serves i checksum) services of
       None \<Rightarrow> Some (None, n)
     | Some sv \<Rightarrow> let (p, n) = service_makeProtocol None n in Some (Some p, n)
   }"

section \<open>The packet\<close>

text \<open>The checksum: \<open>length\<close> wraps around when the body is shorter than four bytes, and then
  \<open>adlerChecksum\<close> returns zero without reading.\<close>

definition packet_checksum :: "network_message \<Rightarrow> (bool \<times> network_message) option" where
  "packet_checksum m = do {
     let len = u32_of_int (uint (m_size m) - uint (m_position m) - 4);
     (checksumReceived, m) \<leftarrow> msg_get True m;
     checksum \<leftarrow> (if 0 < len \<and> unat len \<le> NETWORK_MAX_SIZE
                  then do {
                    data \<leftarrow> mem_read (m_buffer m) (unat (m_position m) + 4) (unat len);
                    Some (adlerChecksum data (unat len))
                  }
                  else Some 0);
     Some (if (checksumReceived :: u32) = checksum then (True, msg_skip 4 m) else (False, m))
   }"

definition over_limit :: "config \<Rightarrow> int \<Rightarrow> connection \<Rightarrow> bool" where
  "over_limit cfg now c \<longleftrightarrow>
     cn_packets c div u32_of_int (max 1 (now - cn_time c + 1)) > u32_of_int (getNumber MAX_PACKETS_PER_SECOND cfg)"

definition conn_handle :: "nat \<Rightarrow> nat \<Rightarrow> net \<Rightarrow> net" where
  "conn_handle p h n = conn_accept h (upd_conn h (\<lambda>c. c\<lparr>cn_protocol := Some p\<rparr>) n)"

text \<open>The first message; the first component says whether the connection goes on reading.\<close>

definition first_packet ::
  "'s env \<Rightarrow> (u8 list \<Rightarrow> u8 list option) \<Rightarrow> service list \<Rightarrow> bool \<Rightarrow> nat \<Rightarrow> net \<Rightarrow> (bool \<times> net) option" where
  "first_packet env rsa services checksumEnabled h n = do {
     let n = upd_conn h (\<lambda>c. c\<lparr>cn_receivedFirst := True\<rparr>) n;
     (p, n) \<leftarrow> (case cn_protocol (n_conns n h) of
        None \<Rightarrow> do {
          (p, n) \<leftarrow> makeProtocol services checksumEnabled h n;
          let n = upd_conn h (\<lambda>c. c\<lparr>cn_protocol := p\<rparr>) n;
          case p of
            None \<Rightarrow> Some (None, conn_close h n)
          | Some q \<Rightarrow> do {
              n \<leftarrow> upd_proto q (\<lambda>pr. pr\<lparr>pr_connection := Some h\<rparr>) n;
              Some (Some q, n)
            }
        }
      | Some p \<Rightarrow> Some (Some p, upd_conn h (\<lambda>c. c\<lparr>cn_msg := msg_skip 1 (cn_msg c)\<rparr>) n));
     case p of
       None \<Rightarrow> Some (False, n)
     | Some q \<Rightarrow> map_option (Pair True) (onRecvFirstMessage env rsa q h n)
   }"

definition later_packet :: "nat \<Rightarrow> net \<Rightarrow> (bool \<times> net) option" where
  "later_packet h n = do {
     p \<leftarrow> cn_protocol (n_conns n h);
     pr \<leftarrow> n_protos n p;
     (_, msg) \<leftarrow> onRecvMessage pr (cn_msg (n_conns n h));
     Some (True, upd_conn h (\<lambda>c. c\<lparr>cn_msg := msg\<rparr>) n)
   }"

text \<open>The rate limit: the first component says whether the packet is over it.\<close>

definition count_packet :: "'s env \<Rightarrow> nat \<Rightarrow> net \<Rightarrow> bool \<times> net" where
  "count_packet env h n =
     (let n = upd_conn h (\<lambda>c. c\<lparr>cn_packets := cn_packets c + 1\<rparr>) n
      in if over_limit (e_config env) (e_time env) (n_conns n h) then (True, n)
         else if u32_of_int (max 1 (e_time env - cn_time (n_conns n h) + 1)) > 2
         then (False, upd_conn h (\<lambda>c. c\<lparr>cn_time := e_time env, cn_packets := 0\<rparr>) n)
         else (False, n))"

definition handle_packet ::
  "'s env \<Rightarrow> (u8 list \<Rightarrow> u8 list option) \<Rightarrow> service list \<Rightarrow> nat \<Rightarrow> net \<Rightarrow> net option" where
  "handle_packet env rsa services h n = do {
     let n = upd_conn h (\<lambda>c. c\<lparr>cn_pendingRead := cn_pendingRead c - 1\<rparr>) n;
     (checksumEnabled, msg) \<leftarrow> packet_checksum (cn_msg (n_conns n h));
     let n = upd_conn h (\<lambda>c. c\<lparr>cn_msg := msg\<rparr>) n;
     (goes_on, n) \<leftarrow> (if \<not> cn_receivedFirst (n_conns n h) then first_packet env rsa services checksumEnabled h n
                      else later_packet h n);
     Some (if goes_on then conn_accept h n else n)
   }"

definition conn_parsePacket ::
  "'s env \<Rightarrow> (u8 list \<Rightarrow> u8 list option) \<Rightarrow> service list \<Rightarrow> asio_error \<Rightarrow> u8 list \<Rightarrow> nat \<Rightarrow> net \<Rightarrow> net option" where
  "conn_parsePacket env rsa services err bytes h n = do {
     buf \<leftarrow> mem_write (m_buffer (cn_msg (n_conns n h))) NETWORK_HEADER_SIZE bytes;
     let n = upd_conn h (\<lambda>c. c\<lparr>cn_readTimer := False, cn_msg := (cn_msg c)\<lparr>m_buffer := buf\<rparr>\<rparr>) n;
     let n = (if err \<noteq> NoError then conn_handleReadError err h n else n);
     if cn_state (n_conns n h) \<noteq> CONNECTION_STATE_OPEN \<or> cn_readError (n_conns n h) then Some (conn_close h n)
     else let (over, n) = count_packet env h n
          in if over then Some (conn_close h n) else handle_packet env rsa services h n
   }"

section \<open>The checksum of a packet\<close>

lemma unat_wrapped:
  assumes "-65536 \<le> x" and "x < 0"
  shows "NETWORK_MAX_SIZE < unat (u32_of_int x)"
proof -
  have "u32_of_int x = u32_of_int (x + 2 ^ 32)" by (simp add: u32_of_int_def)
  moreover have "unat (u32_of_int (x + 2 ^ 32)) = nat (x + 2 ^ 32)" using assms by (intro unat_u32_of_int) simp_all
  ultimately show ?thesis using assms by (simp add: layout)
qed

lemma msg_skip_wf:
  assumes "msg_wf m" and "unat (m_position m) + k \<le> NETWORK_MAX_SIZE"
  shows "msg_wf (msg_skip (int k) m)" "unat (m_position (msg_skip (int k) m)) = unat (m_position m) + k"
proof -
  have "msg_skip (int k) m = m\<lparr>m_position := m_position m + of_nat k\<rparr>"
    by (simp add: msg_skip_def u16_of_int_def)
  then show "msg_wf (msg_skip (int k) m)" "unat (m_position (msg_skip (int k) m)) = unat (m_position m) + k"
    using msg_wf_advance [OF assms(1), of k] assms(2) unat_u16_add [of "m_position m" k] by (simp_all add: layout)
qed

lemma msg_peek: "msg_wf m \<Longrightarrow> \<exists>w. msg_get True m = Some (w, m)"
  by (simp add: msg_get_wf)

lemma packet_checksum_total:
  assumes "msg_wf m" and "unat (m_size m) \<le> NETWORK_MAX_SIZE" and "unat (m_position m) + 4 \<le> NETWORK_MAX_SIZE"
  obtains b m' where "packet_checksum m = Some (b, m')" "msg_wf m'" "m_size m' = m_size m"
    "unat (m_position m') \<le> unat (m_position m) + 4"
proof -
  define d where "d = uint (m_size m) - uint (m_position m) - 4"
  define len where "len = u32_of_int d"
  obtain w :: u32 where get: "msg_get True m = Some (w, m)" using msg_peek [OF assms(1)] by blast
  have d: "d = int (unat (m_size m)) - int (unat (m_position m)) - 4" by (simp add: d_def uint_nat del: of_nat_unat)
  have "mem_read (m_buffer m) (unat (m_position m) + 4) (unat len) \<noteq> None" if "unat len \<le> NETWORK_MAX_SIZE"
  proof -
    have "0 \<le> d"
    proof (rule ccontr)
      assume "\<not> 0 \<le> d"
      moreover have "- 65536 \<le> d" using assms(3) by (simp add: d layout del: of_nat_unat)
      ultimately show False using unat_wrapped [of d] that by (simp add: len_def)
    qed
    moreover have "d < 2 ^ 32" using assms(2) by (simp add: d layout del: of_nat_unat)
    ultimately have len: "unat len = nat d" unfolding len_def by (rule unat_u32_of_int)
    have "unat (m_position m) + 4 + unat len \<le> length (m_buffer m)"
      using \<open>0 \<le> d\<close> assms(1,2) unfolding len d by (simp add: layout del: of_nat_unat)
    then show ?thesis by (simp add: mem_read_def)
  qed
  then have "\<exists>c. (if 0 < len \<and> unat len \<le> NETWORK_MAX_SIZE
      then do { data \<leftarrow> mem_read (m_buffer m) (unat (m_position m) + 4) (unat len); Some (adlerChecksum data (unat len)) }
      else Some 0) = Some c" by auto
  then obtain c where c: "(if 0 < len \<and> unat len \<le> NETWORK_MAX_SIZE
      then do { data \<leftarrow> mem_read (m_buffer m) (unat (m_position m) + 4) (unat len); Some (adlerChecksum data (unat len)) }
      else Some 0) = Some c" ..
  have run: "packet_checksum m = Some (if w = c then (True, msg_skip 4 m) else (False, m))"
    using get c by (simp add: packet_checksum_def Let_def d_def [symmetric] len_def [symmetric])
  have skip: "msg_wf (msg_skip 4 m)" "unat (m_position (msg_skip 4 m)) = unat (m_position m) + 4" "m_size (msg_skip 4 m) = m_size m"
    using msg_skip_wf [OF assms(1,3)] by (simp_all add: msg_skip_def)
  show ?thesis by (cases "w = c") (use run skip assms(1) in \<open>auto intro: that\<close>)
qed

lemma packet_checksum_value:
  assumes wf: "msg_wf m" and ahead: "msg_ahead m = le_encode 4 (w :: u32) @ c @ rest" and rest: "rest \<noteq> []" and c: "c \<noteq> []"
    and size: "unat (m_size m) = unat (m_position m) + 4 + length c"
  shows "packet_checksum m = Some (if w = adlerChecksum c (length c) then (True, msg_skip 4 m) else (False, m))"
proof -
  have get: "msg_get True m = Some (w, m)" using msg_get_ahead [of m w "c @ rest" True] wf ahead rest by simp
  have room: "unat (m_position m) + length (le_encode 4 w @ c) < 16384" using ahead_room [OF wf, of "le_encode 4 w @ c" rest] ahead rest by simp
  have "uint (m_size m) - uint (m_position m) - 4 = int (length c)" using size by (simp add: uint_nat del: of_nat_unat)
  then have len: "unat (u32_of_int (uint (m_size m) - uint (m_position m) - 4)) = length c"
    using room by (simp add: unat_u32_of_int)
  then have pos: "0 < u32_of_int (uint (m_size m) - uint (m_position m) - 4)" using c by (simp add: word_less_nat_alt)
  have "take (length c) (drop 4 (msg_ahead m)) = c" by (simp add: ahead)
  then have "mem_read (m_buffer m) (unat (m_position m) + 4) (length c) = Some c"
    using room wf by (simp add: mem_read_def msg_ahead_def add.commute)
  then show ?thesis using get len pos room by (simp add: packet_checksum_def Let_def layout)
qed

text \<open>The checksum of a packet: with \<open>c\<close> after the four bytes of the checksum, the packet counts as
  checked exactly when these are the Adler checksum of \<open>c\<close>, and then the position moves to \<open>c\<close>;
  otherwise the bytes are kept, as for a client without checksums.\<close>

theorem packet_checksum_verdict:
  assumes wf: "msg_wf m" and ahead: "msg_ahead m = le_encode 4 (w :: u32) @ c @ rest" and rest: "rest \<noteq> []" and c: "c \<noteq> []"
    and size: "unat (m_size m) = unat (m_position m) + 4 + length c"
  shows "packet_checksum m = Some (if w = adlerChecksum c (length c) then (True, msg_skip 4 m) else (False, m))"
  using assms by (rule packet_checksum_value)

theorem packet_checksum_verdict_witness:
  "packet_checksum (new_network_message\<lparr>m_size := 7, m_position := 2, m_buffer := [0, 0] @ le_encode 4 (adlerChecksum [5] 1) @ [5] @ replicate 16377 0\<rparr>) =
     Some (True, msg_skip 4 (new_network_message\<lparr>m_size := 7, m_position := 2, m_buffer := [0, 0] @ le_encode 4 (adlerChecksum [5] 1) @ [5] @ replicate 16377 0\<rparr>))"
proof -
  let ?m = "new_network_message\<lparr>m_size := 7, m_position := 2, m_buffer := [0, 0] @ le_encode 4 (adlerChecksum [5] 1) @ [5] @ replicate 16377 0\<rparr>"
  have "msg_wf ?m" by (simp add: msg_wf_def layout)
  moreover have "msg_ahead ?m = le_encode 4 (adlerChecksum [5] 1) @ [5] @ replicate 16377 0" by (simp add: msg_ahead_def)
  ultimately show ?thesis using packet_checksum_verdict [of ?m "adlerChecksum [5] 1" "[5]" "replicate 16377 0"] by simp
qed

section \<open>The first packet of a connection\<close>

lemma makeProtocol_total:
  assumes "msg_wf (cn_msg (n_conns n h))"
  obtains p n' msg where "makeProtocol services checksum h n = Some (p, n')" "msg_wf msg"
    "m_size msg = m_size (cn_msg (n_conns n h))" "unat (m_position msg) \<le> unat (m_position (cn_msg (n_conns n h))) + 1"
    "n_conns n' = (n_conns n)(h := (n_conns n h)\<lparr>cn_msg := msg\<rparr>)"
    "p = None \<or> (\<exists>q. p = Some q \<and> n_protos n' q = Some (new_login_protocol None))"
    "p_shutdown n' = p_shutdown n" "p_free n' = p_free n" "n_msgs n' = n_msgs n"
proof -
  obtain i :: u8 and msg where get: "msg_get False (cn_msg (n_conns n h)) = Some (i, msg)" "msg_wf msg"
      "m_size msg = m_size (cn_msg (n_conns n h))" by (rule msg_get_step [OF assms])
  have pos: "unat (m_position msg) \<le> unat (m_position (cn_msg (n_conns n h))) + 1"
    using get(1) assms unat_u16_add [of "m_position (cn_msg (n_conns n h))" 1] msg_wf_position [OF assms]
    by (auto simp: msg_get_wf split: if_splits)
  show ?thesis
  proof (cases "find (serves i checksum) services")
    case None
    then show ?thesis
      using get pos by (intro that [of None "upd_conn h (\<lambda>c. c\<lparr>cn_msg := msg\<rparr>) n" msg]) (simp_all add: makeProtocol_def upd_conn_def)
  next
    case (Some sv)
    define q where "q = n_nextProto n"
    define n' where "n' = (upd_conn h (\<lambda>c. c\<lparr>cn_msg := msg\<rparr>) n)\<lparr>n_protos := (n_protos n)(q \<mapsto> new_login_protocol None), n_nextProto := q + 1\<rparr>"
    have "makeProtocol services checksum h n = Some (Some q, n')"
      using get(1) Some by (simp add: makeProtocol_def service_makeProtocol_def Let_def n'_def q_def upd_conn_def)
    then show ?thesis using get pos by (intro that [of "Some q" n' msg]) (simp_all add: n'_def upd_conn_def)
  qed
qed

text \<open>A connection that has just been told the length of its first packet: no protocol yet, the buffer of
  the message ready for the body at the offset 2.\<close>

definition fresh_session :: "nat \<Rightarrow> nat \<Rightarrow> net \<Rightarrow> bool" where
  "fresh_session h len n \<longleftrightarrow>
     cn_state (n_conns n h) = CONNECTION_STATE_OPEN \<and> cn_protocol (n_conns n h) = None \<and> \<not> cn_receivedFirst (n_conns n h) \<and>
     \<not> cn_writeError (n_conns n h) \<and> cn_pendingWrite (n_conns n h) = 0 \<and>
     length (m_buffer (cn_msg (n_conns n h))) = NETWORK_MAX_SIZE \<and> m_position (cn_msg (n_conns n h)) = 2 \<and>
     unat (m_size (cn_msg (n_conns n h))) = NETWORK_HEADER_SIZE + len \<and> NETWORK_HEADER_SIZE + len < NETWORK_MAX_SIZE \<and>
     \<not> p_shutdown n \<and>
     (\<forall>m \<in> set (p_free n). length (m_buffer (n_msgs n m)) = NETWORK_MAX_SIZE \<and> m_outputBufferStart (n_msgs n m) = 8)"

lemma first_packet_total:
  assumes n: "cn_state (n_conns n h) = CONNECTION_STATE_OPEN" "cn_protocol (n_conns n h) = None"
      "\<not> cn_writeError (n_conns n h)" "cn_pendingWrite (n_conns n h) = 0"
    and pool: "\<not> p_shutdown n"
      "\<forall>m \<in> set (p_free n). length (m_buffer (n_msgs n m)) = NETWORK_MAX_SIZE \<and> m_outputBufferStart (n_msgs n m) = 8"
    and msg: "msg_wf (cn_msg (n_conns n h))" "unat (m_size (cn_msg (n_conns n h))) \<le> NETWORK_MAX_SIZE"
      "unat (m_position (cn_msg (n_conns n h))) + 3 \<le> NETWORK_MAX_SIZE"
    and rsa: "\<And>bs to. rsa bs = Some to \<Longrightarrow> length to = 128"
  shows "\<exists>b n'. first_packet env rsa services checksum h n = Some (b, n')"
proof -
  define n1 where "n1 = upd_conn h (\<lambda>c. c\<lparr>cn_receivedFirst := True\<rparr>) n"
  have c1: "n_conns n1 h = (n_conns n h)\<lparr>cn_receivedFirst := True\<rparr>" "cn_protocol (n_conns n1 h) = None" "p_shutdown n1 = p_shutdown n"
    "p_free n1 = p_free n" "n_msgs n1 = n_msgs n" using n(2) by (simp_all add: n1_def upd_conn_def)
  have "msg_wf (cn_msg (n_conns n1 h))" using msg(1) by (simp add: c1)
  then obtain p n2 msg2 where made: "makeProtocol services checksum h n1 = Some (p, n2)" "msg_wf msg2"
    "m_size msg2 = m_size (cn_msg (n_conns n1 h))" "unat (m_position msg2) \<le> unat (m_position (cn_msg (n_conns n1 h))) + 1"
    "n_conns n2 = (n_conns n1)(h := (n_conns n1 h)\<lparr>cn_msg := msg2\<rparr>)"
    "p = None \<or> (\<exists>q. p = Some q \<and> n_protos n2 q = Some (new_login_protocol None))"
    and pool2: "p_shutdown n2 = p_shutdown n1" "p_free n2 = p_free n1" "n_msgs n2 = n_msgs n1"
    by (rule makeProtocol_total)
  show ?thesis
  proof (cases p)
    case None
    then show ?thesis using made(1) c1(2) by (auto simp: first_packet_def n1_def [symmetric])
  next
    case (Some q)
    then have q: "n_protos n2 q = Some (new_login_protocol None)" using made(6) by simp
    define n3 where "n3 = (upd_conn h (\<lambda>c. c\<lparr>cn_protocol := Some q\<rparr>) n2)\<lparr>n_protos := (n_protos n2)(q \<mapsto> (new_login_protocol None)\<lparr>pr_connection := Some h\<rparr>)\<rparr>"
    have bound: "upd_proto q (\<lambda>pr. pr\<lparr>pr_connection := Some h\<rparr>) (upd_conn h (\<lambda>c. c\<lparr>cn_protocol := Some q\<rparr>) n2) = Some n3"
      using q by (simp add: upd_proto_def n3_def upd_conn_def)
    have ready: "reply_ready q ((new_login_protocol None)\<lparr>pr_connection := Some h\<rparr>) h n3"
      using n pool by (simp add: reply_ready_def n3_def upd_conn_def made(5) c1 pool2 new_login_protocol_def new_protocol_def)
    have msg3: "cn_msg (n_conns n3 h) = msg2" by (simp add: n3_def upd_conn_def made(5))
    have "msg_wf (cn_msg (n_conns n3 h))" "unat (m_position (cn_msg (n_conns n3 h))) + 2 \<le> NETWORK_MAX_SIZE"
      "unat (m_size (cn_msg (n_conns n3 h))) \<le> NETWORK_MAX_SIZE"
      unfolding msg3 using made(2,3,4) msg c1(1) by simp_all
    from first_message_cases [OF ready this, of rsa env] rsa obtain n' where "onRecvFirstMessage env rsa q h n3 = Some n'" by blast
    then show ?thesis using made(1) c1(2) Some bound by (auto simp: first_packet_def n1_def [symmetric])
  qed
qed

lemma handle_packet_total:
  assumes n: "cn_state (n_conns n h) = CONNECTION_STATE_OPEN" "cn_protocol (n_conns n h) = None" "\<not> cn_receivedFirst (n_conns n h)"
      "\<not> cn_writeError (n_conns n h)" "cn_pendingWrite (n_conns n h) = 0"
    and pool: "\<not> p_shutdown n"
      "\<forall>m \<in> set (p_free n). length (m_buffer (n_msgs n m)) = NETWORK_MAX_SIZE \<and> m_outputBufferStart (n_msgs n m) = 8"
    and msg: "msg_wf (cn_msg (n_conns n h))" "unat (m_size (cn_msg (n_conns n h))) \<le> NETWORK_MAX_SIZE"
      "unat (m_position (cn_msg (n_conns n h))) = 2"
    and rsa: "\<And>bs to. rsa bs = Some to \<Longrightarrow> length to = 128"
  shows "\<exists>n'. handle_packet env rsa services h n = Some n'"
proof -
  define n1 where "n1 = upd_conn h (\<lambda>c. c\<lparr>cn_pendingRead := cn_pendingRead c - 1\<rparr>) n"
  have "unat (m_position (cn_msg (n_conns n h))) + 4 \<le> NETWORK_MAX_SIZE" using msg(3) by (simp add: layout)
  from packet_checksum_total [OF msg(1,2) this] obtain b msg' where
    sum: "packet_checksum (cn_msg (n_conns n h)) = Some (b, msg')" "msg_wf msg'" "m_size msg' = m_size (cn_msg (n_conns n h))"
      "unat (m_position msg') \<le> unat (m_position (cn_msg (n_conns n h))) + 4" .
  define n2 where "n2 = upd_conn h (\<lambda>c. c\<lparr>cn_msg := msg'\<rparr>) n1"
  have c2: "n_conns n2 h = (n_conns n1 h)\<lparr>cn_msg := msg'\<rparr>" "n_conns n1 h = (n_conns n h)\<lparr>cn_pendingRead := cn_pendingRead (n_conns n h) - 1\<rparr>"
    "p_shutdown n2 = p_shutdown n" "p_free n2 = p_free n" "n_msgs n2 = n_msgs n"
    by (simp_all add: n2_def n1_def upd_conn_def)
  have "\<exists>b' n'. first_packet env rsa services b h n2 = Some (b', n')"
    by (rule first_packet_total) (use n pool sum msg rsa in \<open>auto simp: c2 layout\<close>)
  then show ?thesis
    using n(3) sum(1) by (auto simp: handle_packet_def n1_def [symmetric] n2_def [symmetric] c2)
qed

lemma parsePacket_total:
  assumes fresh: "fresh_session h len n" "length bytes \<le> len" and rsa: "\<And>bs to. rsa bs = Some to \<Longrightarrow> length to = 128"
  shows "\<exists>n'. conn_parsePacket env rsa services err bytes h n = Some n'"
proof -
  obtain buf where buf: "mem_write (m_buffer (cn_msg (n_conns n h))) NETWORK_HEADER_SIZE bytes = Some buf" "length buf = 16384"
    using fresh by (auto simp: fresh_session_def mem_write_def layout)
  define n1 where "n1 = upd_conn h (\<lambda>c. c\<lparr>cn_readTimer := False, cn_msg := (cn_msg c)\<lparr>m_buffer := buf\<rparr>\<rparr>) n"
  define n2 where "n2 = (if err \<noteq> NoError then conn_handleReadError err h n1 else n1)"
  obtain over n3 where n3: "count_packet env h n2 = (over, n3)" by fastforce
  have run: "conn_parsePacket env rsa services err bytes h n =
      (if cn_state (n_conns n2 h) \<noteq> CONNECTION_STATE_OPEN \<or> cn_readError (n_conns n2 h) then Some (conn_close h n2)
       else if over then Some (conn_close h n3) else handle_packet env rsa services h n3)"
    using buf(1) n3 unfolding n2_def n1_def by (simp add: conn_parsePacket_def Let_def)
  show ?thesis
  proof (cases "cn_state (n_conns n2 h) \<noteq> CONNECTION_STATE_OPEN \<or> cn_readError (n_conns n2 h) \<or> over")
    case True
    then show ?thesis using run by auto
  next
    case False
    then have n2: "n2 = n1" by (auto simp: n2_def conn_handleReadError_def upd_conn_def split: if_splits)
    have "\<exists>n'. handle_packet env rsa services h n3 = Some n'"
      using fresh buf(2) n3 [symmetric] False unfolding n2
      by (intro handle_packet_total rsa)
        (auto simp: count_packet_def n1_def upd_conn_def Let_def fresh_session_def msg_wf_def layout split: if_splits)
    then show ?thesis using run False by simp
  qed
qed

text \<open>No first packet can break the server: whatever bytes a client sends after a header that
  \<open>parseHeader\<close> took, with whatever error the read ends, \<open>parsePacket\<close> finishes, also when the read ends early. It neither
  leaves a buffer nor uses a protocol that does not exist.\<close>

theorem first_packet_safe:
  assumes fresh: "fresh_session h len n" "length bytes \<le> len" and rsa: "\<And>bs to. rsa bs = Some to \<Longrightarrow> length to = 128"
  shows "\<exists>n'. conn_parsePacket env rsa services err bytes h n = Some n'"
  using assms by (rule parsePacket_total)

theorem first_packet_safe_witness:
  "\<exists>n'. conn_parsePacket (login_env (new_config (\<lambda>_. False) (\<lambda>_. 4))) (\<lambda>bs. Some (replicate 128 0)) [login_service] NoError [1, 2, 3] 4
     (upd_conn 4 (\<lambda>c. c\<lparr>cn_msg := new_network_message\<lparr>m_size := 5, m_position := 2\<rparr>\<rparr>) demo_net) = Some n'"
proof -
  let ?n = "upd_conn 4 (\<lambda>c. c\<lparr>cn_msg := new_network_message\<lparr>m_size := 5, m_position := 2\<rparr>\<rparr>) demo_net"
  have "fresh_session 4 (length [1, 2, 3 :: u8]) ?n"
    by (simp add: fresh_session_def upd_conn_def demo_net_def new_connection_def new_network_message_def layout)
  from first_packet_safe [OF this, of "[1, 2, 3]" "\<lambda>bs. Some (replicate 128 0)"] show ?thesis by auto
qed

end
