(* ===== verification/Server.thy ===== *)
theory Server
  imports Session "HOL-Library.AList"
begin

text \<open>
  The listening side of \<open>net/server.h\<close> and \<open>net/server.cpp\<close>: ports with their acceptors and services,
  the acceptance of connections, and the manager of the ports.

  Acceptors are numbers; an accept that is under way stands in \<open>s_accepting\<close>. Whether the system
  lets an address be bound is the parameter \<open>bind_ok\<close>. The address of the peer is an argument of
  the handler, 0 when the socket does not know it. Starting an accept and posting a callback do
  not throw. The flag \<open>m_logError\<close>, which all ports share, is part of the state.
\<close>

record service_port =
  sp_services :: "service list"
  sp_acceptors :: "(nat \<times> u32) list"
  sp_serverPort :: u16
  sp_pendingStart :: bool

record server =
  s_net :: net
  s_logError :: bool
  s_nextAcceptor :: nat
  s_nextConn :: nat
  s_accepting :: "nat list"
  s_closing :: "service_port list"
  s_deathTimer :: bool

definition new_service_port :: service_port where
  "new_service_port = \<lparr>sp_services = [], sp_acceptors = [], sp_serverPort = 0, sp_pendingStart = False\<rparr>"

section \<open>Ports\<close>

definition sp_add :: "service \<Rightarrow> service_port \<Rightarrow> bool \<times> service_port" where
  "sp_add sv sp =
     (if \<exists>s \<in> set (sp_services sp). isSingleSocket s then (False, sp)
      else (True, sp\<lparr>sp_services := sp_services sp @ [sv]\<rparr>))"

definition sp_isSingleSocket :: "service_port \<Rightarrow> bool" where
  "sp_isSingleSocket sp = (case sp_services sp of [] \<Rightarrow> False | sv # _ \<Rightarrow> isSingleSocket sv)"

definition sp_getProtocolNames :: "service_port \<Rightarrow> string" where
  "sp_getProtocolNames sp =
     (case sp_services sp of
        [] \<Rightarrow> []
      | sv # svs \<Rightarrow> getProtocolName sv @ concat (map (\<lambda>s. '', '' @ getProtocolName s) svs))"

definition sp_accept :: "nat \<Rightarrow> server \<Rightarrow> server" where
  "sp_accept acceptor s = s\<lparr>s_accepting := s_accepting s @ [acceptor]\<rparr>"

text \<open>The loop of \<open>open\<close>: bind an address, or put it aside while errors are still logged.\<close>

fun open_loop ::
  "(u32 \<Rightarrow> u16 \<Rightarrow> bool) \<Rightarrow> u32 list \<Rightarrow> u32 list \<Rightarrow> service_port \<times> server \<Rightarrow> u32 list \<times> service_port \<times> server" where
  "open_loop bind_ok [] pendingIps (sp, s) = (pendingIps, sp, s)"
| "open_loop bind_ok (ip # ips) pendingIps (sp, s) =
     (if bind_ok ip (sp_serverPort sp) then
        (let tmp = s_nextAcceptor s;
             s = sp_accept tmp (s\<lparr>s_nextAcceptor := tmp + 1\<rparr>)
         in open_loop bind_ok ips pendingIps (sp\<lparr>sp_acceptors := AList.update tmp ip (sp_acceptors sp)\<rparr>, s))
      else open_loop bind_ok ips (if s_logError s then pendingIps @ [ip] else pendingIps) (sp, s))"

definition sp_open ::
  "(u32 \<Rightarrow> u16 \<Rightarrow> bool) \<Rightarrow> u32 list \<Rightarrow> u16 \<Rightarrow> service_port \<times> server \<Rightarrow> service_port \<times> server" where
  "sp_open bind_ok ips port st =
     (let (sp, s) = st;
          (pendingIps, sp, s) = open_loop bind_ok ips [] (sp\<lparr>sp_pendingStart := False, sp_serverPort := port\<rparr>, s)
      in if pendingIps \<noteq> []
         then (sp\<lparr>sp_pendingStart := True\<rparr>,
               s\<lparr>s_logError := False, s_net := add_event 5000 (OpenServices (sp_serverPort sp) pendingIps) (s_net s)\<rparr>)
         else (sp, s))"

definition sp_close :: "service_port \<Rightarrow> service_port" where
  "sp_close sp = (if sp_acceptors sp = [] then sp else sp\<lparr>sp_acceptors := []\<rparr>)"

text \<open>\<open>ConnectionManager::createConnection\<close> with the new object in the store.\<close>

definition create_connection :: "int \<Rightarrow> u32 \<Rightarrow> server \<Rightarrow> nat \<times> server" where
  "create_connection now ip s =
     (let h = s_nextConn s; n = s_net s
      in (h, s\<lparr>s_nextConn := h + 1,
               s_net := n\<lparr>n_conns := (n_conns n)(h := new_connection now ip), n_cm := cm_createConnection h (n_cm n)\<rparr>\<rparr>))"

text \<open>The default address, which \<open>m_acceptors[acceptor]\<close> inserts for a key that is not there, is 0.\<close>

definition acceptor_address :: "nat \<Rightarrow> service_port \<Rightarrow> u32 \<times> service_port" where
  "acceptor_address acceptor sp =
     (case map_of (sp_acceptors sp) acceptor of
        Some ip \<Rightarrow> (ip, sp)
      | None \<Rightarrow> (0, sp\<lparr>sp_acceptors := AList.update acceptor 0 (sp_acceptors sp)\<rparr>))"

definition accept_peer :: "'s env \<Rightarrow> service_port \<Rightarrow> u32 \<Rightarrow> server \<Rightarrow> server" where
  "accept_peer env sp remoteIp s =
     (let n = s_net s;
          (ok, cm) = (if remoteIp \<noteq> 0 then acceptConnection (word_of_int (e_ms env)) remoteIp (n_cm n) else (False, n_cm n));
          s = s\<lparr>s_net := n\<lparr>n_cm := cm\<rparr>\<rparr>
      in if ok then
           (let (h, s) = create_connection (e_time env) remoteIp s
            in if sp_isSingleSocket sp
               then (let (p, n) = service_makeProtocol (Some h) (s_net s) in s\<lparr>s_net := conn_handle p h n\<rparr>)
               else s\<lparr>s_net := conn_accept h (s_net s)\<rparr>)
         else s)"

definition sp_handle :: "'s env \<Rightarrow> nat \<Rightarrow> u32 \<Rightarrow> asio_error \<Rightarrow> service_port \<times> server \<Rightarrow> service_port \<times> server" where
  "sp_handle env acceptor remoteIp err st =
     (let (sp, s) = st
      in if err = NoError then
           (if sp_services sp = [] then (sp, s)
            else (sp, sp_accept acceptor (accept_peer env sp remoteIp s)))
         else if err \<noteq> OperationAborted then
           (let sp = sp_close sp
            in if \<not> sp_pendingStart sp then
                 (let sp = sp\<lparr>sp_pendingStart := True\<rparr>;
                      (ip, sp) = acceptor_address acceptor sp
                  in (sp, s\<lparr>s_net := add_event 5000 (OpenServices (sp_serverPort sp) [ip]) (s_net s)\<rparr>))
               else (sp, s))
         else (sp, s))"

section \<open>The manager of the ports\<close>

record service_manager =
  sm_acceptors :: "(u16 \<times> service_port) list"
  sm_running :: bool

definition new_service_manager :: service_manager where
  "new_service_manager = \<lparr>sm_acceptors = [], sm_running = False\<rparr>"

definition manager_add ::
  "(u32 \<Rightarrow> u16 \<Rightarrow> bool) \<Rightarrow> service \<Rightarrow> u16 \<Rightarrow> u32 list \<Rightarrow> service_manager \<times> server \<Rightarrow> bool \<times> service_manager \<times> server" where
  "manager_add bind_ok sv port ips st =
     (let (sm, s) = st
      in if port = 0 then (False, sm, s)
         else case map_of (sm_acceptors sm) port of
           None \<Rightarrow>
             (let (sp, s) = sp_open bind_ok ips port (new_service_port, s);
                  (ok, sp) = sp_add sv sp
              in (ok, sm\<lparr>sm_acceptors := omap_put port sp (sm_acceptors sm)\<rparr>, s))
         | Some sp \<Rightarrow>
             if sp_isSingleSocket sp \<or> isSingleSocket sv then (False, sm, s)
             else let (ok, sp) = sp_add sv sp
                  in (ok, sm\<lparr>sm_acceptors := omap_put port sp (sm_acceptors sm)\<rparr>, s))"

text \<open>The scheduled call of \<open>services\<close> or \<open>service\<close>: it does nothing once the port is gone.\<close>

definition sm_services ::
  "(u32 \<Rightarrow> u16 \<Rightarrow> bool) \<Rightarrow> u32 list \<Rightarrow> u16 \<Rightarrow> service_manager \<times> server \<Rightarrow> service_manager \<times> server" where
  "sm_services bind_ok ips port st =
     (let (sm, s) = st
      in case map_of (sm_acceptors sm) port of
           None \<Rightarrow> (sm, s)
         | Some sp \<Rightarrow> (let (sp, s) = sp_open bind_ok ips port (sp, s)
                      in (sm\<lparr>sm_acceptors := omap_put port sp (sm_acceptors sm)\<rparr>, s)))"

definition sm_run :: "service_manager \<Rightarrow> service_manager" where
  "sm_run sm = sm\<lparr>sm_running := True\<rparr>"

definition sm_stop :: "service_manager \<times> server \<Rightarrow> service_manager \<times> server" where
  "sm_stop st =
     (let (sm, s) = st
      in if \<not> sm_running sm then (sm, s)
         else (sm\<lparr>sm_running := False, sm_acceptors := []\<rparr>,
               s\<lparr>s_closing := s_closing s @ map snd (sm_acceptors sm), s_net := pool_stop (s_net s), s_deathTimer := True\<rparr>))"

definition sm_isRunning :: "service_manager \<Rightarrow> bool" where
  "sm_isRunning sm \<longleftrightarrow> sm_acceptors sm \<noteq> []"

definition sm_getPorts :: "service_manager \<Rightarrow> u16 list" where
  "sm_getPorts sm = map fst (sm_acceptors sm)"

section \<open>Opening a port\<close>

definition acceptors_fresh :: "service_port \<Rightarrow> server \<Rightarrow> bool" where
  "acceptors_fresh sp s \<longleftrightarrow> (\<forall>a \<in> fst ` set (sp_acceptors sp). a < s_nextAcceptor s)"

lemma update_new_key: "k \<notin> fst ` set xs \<Longrightarrow> AList.update k v xs = xs @ [(k, v)]"
  by (induction xs) auto

lemma open_loop_result:
  assumes "acceptors_fresh sp s"
  shows "open_loop bind_ok ips pend (sp, s) =
     (let ok = filter (\<lambda>ip. bind_ok ip (sp_serverPort sp)) ips; new = [s_nextAcceptor s..<s_nextAcceptor s + length ok]
      in (pend @ (if s_logError s then filter (\<lambda>ip. \<not> bind_ok ip (sp_serverPort sp)) ips else []),
          sp\<lparr>sp_acceptors := sp_acceptors sp @ zip new ok\<rparr>,
          s\<lparr>s_nextAcceptor := s_nextAcceptor s + length ok, s_accepting := s_accepting s @ new\<rparr>))"
  using assms
proof (induction ips arbitrary: pend sp s)
  case Nil
  then show ?case by simp
next
  case (Cons ip ips)
  show ?case
  proof (cases "bind_ok ip (sp_serverPort sp)")
    case False
    then show ?thesis using Cons by (simp add: Let_def)
  next
    case True
    define a where "a = s_nextAcceptor s"
    have upd: "AList.update a ip (sp_acceptors sp) = sp_acceptors sp @ [(a, ip)]"
      using Cons.prems by (intro update_new_key) (auto simp: acceptors_fresh_def a_def)
    have "acceptors_fresh (sp\<lparr>sp_acceptors := sp_acceptors sp @ [(a, ip)]\<rparr>) (sp_accept a (s\<lparr>s_nextAcceptor := a + 1\<rparr>))"
      using Cons.prems by (auto simp: acceptors_fresh_def a_def sp_accept_def)
    from Cons.IH [OF this, of pend] show ?thesis
      using True upd by (simp add: Let_def sp_accept_def a_def upt_rec [of "s_nextAcceptor s"])
  qed
qed

text \<open>C30. What \<open>open\<close> does with its addresses: every address that can be bound gets an acceptor with an
  accept under way. The others are tried again in five seconds, but only as long as no error
  has been logged: after the first failure of any port, an address that cannot be bound is
  forgotten, with nothing scheduled.\<close>

theorem sp_open_outcome:
  assumes "acceptors_fresh sp s" and "sp_open bind_ok ips port (sp, s) = (sp', s')"
    and "failed = filter (\<lambda>ip. \<not> bind_ok ip port) ips"
  shows "map snd (sp_acceptors sp') = map snd (sp_acceptors sp) @ filter (\<lambda>ip. bind_ok ip port) ips \<and>
     set (s_accepting s') = set (s_accepting s) \<union> (fst ` set (sp_acceptors sp') - fst ` set (sp_acceptors sp)) \<and>
     (if s_logError s \<and> failed \<noteq> []
      then sp_pendingStart sp' \<and> \<not> s_logError s' \<and> s_net s' = add_event 5000 (OpenServices port failed) (s_net s)
      else \<not> sp_pendingStart sp' \<and> s_net s' = s_net s \<and> s_logError s' = s_logError s)"
proof -
  define sp0 where "sp0 = sp\<lparr>sp_pendingStart := False, sp_serverPort := port\<rparr>"
  define ok where "ok = filter (\<lambda>ip. bind_ok ip port) ips"
  define new where "new = [s_nextAcceptor s..<s_nextAcceptor s + length ok]"
  have "acceptors_fresh sp0 s" using assms(1) by (simp add: acceptors_fresh_def sp0_def)
  note loop = open_loop_result [OF this, of bind_ok ips "[]"]
  have loop: "open_loop bind_ok ips [] (sp0, s) = (if s_logError s then failed else [],
      sp0\<lparr>sp_acceptors := sp_acceptors sp @ zip new ok\<rparr>,
      s\<lparr>s_nextAcceptor := s_nextAcceptor s + length ok, s_accepting := s_accepting s @ new\<rparr>)"
    unfolding loop by (simp add: Let_def ok_def new_def sp0_def assms(3))
  have len: "length new = length ok" by (simp add: new_def)
  have disj: "set new \<inter> fst ` set (sp_acceptors sp) = {}"
    using assms(1) by (auto simp: acceptors_fresh_def new_def)
  have img: "fst ` set (zip new ok) = set new" using len by (simp flip: set_map)
  have "sp_acceptors sp' = sp_acceptors sp @ zip new ok" "s_accepting s' = s_accepting s @ new"
    using assms(2) loop by (auto simp: sp_open_def sp0_def [symmetric] split: if_splits)
  moreover from this have "fst ` set (sp_acceptors sp') - fst ` set (sp_acceptors sp) = set new"
    using disj img by (auto simp: image_Un)
  ultimately show ?thesis
    using assms(2) loop len by (auto simp: sp_open_def sp0_def ok_def split: if_splits)
qed

definition demo_server :: server where
  "demo_server = \<lparr>s_net = demo_net, s_logError = True, s_nextAcceptor = 0, s_nextConn = 5, s_accepting = [], s_closing = [], s_deathTimer = False\<rparr>"

theorem sp_open_outcome_witness:
  "\<exists>sp' s'. sp_open (\<lambda>ip port. ip = 1) [1, 2] 7171 (new_service_port, demo_server) = (sp', s') \<and>
     map snd (sp_acceptors sp') = [1] \<and> sp_pendingStart sp' \<and> s_net s' = add_event 5000 (OpenServices 7171 [2]) demo_net"
proof -
  obtain sp' s' where run: "sp_open (\<lambda>ip port. ip = 1) [1, 2] 7171 (new_service_port, demo_server) = (sp', s')" by fastforce
  have "acceptors_fresh new_service_port demo_server" by (simp add: acceptors_fresh_def new_service_port_def)
  from sp_open_outcome [OF this run refl] run show ?thesis by (simp add: new_service_port_def demo_server_def)
qed

section \<open>Accepting a peer\<close>

lemma peer_served:
  assumes services: "sp_services sp = sv # svs" "\<not> isSingleSocket sv"
    and handled: "sp_handle env acceptor remoteIp NoError (sp, s) = (sp', s')"
    and admitted: "admitted = (remoteIp \<noteq> 0 \<and> fst (acceptConnection (word_of_int (e_ms env)) remoteIp (n_cm (s_net s))))"
  shows "sp' = sp \<and> s_accepting s' = s_accepting s @ [acceptor] \<and>
     n_io (s_net s') = n_io (s_net s) @ (if admitted then [ReadHeader (s_nextConn s)] else []) \<and>
     cm_connections (n_cm (s_net s')) = cm_connections (n_cm (s_net s)) @ (if admitted then [s_nextConn s] else []) \<and>
     n_conns (s_net s') = (if admitted
       then (n_conns (s_net s))(s_nextConn s := (new_connection (e_time env) remoteIp)\<lparr>cn_pendingRead := 1, cn_readTimer := True\<rparr>)
       else n_conns (s_net s))"
proof -
  obtain ok cm where cm: "acceptConnection (word_of_int (e_ms env)) remoteIp (n_cm (s_net s)) = (ok, cm)" by fastforce
  have conns: "cm_connections cm = cm_connections (n_cm (s_net s))"
    using cm by (auto simp: acceptConnection_def Let_def split: if_splits option.splits)
  show ?thesis
    using services handled admitted cm conns
    by (auto simp: sp_handle_def accept_peer_def sp_isSingleSocket_def create_connection_def conn_accept_def upd_conn_def sp_accept_def
        cm_createConnection_def new_connection_def Let_def)
qed

text \<open>C28. A peer is served exactly when the flood guard lets it in: the handler of an accept makes one
  connection, listed by the manager, open and waiting for its first header, if the address is
  known and admitted; otherwise it makes none. Either way the acceptor goes on accepting.\<close>

theorem peer_served_iff_admitted:
  assumes services: "sp_services sp = sv # svs" "\<not> isSingleSocket sv"
    and handled: "sp_handle env acceptor remoteIp NoError (sp, s) = (sp', s')"
    and admitted: "admitted = (remoteIp \<noteq> 0 \<and> fst (acceptConnection (word_of_int (e_ms env)) remoteIp (n_cm (s_net s))))"
  shows "sp' = sp \<and> s_accepting s' = s_accepting s @ [acceptor] \<and>
     n_io (s_net s') = n_io (s_net s) @ (if admitted then [ReadHeader (s_nextConn s)] else []) \<and>
     cm_connections (n_cm (s_net s')) = cm_connections (n_cm (s_net s)) @ (if admitted then [s_nextConn s] else []) \<and>
     n_conns (s_net s') = (if admitted
       then (n_conns (s_net s))(s_nextConn s := (new_connection (e_time env) remoteIp)\<lparr>cn_pendingRead := 1, cn_readTimer := True\<rparr>)
       else n_conns (s_net s))"
  using assms by (rule peer_served)

theorem peer_served_iff_admitted_witness:
  "\<exists>sp' s'. sp_handle (login_env (new_config (\<lambda>_. False) (\<lambda>_. 4))) 0 0x7F000001 NoError
     (new_service_port\<lparr>sp_services := [login_service]\<rparr>, demo_server) = (sp', s') \<and> n_io (s_net s') = [ReadHeader 5]"
proof -
  let ?sp = "new_service_port\<lparr>sp_services := [login_service]\<rparr>"
  let ?env = "login_env (new_config (\<lambda>_. False) (\<lambda>_. 4))"
  obtain sp' s' where run: "sp_handle ?env 0 0x7F000001 NoError (?sp, demo_server) = (sp', s')" by fastforce
  have "fst (acceptConnection (word_of_int (e_ms ?env)) 0x7F000001 (n_cm (s_net demo_server)))"
    by (simp add: acceptConnection_def demo_server_def demo_net_def cm_createConnection_def new_connection_manager_def)
  with peer_served_iff_admitted [of ?sp login_service "[]", OF _ _ run refl] run show ?thesis
    by (simp add: login_service_def demo_server_def demo_net_def)
qed

text \<open>The limit of the recovery of a port: when an accept fails, the handler closes the acceptors, which
  empties the map, before it looks up the address of the failed acceptor there. The port is
  opened again on the default address, every interface, and not on the configured one.\<close>

theorem failed_accept_reopens_default_address:
  assumes "err \<noteq> NoError" and "err \<noteq> OperationAborted" and "\<not> sp_pendingStart sp"
  shows "\<exists>sp'. sp_handle env acceptor remoteIp err (sp, s) =
     (sp', s\<lparr>s_net := add_event 5000 (OpenServices (sp_serverPort sp) [0]) (s_net s)\<rparr>) \<and> sp_pendingStart sp'"
proof -
  have "sp_acceptors (sp_close sp) = []" "\<not> sp_pendingStart (sp_close sp)" "sp_serverPort (sp_close sp) = sp_serverPort sp"
    using assms(3) by (simp_all add: sp_close_def)
  then show ?thesis using assms(1,2) by (simp add: sp_handle_def acceptor_address_def)
qed

theorem failed_accept_reopens_default_address_witness:
  "\<exists>sp'. sp_handle (login_env (new_config (\<lambda>_. False) (\<lambda>_. 4))) 0 0 OtherError
     (new_service_port\<lparr>sp_acceptors := [(0, 0x0100007F)], sp_serverPort := 7171\<rparr>, demo_server) =
     (sp', demo_server\<lparr>s_net := add_event 5000 (OpenServices 7171 [0]) demo_net\<rparr>)"
  using failed_accept_reopens_default_address [of OtherError "new_service_port\<lparr>sp_acceptors := [(0, 0x0100007F)], sp_serverPort := 7171\<rparr>"
      "login_env (new_config (\<lambda>_. False) (\<lambda>_. 4))" 0 0 demo_server]
  by (auto simp: new_service_port_def demo_server_def)

section \<open>Services of a port\<close>

text \<open>A port with a single-socket service has no other service.\<close>

definition port_exclusive :: "service_port \<Rightarrow> bool" where
  "port_exclusive sp \<longleftrightarrow> (\<exists>sv \<in> set (sp_services sp). isSingleSocket sv) \<longrightarrow> length (sp_services sp) = 1"

definition manager_inv :: "service_manager \<Rightarrow> bool" where
  "manager_inv sm \<longleftrightarrow> omap_inv (sm_acceptors sm) \<and> 0 \<notin> fst ` set (sm_acceptors sm) \<and>
     (\<forall>(port, sp) \<in> set (sm_acceptors sm). port_exclusive sp)"

lemma manager_inv_put:
  assumes "manager_inv sm" and "port \<noteq> 0" and "port_exclusive sp"
  shows "manager_inv (sm\<lparr>sm_acceptors := omap_put port sp (sm_acceptors sm)\<rparr>)"
proof -
  have "set (omap_put port sp (sm_acceptors sm)) \<subseteq> insert (port, sp) (set (sm_acceptors sm))" by (rule set_omap_put_subset)
  then show ?thesis
    using assms by (auto simp: manager_inv_def omap_inv_put fst_set_omap_put)
qed

lemma sp_open_services: "sp_open bind_ok ips port (sp, s) = (sp', s') \<Longrightarrow> sp_services sp' = sp_services sp"
proof -
  have loop: "open_loop bind_ok ips pend (sp, s) = (pend', sp', s') \<Longrightarrow> sp_services sp' = sp_services sp" for pend pend' sp s sp' s'
    by (induction ips arbitrary: pend sp s) (auto simp: Let_def split: if_splits)
  show "sp_open bind_ok ips port (sp, s) = (sp', s') \<Longrightarrow> sp_services sp' = sp_services sp"
    by (auto simp: sp_open_def Let_def split: prod.splits if_splits dest: loop)
qed

datatype sm_op = SmAdd service u16 "u32 list" | SmServices "u32 list" u16 | SmRun | SmStop

fun sm_step :: "(u32 \<Rightarrow> u16 \<Rightarrow> bool) \<Rightarrow> sm_op \<Rightarrow> service_manager \<times> server \<Rightarrow> service_manager \<times> server" where
  "sm_step bind_ok (SmAdd sv port ips) st = snd (manager_add bind_ok sv port ips st)"
| "sm_step bind_ok (SmServices ips port) st = sm_services bind_ok ips port st"
| "sm_step bind_ok SmRun st = (sm_run (fst st), snd st)"
| "sm_step bind_ok SmStop st = sm_stop st"

lemma sp_add_exclusive:
  assumes "port_exclusive sp" and "sp_add sv sp = (ok, sp')" and "sp_services sp = [] \<or> \<not> isSingleSocket sv"
  shows "port_exclusive sp'"
  using assms by (auto simp: sp_add_def port_exclusive_def split: if_splits)

lemma sp_open_exclusive: "sp_open bind_ok ips port (sp, s) = (sp', s') \<Longrightarrow> port_exclusive sp' = port_exclusive sp"
  using sp_open_services by (simp add: port_exclusive_def)

lemma manager_add_inv:
  assumes "manager_inv sm" and "manager_add bind_ok sv port ips (sm, s) = (ok, sm', s')"
  shows "manager_inv sm'"
proof (cases "port = 0")
  case True
  then show ?thesis using assms by (simp add: manager_add_def)
next
  case False
  show ?thesis
  proof (cases "map_of (sm_acceptors sm) port")
    case None
    obtain sp1 s1 where o: "sp_open bind_ok ips port (new_service_port, s) = (sp1, s1)" by fastforce
    obtain ok1 sp2 where a: "sp_add sv sp1 = (ok1, sp2)" by fastforce
    have "sp_services sp1 = []" using sp_open_services [OF o] by (simp add: new_service_port_def)
    then have "port_exclusive sp2" using sp_add_exclusive [OF _ a] by (simp add: port_exclusive_def)
    then show ?thesis using assms False None o a manager_inv_put by (auto simp: manager_add_def)
  next
    case (Some sp)
    then have sp: "port_exclusive sp" using assms(1) by (auto simp: manager_inv_def dest!: map_of_SomeD)
    obtain ok1 sp2 where a: "sp_add sv sp = (ok1, sp2)" by fastforce
    show ?thesis
    proof (cases "sp_isSingleSocket sp \<or> isSingleSocket sv")
      case True
      then show ?thesis using assms False Some by (auto simp: manager_add_def)
    next
      case f: False
      then have "port_exclusive sp2" using sp_add_exclusive [OF sp a] by simp
      then show ?thesis using assms False Some f a manager_inv_put by (auto simp: manager_add_def)
    qed
  qed
qed

lemma sm_step_inv: "manager_inv (fst st) \<Longrightarrow> manager_inv (fst (sm_step bind_ok e st))"
proof (cases e)
  case (SmAdd sv port ips)
  obtain sm s where st: "st = (sm, s)" by fastforce
  obtain ok sm' s' where "manager_add bind_ok sv port ips (sm, s) = (ok, sm', s')" by (metis prod.collapse)
  moreover assume "manager_inv (fst st)"
  ultimately show ?thesis using SmAdd st manager_add_inv by simp
next
  case (SmServices ips port)
  obtain sm s where st: "st = (sm, s)" by fastforce
  assume inv: "manager_inv (fst st)"
  show ?thesis
  proof (cases "map_of (sm_acceptors sm) port")
    case None
    then show ?thesis using inv SmServices st by (simp add: sm_services_def)
  next
    case (Some sp)
    obtain sp1 s1 where o: "sp_open bind_ok ips port (sp, s) = (sp1, s1)" by fastforce
    have "(port, sp) \<in> set (sm_acceptors sm)" using Some by (rule map_of_SomeD)
    then have "port \<noteq> 0" "port_exclusive sp1"
      using inv st sp_open_exclusive [OF o] by (force simp: manager_inv_def)+
    then show ?thesis using inv SmServices st Some o manager_inv_put by (simp add: sm_services_def)
  qed
qed (auto simp: sm_run_def sm_stop_def manager_inv_def omap_inv_def Let_def split: prod.splits)

interpretation manager_machine: guarded_machine "sm_step bind_ok" "\<lambda>st. manager_inv (fst st)" for bind_ok
  by unfold_locales (rule sm_step_inv)

text \<open>C29. Ports stay well-formed: whatever services are added, reopened, run and stopped, from an empty
  manager, the ports are in order, none has the number 0, and a single-socket service never
  shares its port with another.\<close>

theorem service_ports_exclusive:
  "manager_inv (fst (fold (sm_step bind_ok) ops (new_service_manager, s)))"
proof -
  have "manager_inv (fst (new_service_manager, s))" by (simp add: manager_inv_def new_service_manager_def omap_inv_def)
  then show ?thesis by (rule manager_machine.run_inv)
qed

end
