(* ===== verification/Text_Logger.thy ===== *)
theory Text_Logger
  imports Config_Manager
begin

text \<open>
  The log files and the output of the program (\<open>textlogger.h\<close>, \<open>textlogger.cpp\<close>) and the formatting of dates
  they use (\<open>tools.cpp\<close>).

  \<open>localtime\<close> is a parameter that may fail; the clock readings are arguments. A file is its path, the
  disk a function from paths to contents, and \<open>can_open\<close> says which paths \<open>fopen\<close> opens. The two
  standard streams are redirected to the handler, whose \<open>overflow\<close> gets one character at a time.
\<close>

section \<open>Dates\<close>

record tm =
  tm_mday :: int
  tm_mon :: int
  tm_year :: int
  tm_hour :: int
  tm_min :: int
  tm_sec :: int

definition unix_text :: "int \<Rightarrow> string" where
  "unix_text t = ''UNIX Time: '' @ show_int (to_i32 t)"

definition formatDate :: "(int \<Rightarrow> tm option) \<Rightarrow> int \<Rightarrow> int \<Rightarrow> string" where
  "formatDate localtime now t =
     (let t = (if t = 0 then now else t)
      in case localtime t of
           Some tms \<Rightarrow> show_int (tm_mday tms) @ ''/'' @ show_int (tm_mon tms + 1) @ ''/'' @ show_int (tm_year tms + 1900) @ '' ''
             @ show_int (tm_hour tms) @ '':'' @ show_int (tm_min tms) @ '':'' @ show_int (tm_sec tms)
         | None \<Rightarrow> unix_text t)"

text \<open>
  \<open>formatDateEx\<close> gives \<open>strftime\<close>, whose whole text is a parameter, room for 24 characters: of a longer text
  nothing is left that C++ defines, which is \<open>None\<close>.
\<close>

definition formatDateEx :: "(int \<Rightarrow> tm option) \<Rightarrow> (string \<Rightarrow> tm \<Rightarrow> string) \<Rightarrow> int \<Rightarrow> int \<Rightarrow> string \<Rightarrow> string option" where
  "formatDateEx localtime strftime now t format =
     (let t = (if t = 0 then now else t)
      in case localtime t of
           Some tms \<Rightarrow> let s = strftime format tms in if length s < 25 then Some s else None
         | None \<Rightarrow> Some (unix_text t))"

text \<open>\<open>formatTime\<close>, with the microseconds of the clock for the fraction.\<close>

definition formatTime :: "(int \<Rightarrow> tm option) \<Rightarrow> int \<Rightarrow> int \<Rightarrow> int \<Rightarrow> bool \<Rightarrow> string" where
  "formatTime localtime now usec t ms =
     (let ms = (if t = 0 then ms else False);
          t = (if t = 0 then now else t)
      in case localtime t of
           Some tms \<Rightarrow> show_int (tm_hour tms) @ '':'' @ show_int (tm_min tms) @ '':''
             @ (if tm_sec tms < 10 then ''0'' else []) @ show_int (tm_sec tms)
             @ (if ms then (let millitm = usec div 1000
                            in ''.'' @ (if millitm < 10 then ''0'' else []) @ (if millitm < 100 then ''0'' else []) @ show_int millitm)
                else [])
         | None \<Rightarrow> unix_text t)"

section \<open>The logger\<close>

datatype log_file = LOGFILE_ADMIN | LOGFILE_OUTPUT

datatype log_type = LOGTYPE_EVENT | LOGTYPE_NOTICE | LOGTYPE_WARNING | LOGTYPE_ERROR

record logger =
  lg_files :: "log_file \<rightharpoonup> string"
  lg_loaded :: bool
  lg_disk :: "string \<Rightarrow> string"

text \<open>The one instance has static storage, so its files start as null pointers.\<close>

definition new_logger :: "(string \<Rightarrow> string) \<Rightarrow> logger" where
  "new_logger disk = \<lparr>lg_files = Map.empty, lg_loaded = False, lg_disk = disk\<rparr>"

definition log_path :: "config \<Rightarrow> string" where
  "log_path cfg =
     (let path = getString OUTPUT_LOG cfg
      in if length path < 3 then []
         else if path ! 0 \<noteq> CHR ''/'' \<and> path ! 1 \<noteq> CHR '':'' then getFilePath FILE_TYPE_LOG path
         else path)"

definition lg_fopen :: "(string \<Rightarrow> bool) \<Rightarrow> log_file \<Rightarrow> string \<Rightarrow> bool \<Rightarrow> logger \<Rightarrow> logger" where
  "lg_fopen can_open file path trunc lg =
     (if can_open path
      then lg\<lparr>lg_files := (lg_files lg)(file \<mapsto> path), lg_disk := (if trunc then (lg_disk lg)(path := []) else lg_disk lg)\<rparr>
      else lg\<lparr>lg_files := (lg_files lg)(file := None)\<rparr>)"

definition lg_open :: "(string \<Rightarrow> bool) \<Rightarrow> config \<Rightarrow> logger \<Rightarrow> logger" where
  "lg_open can_open cfg lg =
     (let lg = lg_fopen can_open LOGFILE_ADMIN (getFilePath FILE_TYPE_LOG ''admin.log'') False lg;
          lg = (if log_path cfg \<noteq> [] then lg_fopen can_open LOGFILE_OUTPUT (log_path cfg) (getBool TRUNCATE_LOG cfg) lg else lg)
      in lg\<lparr>lg_loaded := True\<rparr>)"

definition lg_close :: "logger \<Rightarrow> logger" where
  "lg_close lg = lg\<lparr>lg_loaded := False\<rparr>"

definition lg_internal :: "string \<Rightarrow> string \<Rightarrow> bool \<Rightarrow> logger \<Rightarrow> logger" where
  "lg_internal path text newLine lg =
     (let text = (if newLine then text @ [CHR 0x0A] else text)
      in lg\<lparr>lg_disk := (lg_disk lg)(path := lg_disk lg path @ c_str text)\<rparr>)"

definition iFile :: "log_file \<Rightarrow> string \<Rightarrow> bool \<Rightarrow> logger \<Rightarrow> logger" where
  "iFile file text newLine lg =
     (case lg_files lg file of
        None \<Rightarrow> lg
      | Some path \<Rightarrow> if lg_loaded lg then lg_internal path text newLine lg else lg)"

definition eFile :: "(string \<Rightarrow> bool) \<Rightarrow> string \<Rightarrow> string \<Rightarrow> string \<Rightarrow> bool \<Rightarrow> logger \<Rightarrow> logger" where
  "eFile can_open date file text newLine lg =
     (if can_open (getFilePath FILE_TYPE_LOG file)
      then lg_internal (getFilePath FILE_TYPE_LOG file) (''['' @ date @ ''] '' @ text) newLine lg else lg)"

fun log_type_name :: "log_type \<Rightarrow> string" where
  "log_type_name LOGTYPE_EVENT = ''Event''"
| "log_type_name LOGTYPE_NOTICE = ''Notice''"
| "log_type_name LOGTYPE_WARNING = ''Warning''"
| "log_type_name LOGTYPE_ERROR = ''Error''"

definition lg_log :: "string \<Rightarrow> string \<Rightarrow> log_type \<Rightarrow> string \<Rightarrow> string \<Rightarrow> bool \<Rightarrow> logger \<Rightarrow> logger" where
  "lg_log date func t message channel newLine lg =
     (if \<not> lg_loaded lg then lg
      else iFile LOGFILE_ADMIN
        (''['' @ date @ '']'' @ '' ('' @ log_type_name t @ '' - '' @ func @ '') ''
         @ (if channel \<noteq> [] then channel @ '': '' else []) @ message) newLine lg)"

section \<open>The output handler\<close>

record output_handler =
  o_cache :: string
  o_console :: string
  o_logger :: logger

definition line_end :: "char \<Rightarrow> bool" where
  "line_end c \<longleftrightarrow> c = CHR 0x0A \<or> c = CHR 0x0D"

definition stamped :: "string \<Rightarrow> string \<Rightarrow> string" where
  "stamped stamp line = (if length line > 1 then ''['' @ stamp @ ''] '' else []) @ line"

text \<open>\<open>overflow\<close>: \<open>time\<close> and \<open>date\<close> are the texts of \<open>formatTime(0, true)\<close> and \<open>formatDate()\<close>.\<close>

definition out_overflow :: "string \<Rightarrow> string \<Rightarrow> char \<Rightarrow> output_handler \<Rightarrow> output_handler" where
  "out_overflow time date c out =
     (let out = out\<lparr>o_cache := o_cache out @ [c]\<rparr>
      in if \<not> line_end c then out
         else let out = out\<lparr>o_console := o_console out @ stamped time (o_cache out)\<rparr>;
                  out = (if lg_loaded (o_logger out)
                         then out\<lparr>o_logger := iFile LOGFILE_OUTPUT (stamped date (o_cache out)) False (o_logger out)\<rparr> else out)
              in out\<lparr>o_cache := []\<rparr>)"

section \<open>Properties\<close>

text \<open>
  The reference: the characters cut into lines, each with the clock texts of its last character,
  and the rest after the last line.
\<close>

fun cut_lines :: "(string \<times> string \<times> char) list \<Rightarrow> string \<Rightarrow> (string \<times> string \<times> string) list \<times> string" where
  "cut_lines [] cache = ([], cache)"
| "cut_lines ((time, date, c) # cs) cache =
     (if line_end c then (let (ls, rest) = cut_lines cs [] in ((time, date, cache @ [c]) # ls, rest))
      else cut_lines cs (cache @ [c]))"

definition out_run :: "(string \<times> string \<times> char) list \<Rightarrow> output_handler \<Rightarrow> output_handler" where
  "out_run cs out = fold (\<lambda>(time, date, c). out_overflow time date c) cs out"

lemma cut_lines_complete:
  "cut_lines cs cache = (ls, rest) \<Longrightarrow> concat (map (snd \<circ> snd) ls) @ rest = cache @ map (snd \<circ> snd) cs"
  by (induction cs cache arbitrary: ls rest rule: cut_lines.induct) (auto split: prod.splits if_splits)

lemma overflow_open:
  assumes "lg_loaded (o_logger out)" and "lg_files (o_logger out) LOGFILE_OUTPUT = Some path" and "line_end c"
  shows "out_overflow time date c out = out\<lparr>o_cache := [], o_console := o_console out @ stamped time (o_cache out @ [c]),
     o_logger := (o_logger out)\<lparr>lg_disk := (lg_disk (o_logger out))(path :=
       lg_disk (o_logger out) path @ c_str (stamped date (o_cache out @ [c])))\<rparr>\<rparr>"
  using assms by (simp add: out_overflow_def iFile_def lg_internal_def Let_def)

lemma overflow_inside: "\<not> line_end c \<Longrightarrow> out_overflow time date c out = out\<lparr>o_cache := o_cache out @ [c]\<rparr>"
  by (simp add: out_overflow_def Let_def)

text \<open>C39. The output handler loses nothing and writes whole lines only: after any characters, what has gone to the console
  are exactly the complete lines, each but the empty ones with its time in front; the log file has got
  the same lines with their dates, each up to its first zero byte; the cache holds the rest.\<close>

theorem output_is_line_by_line:
  assumes "lg_loaded (o_logger out)" and "lg_files (o_logger out) LOGFILE_OUTPUT = Some path"
    and "cut_lines cs (o_cache out) = (ls, rest)"
  shows "o_cache (out_run cs out) = rest \<and> concat (map (snd \<circ> snd) ls) @ rest = o_cache out @ map (snd \<circ> snd) cs \<and>
     o_console (out_run cs out) = o_console out @ concat (map (\<lambda>(time, date, line). stamped time line) ls) \<and>
     lg_disk (o_logger (out_run cs out)) path =
       lg_disk (o_logger out) path @ concat (map (\<lambda>(time, date, line). c_str (stamped date line)) ls)"
proof -
  have "o_cache (out_run cs out) = rest \<and>
     o_console (out_run cs out) = o_console out @ concat (map (\<lambda>(time, date, line). stamped time line) ls) \<and>
     lg_disk (o_logger (out_run cs out)) path =
       lg_disk (o_logger out) path @ concat (map (\<lambda>(time, date, line). c_str (stamped date line)) ls)"
    using assms
  proof (induction cs arbitrary: out ls)
    case (Cons x cs)
    obtain time date c where x: "x = (time, date, c)" by (cases x)
    show ?case
    proof (cases "line_end c")
      case True
      then obtain ls' where ls': "cut_lines cs [] = (ls', rest)" "ls = (time, date, o_cache out @ [c]) # ls'"
        using Cons.prems(3) by (auto simp: x split: prod.splits)
      then show ?thesis
        using Cons.IH [of "out_overflow time date c out" ls'] Cons.prems overflow_open [OF Cons.prems(1,2) True]
        by (simp add: out_run_def x)
    next
      case False
      then show ?thesis
        using Cons.IH [of "out_overflow time date c out" ls] Cons.prems by (simp add: out_run_def x overflow_inside)
    qed
  qed (simp add: out_run_def)
  then show ?thesis using cut_lines_complete [OF assms(3)] by simp
qed

theorem output_is_line_by_line_witness:
  "o_console (out_run [(''9:05'', ''1/2'', CHR ''a''), (''9:06'', ''1/2'', CHR 0x0A), (''9:07'', ''1/2'', CHR ''b'')]
     \<lparr>o_cache = [], o_console = [], o_logger = \<lparr>lg_files = [LOGFILE_OUTPUT \<mapsto> ''logs/out''], lg_loaded = True, lg_disk = (\<lambda>_. [])\<rparr>\<rparr>) =
   ''[9:06] a'' @ [CHR 0x0A]"
proof -
  let ?cs = "[(''9:05'', ''1/2'', CHR ''a''), (''9:06'', ''1/2'', CHR 0x0A), (''9:07'', ''1/2'', CHR ''b'')]"
  let ?out = "\<lparr>o_cache = [], o_console = [], o_logger = \<lparr>lg_files = [LOGFILE_OUTPUT \<mapsto> ''logs/out''], lg_loaded = True, lg_disk = (\<lambda>_. [])\<rparr>\<rparr>"
  have "cut_lines ?cs (o_cache ?out) = ([(''9:06'', ''1/2'', [CHR ''a'', CHR 0x0A])], ''b'')" by (simp add: line_end_def)
  from output_is_line_by_line [OF _ _ this, of "''logs/out''"] show ?thesis by (simp add: stamped_def)
qed

end
