(* ===== verification/Process.thy ===== *)
theory Process
  imports Text_Logger
begin

unbundle bit_operations_syntax

text \<open>
  What the loader in \<open>otlogin.cpp\<close> asks of the operating system for its own process: the log files, the
  processors, the run file with the process number and the nice level; and the exits of the program, which
  report an error, wait for a key on the terminal and run the exit handler. \<open>None\<close> is an access to the first
  element of an empty vector. The files of the run file are on the disk of the logger.
\<close>

section \<open>State\<close>

record process =
  ps_logger :: logger
  ps_cpus :: "nat set option"
  ps_atexit :: bool
  ps_nice :: int

definition new_process :: "(string \<Rightarrow> string) \<Rightarrow> process" where
  "new_process disk = \<lparr>ps_logger = new_logger disk, ps_cpus = None, ps_atexit = False, ps_nice = 0\<rparr>"

definition write_file :: "(string \<Rightarrow> bool) \<Rightarrow> string \<Rightarrow> string \<Rightarrow> process \<Rightarrow> process" where
  "write_file can_open path text ps =
     (if can_open path then ps\<lparr>ps_logger := (ps_logger ps)\<lparr>lg_disk := (lg_disk (ps_logger ps))(path := text)\<rparr>\<rparr> else ps)"

section \<open>Operations\<close>

text \<open>\<open>CPU_SET\<close> leaves the mask as it is for a number outside its 1024 bits.\<close>

definition use_cores :: "int list \<Rightarrow> process \<Rightarrow> process option" where
  "use_cores cores ps =
     (case cores of
        [] \<Rightarrow> None
      | c # _ \<Rightarrow> Some (if c \<noteq> -1 then ps\<lparr>ps_cpus := Some (nat ` set (filter (\<lambda>k. 0 \<le> k \<and> k < 1024) cores))\<rparr> else ps))"

definition write_runfile :: "(string \<Rightarrow> bool) \<Rightarrow> int \<Rightarrow> config \<Rightarrow> process \<Rightarrow> process" where
  "write_runfile can_open pid cfg ps =
     (let runPath = getString RUNFILE cfg
      in if runPath \<noteq> [] \<and> length runPath > 2
         then (write_file can_open runPath (show_int pid) ps)\<lparr>ps_atexit := True\<rparr>
         else ps)"

definition process_settings :: "(string \<Rightarrow> bool) \<Rightarrow> int \<Rightarrow> config \<Rightarrow> process \<Rightarrow> process option" where
  "process_settings can_open pid cfg ps = do {
     let ps = ps\<lparr>ps_logger := lg_open can_open cfg (ps_logger ps)\<rparr>;
     ps \<leftarrow> use_cores (m_coresUsed cfg) ps;
     let ps = write_runfile can_open pid cfg ps;
     Some (ps\<lparr>ps_nice := to_i32 (getNumber NICE_LEVEL cfg)\<rparr>)
   }"

text \<open>The handler that runs at the exit of the process, when it has been registered.\<close>

definition runfileHandler :: "(string \<Rightarrow> bool) \<Rightarrow> config \<Rightarrow> process \<Rightarrow> process" where
  "runfileHandler can_open cfg ps = write_file can_open (getString RUNFILE cfg) [] ps"

definition at_exit :: "(string \<Rightarrow> bool) \<Rightarrow> config \<Rightarrow> process \<Rightarrow> process" where
  "at_exit can_open cfg ps = (if ps_atexit ps then runfileHandler can_open cfg ps else ps)"

section \<open>The terminal and the exits\<close>

text \<open>
  The local flags of the terminal and what the program has written. \<open>ICANON\<close> and \<open>ECHO\<close> are numbers of the
  system, and what \<open>getchar\<close> makes of the terminal is its own affair; both are parameters. The result is -1 at
  the end of the input.
\<close>

record terminal =
  te_lflag :: u32
  te_written :: string

record terminal_system =
  ICANON :: u32
  ECHO :: u32
  getchar :: "terminal \<Rightarrow> int \<times> terminal"

definition getch :: "terminal_system \<Rightarrow> terminal \<Rightarrow> int \<times> terminal" where
  "getch ts te =
     (let oldt = te_lflag te;
          newt = oldt AND NOT (ICANON ts OR ECHO ts);
          (ch, te) = getchar ts (te\<lparr>te_lflag := newt\<rparr>)
      in (ch, te\<lparr>te_lflag := oldt\<rparr>))"

text \<open>The number the process leaves with, the terminal and the process after its exit handler.\<close>

definition startupErrorMessage ::
    "terminal_system \<Rightarrow> (string \<Rightarrow> bool) \<Rightarrow> config \<Rightarrow> string \<Rightarrow> terminal \<times> process \<Rightarrow> int \<times> terminal \<times> process" where
  "startupErrorMessage ts can_open cfg error st =
     (let (te, ps) = st;
          te = (if length error > 0
                then te\<lparr>te_written := te_written te @ newline_str @ ''> ERROR: '' @ error @ newline_str\<rparr> else te);
          (ch, te) = getch ts te
      in (-1, te, at_exit can_open cfg ps))"

definition allocationHandler ::
    "terminal_system \<Rightarrow> (string \<Rightarrow> bool) \<Rightarrow> config \<Rightarrow> terminal \<times> process \<Rightarrow> int \<times> terminal \<times> process" where
  "allocationHandler ts can_open cfg st =
     (let (te, ps) = st;
          te = te\<lparr>te_written := te_written te @ ''Allocation failed, server out of memory!'' @ newline_str @
                ''Decrease size of your map or compile in a 64-bit mode.'' @ newline_str\<rparr>;
          (ch, te) = getch ts te
      in (-1, te, at_exit can_open cfg ps))"

section \<open>Properties\<close>

lemma process_settings_returns:
  "m_coresUsed cfg \<noteq> [] \<Longrightarrow> \<exists>ps'. process_settings can_open pid cfg ps = Some ps'"
  by (cases "m_coresUsed cfg") (simp_all add: process_settings_def use_cores_def Let_def)

text \<open>The run file holds the process number while the program runs, and nothing afterwards: a name of one or two
  characters names no run file, and a file that cannot be written is left as it is.\<close>

lemma run_file_life:
  assumes "process_settings can_open pid cfg ps = Some ps'" and "length (getString RUNFILE cfg) > 2" and "can_open (getString RUNFILE cfg)"
  shows "lg_disk (ps_logger ps') (getString RUNFILE cfg) = show_int pid"
    and "lg_disk (ps_logger (at_exit can_open cfg ps')) (getString RUNFILE cfg) = []"
  using assms
  by (auto simp: process_settings_def use_cores_def write_runfile_def write_file_def at_exit_def runfileHandler_def Let_def split: list.splits)

lemma no_run_file:
  assumes "process_settings can_open pid cfg ps = Some ps'" and "length (getString RUNFILE cfg) \<le> 2" and "\<not> ps_atexit ps"
  shows "lg_disk (ps_logger ps') = lg_disk (lg_open can_open cfg (ps_logger ps))" and "at_exit can_open cfg ps' = ps'"
  using assms
  by (auto simp: process_settings_def use_cores_def write_runfile_def at_exit_def Let_def split: list.splits)

lemma processors_in_range:
  assumes "use_cores cores ps = Some ps'" and "ps_cpus ps' = Some cpus" and "ps_cpus ps = None" and "k \<in> cpus"
  shows "k < 1024 \<and> int k \<in> set cores"
  using assms by (auto simp: use_cores_def split: list.splits if_splits)

text \<open>A key is read by the character and unseen, with the other flags as they were, and the flags are put back whatever
  the reading does to them.\<close>

lemma getch_flags:
  "\<exists>te' te1. getch ts te = (fst (getchar ts te'), te1) \<and> te_lflag te1 = te_lflag te \<and> te_written te' = te_written te \<and>
     te_lflag te' AND ICANON ts = 0 \<and> te_lflag te' AND ECHO ts = 0 \<and>
     (\<forall>f. f AND (ICANON ts OR ECHO ts) = 0 \<longrightarrow> te_lflag te' AND f = te_lflag te AND f)"
proof -
  let ?te = "te\<lparr>te_lflag := te_lflag te AND NOT (ICANON ts OR ECHO ts)\<rparr>"
  have off: "(x AND NOT (a OR b)) AND a = 0" "(x AND NOT (a OR b)) AND b = 0" for x a b :: u32
    by (rule bit_word_eqI; auto simp: bit_simps)+
  have keep: "(x AND NOT a) AND f = x AND f" if "f AND a = 0" for x a f :: u32
  proof (rule bit_word_eqI)
    fix n
    assume "n < LENGTH(32)"
    have "\<not> (bit f n \<and> bit a n)" using that by (metis bit_and_iff bit_0_eq bot_apply bot_bool_def)
    with \<open>n < LENGTH(32)\<close> show "bit ((x AND NOT a) AND f) n \<longleftrightarrow> bit (x AND f) n" by (auto simp: bit_simps)
  qed
  have run: "getch ts te = (fst (getchar ts ?te), (snd (getchar ts ?te))\<lparr>te_lflag := te_lflag te\<rparr>)"
    by (simp only: getch_def Let_def case_prod_beta)
  have sel: "te_lflag (t\<lparr>te_lflag := f\<rparr>) = f" "te_written (t\<lparr>te_lflag := f\<rparr>) = te_written t" for t :: terminal and f by simp_all
  show ?thesis
    by (rule exI [of _ ?te], rule exI [of _ "(snd (getchar ts ?te))\<lparr>te_lflag := te_lflag te\<rparr>"], intro conjI allI impI)
      (simp_all only: run off keep sel)
qed

text \<open>Both exits leave with the same number and empty the run file as a regular end does.\<close>

lemma error_exits:
  assumes "ps_atexit ps" and "can_open (getString RUNFILE cfg)"
    and "leave = startupErrorMessage ts can_open cfg error \<or> leave = allocationHandler ts can_open cfg"
  shows "\<exists>te' ps'. leave (te, ps) = (-1, te', ps') \<and> te_lflag te' = te_lflag te \<and> lg_disk (ps_logger ps') (getString RUNFILE cfg) = []"
  using assms
  by (auto simp: startupErrorMessage_def allocationHandler_def getch_def at_exit_def runfileHandler_def write_file_def Let_def split: prod.splits)

end
