(* ===== verification/Rsa_Key.thy ===== *)
theory Rsa_Key
  imports Config_Manager Complex_Main
begin

text \<open>
  The RSA key that \<open>otlogin.cpp\<close> builds from the configuration. The operations of OpenSSL on large numbers and
  its check of a key are the fields of \<open>bignum\<close>. The key holds, beside its five numbers, the
  three that the program calculates so that OpenSSL can decrypt modulo each prime on its own.
\<close>

section \<open>The key\<close>

record bignum =
  bn_dec2bn :: "string \<Rightarrow> int option"
  bn_sub :: "int \<Rightarrow> int \<Rightarrow> int"
  bn_mod :: "int \<Rightarrow> int \<Rightarrow> int"
  bn_mod_inverse :: "int \<Rightarrow> int \<Rightarrow> int"
  bn_check_key :: "int \<Rightarrow> int \<Rightarrow> int \<Rightarrow> int \<Rightarrow> int \<Rightarrow> bool"

record rsa_key =
  rk_p :: int
  rk_q :: int
  rk_d :: int
  rk_n :: int
  rk_e :: int
  rk_dmp1 :: int
  rk_dmq1 :: int
  rk_iqmp :: int

definition crt_params :: "bignum \<Rightarrow> int \<Rightarrow> int \<Rightarrow> int \<Rightarrow> int \<times> int \<times> int" where
  "crt_params bn p q d =
     (let r1 = bn_sub bn p 1;
          r2 = bn_sub bn q 1
      in (bn_mod bn d r1, bn_mod bn d r2, bn_mod_inverse bn q p))"

text \<open>A number that \<open>BN_dec2bn\<close> does not read stays a null pointer, and \<open>RSA_check_key\<close> refuses a key with a missing part.\<close>

definition load_rsa_key :: "bignum \<Rightarrow> config \<Rightarrow> rsa_key option" where
  "load_rsa_key bn c = do {
     p \<leftarrow> bn_dec2bn bn (getString RSA_PRIME1 c);
     q \<leftarrow> bn_dec2bn bn (getString RSA_PRIME2 c);
     d \<leftarrow> bn_dec2bn bn (getString RSA_PRIVATE c);
     n \<leftarrow> bn_dec2bn bn (getString RSA_MODULUS c);
     e \<leftarrow> bn_dec2bn bn (getString RSA_PUBLIC c);
     if bn_check_key bn p q d n e
     then (let (dmp1, dmq1, iqmp) = crt_params bn p q d
           in Some \<lparr>rk_p = p, rk_q = q, rk_d = d, rk_n = n, rk_e = e, rk_dmp1 = dmp1, rk_dmq1 = dmq1, rk_iqmp = iqmp\<rparr>)
     else None
   }"

section \<open>Decryption with the three numbers\<close>

text \<open>RSA decryption of RFC 8017, 5.1.2: by the private exponent, and by the numbers for the two primes.\<close>

definition rsa_private :: "rsa_key \<Rightarrow> int \<Rightarrow> int" where
  "rsa_private k c = c ^ nat (rk_d k) mod rk_n k"

definition rsa_crt :: "rsa_key \<Rightarrow> int \<Rightarrow> int" where
  "rsa_crt k c =
     (let m1 = c ^ nat (rk_dmp1 k) mod rk_p k;
          m2 = c ^ nat (rk_dmq1 k) mod rk_q k;
          h = (m1 - m2) * rk_iqmp k mod rk_p k
      in m2 + rk_q k * h)"

definition rsa_public :: "rsa_key \<Rightarrow> int \<Rightarrow> int" where
  "rsa_public k m = m ^ nat (rk_e k) mod rk_n k"

definition prime_number :: "int \<Rightarrow> bool" where
  "prime_number p \<longleftrightarrow> 1 < p \<and> (\<forall>k \<ge> 0. k dvd p \<longrightarrow> k = 1 \<or> k = p)"

definition odd_prime :: "int \<Rightarrow> bool" where
  "odd_prime p \<longleftrightarrow> 2 < p \<and> prime_number p"

text \<open>What the three operations and the check of OpenSSL are documented to do.\<close>

definition bignum_laws :: "bignum \<Rightarrow> bool" where
  "bignum_laws bn \<longleftrightarrow>
     (\<forall>a b. bn_sub bn a b = a - b) \<and> (\<forall>a b. 0 \<le> a \<and> 0 < b \<longrightarrow> bn_mod bn a b = a mod b) \<and>
     (\<forall>a b. 1 < b \<and> coprime a b \<longrightarrow> a * bn_mod_inverse bn a b mod b = 1) \<and>
     (\<forall>p q d n e. bn_check_key bn p q d n e \<longrightarrow>
        prime_number p \<and> prime_number q \<and> n = p * q \<and> (p - 1) dvd d * e - 1 \<and> (q - 1) dvd d * e - 1)"

section \<open>Powers modulo a prime\<close>

lemma odd_prime_coprime:
  assumes "odd_prime p" and "\<not> p dvd a"
  shows "coprime p a"
proof -
  have "gcd p a = 1 \<or> gcd p a = p" using assms(1) by (simp add: odd_prime_def prime_number_def)
  moreover have "gcd p a \<noteq> p" using assms(2) by (metis gcd_dvd2)
  ultimately show ?thesis by (simp add: coprime_iff_gcd_eq_1)
qed

lemma distinct_primes:
  assumes "odd_prime p" "odd_prime q" "p \<noteq> q"
  shows "\<not> q dvd p"
proof -
  have "0 \<le> q" "q \<noteq> 1" using assms(2) by (simp_all add: odd_prime_def)
  then show ?thesis using assms(1,3) unfolding odd_prime_def prime_number_def by blast
qed

lemma odd_prime_choose:
  assumes "odd_prime (int p)" and "0 < k" "k < p"
  shows "int p dvd int (p choose k)"
proof -
  have "\<not> int p dvd int k" using assms(2,3) by (auto dest: zdvd_imp_le)
  then have "coprime (int p) (int k)" using assms(1) by (rule odd_prime_coprime [rotated])
  moreover have "int k * int (p choose k) = int p * int ((p - 1) choose (k - 1))"
    using times_binomial_minus1_eq [OF assms(2), of p] by (metis of_nat_mult)
  ultimately show ?thesis by (metis coprime_dvd_mult_right_iff dvd_triv_left)
qed

lemma odd_prime_successor:
  assumes "odd_prime (int p)"
  shows "int p dvd (a + 1) ^ p - (a ^ p + 1)"
proof -
  have p: "0 < p" using assms by (simp add: odd_prime_def)
  have "(a + 1) ^ p = (\<Sum>k \<le> p. int (p choose k) * a ^ k)" using binomial_ring [of a 1 p] by simp
  also have "{..p} = insert 0 (insert p {1..<p})" using p by auto
  also have "(\<Sum>k \<in> \<dots>. int (p choose k) * a ^ k) = 1 + (a ^ p + (\<Sum>k \<in> {1..<p}. int (p choose k) * a ^ k))" using p by simp
  finally have "(a + 1) ^ p - (a ^ p + 1) = (\<Sum>k \<in> {1..<p}. int (p choose k) * a ^ k)" by simp
  moreover have "int p dvd (\<Sum>k \<in> {1..<p}. int (p choose k) * a ^ k)"
    by (rule dvd_sum) (use odd_prime_choose [OF assms] in auto)
  ultimately show ?thesis by simp
qed

lemma odd_prime_power:
  assumes "odd_prime (int p)"
  shows "int p dvd int a ^ p - int a"
proof (induction a)
  case 0
  then show ?case using assms by (simp add: odd_prime_def power_0_left)
next
  case (Suc a)
  have "int (Suc a) ^ p - int (Suc a) = ((int a + 1) ^ p - (int a ^ p + 1)) + (int a ^ p - int a)" by (simp add: add.commute)
  then show ?case using dvd_add [OF odd_prime_successor [OF assms] Suc.IH] by metis
qed

text \<open>Fermat's little theorem, and what it says of an exponent reduced modulo the prime less one.\<close>

lemma power_less_one:
  assumes "odd_prime p" and "0 \<le> a" "\<not> p dvd a"
  shows "a ^ (nat p - 1) mod p = 1"
proof -
  have p: "2 < p" "odd_prime (int (nat p))" using assms(1) by (simp_all add: odd_prime_def)
  have "a ^ nat p - a = a * (a ^ (nat p - 1) - 1)"
    using p(1) by (cases "nat p") (simp_all add: algebra_simps)
  then have "p dvd a * (a ^ (nat p - 1) - 1)" using odd_prime_power [OF p(2), of "nat a"] assms(2) p(1) by simp
  then have "p dvd a ^ (nat p - 1) - 1"
    using odd_prime_coprime [OF assms(1,3)] by (simp add: coprime_dvd_mult_right_iff)
  then show ?thesis using p(1) by (simp add: mod_eq_dvd_iff [symmetric])
qed

lemma power_reduce:
  assumes "odd_prime p" and "0 \<le> a" and "0 < d mod (nat p - 1)"
  shows "a ^ d mod p = a ^ (d mod (nat p - 1)) mod p"
proof (cases "p dvd a")
  case True
  have "d \<noteq> 0" using assms(3) by (intro notI) simp
  then show ?thesis using True assms(3) by (simp add: dvd_power mod_eq_0_iff_dvd zero_power dvd_trans [OF True dvd_power])
next
  case False
  let ?q = "d div (nat p - 1)" and ?r = "d mod (nat p - 1)"
  have "a ^ d = (a ^ (nat p - 1)) ^ ?q * a ^ ?r" by (metis div_mult_mod_eq mult.commute power_add power_mult)
  then have "a ^ d mod p = ((a ^ (nat p - 1) mod p) ^ ?q * a ^ ?r) mod p" by (metis mod_mult_left_eq power_mod)
  also have "\<dots> = a ^ ?r mod p" using power_less_one [OF assms(1,2) False] by simp
  finally show ?thesis .
qed

lemma same_modulo_primes:
  assumes "odd_prime p" "odd_prime q" "p \<noteq> q" and "x mod p = y mod p" "x mod q = y mod q"
    and "0 \<le> x" "x < p * q" "0 \<le> y" "y < p * q"
  shows "x = y"
proof -
  have "\<not> p dvd q" using distinct_primes [OF assms(2,1)] assms(3) by simp
  then have "coprime p q" by (rule odd_prime_coprime [OF assms(1)])
  then have "p * q dvd x - y" using assms(4,5) by (simp add: divides_mult mod_eq_dvd_iff)
  then have "x mod (p * q) = y mod (p * q)" by (simp add: mod_eq_dvd_iff)
  then show ?thesis using assms(6-9) by simp
qed

section \<open>Properties\<close>

lemma private_exponent:
  assumes p: "odd_prime p" "p dvd n" and key: "(p - 1) dvd d * e - 1" "0 \<le> d" "0 \<le> e" and m: "0 \<le> m" "0 < n"
  shows "(m ^ nat e mod n) ^ nat d mod p = m mod p"
    and "(m ^ nat e mod n) ^ nat (d mod (p - 1)) mod p = m mod p"
proof -
  have p2: "2 < p" using p(1) by (simp add: odd_prime_def)
  have one: "d * e mod (p - 1) = 1" using key(1) p2 by (simp add: mod_eq_dvd_iff [symmetric])
  have r: "int (nat p - 1) = p - 1" using p2 by simp
  have "int (nat d * nat e mod (nat p - 1)) = 1" unfolding zmod_int r using one key(2,3) by simp
  then have nats: "nat d * nat e mod (nat p - 1) = 1" by linarith
  have e1: "(m ^ nat e mod n) ^ nat d mod p = (m ^ nat e) ^ nat d mod p" using p(2) by (metis mod_mod_cancel power_mod)
  also have "\<dots> = m ^ (nat d * nat e) mod p" by (metis mult.commute power_mult)
  also have "\<dots> = m mod p" using power_reduce [OF p(1) m(1), of "nat d * nat e"] nats by simp
  finally show first: "(m ^ nat e mod n) ^ nat d mod p = m mod p" .
  have "nat d mod (nat p - 1) \<noteq> 0" using nats by (metis mod_mult_left_eq mult_0 mod_0 zero_neq_one)
  then have "(m ^ nat e mod n) ^ (nat d mod (nat p - 1)) mod p = (m ^ nat e mod n) ^ nat d mod p"
    using power_reduce [OF p(1), of "m ^ nat e mod n" "nat d"] m by simp
  moreover have "nat (d mod (p - 1)) = nat d mod (nat p - 1)" using key(2) r p2 by (simp add: nat_mod_distrib nat_diff_distrib)
  ultimately show "(m ^ nat e mod n) ^ nat (d mod (p - 1)) mod p = m mod p" using first by simp
qed


text \<open>The witness: a small key, and the operations of OpenSSL as they are documented.\<close>

definition demo_bignum :: bignum where
  "demo_bignum = \<lparr>bn_dec2bn = (\<lambda>s. Some (atoi s)), bn_sub = (-), bn_mod = (mod),
     bn_mod_inverse = (\<lambda>a b. hd (filter (\<lambda>x. a * x mod b = 1) [0..b])),
     bn_check_key = (\<lambda>p q d n e. p = 5 \<and> q = 11 \<and> d = 27 \<and> n = 55 \<and> e = 3)\<rparr>"

lemma demo_inverse:
  assumes "1 < b" and "coprime a b"
  shows "a * hd (filter (\<lambda>x. a * x mod b = 1) [0..b]) mod b = (1 :: int)"
proof -
  obtain u v where "u * a + v * b = 1" using bezout_int [of a b] assms(2) by auto
  then have "a * u mod b = 1" using assms(1) by (metis mod_mult_self1 mod_pos_pos_trivial mult.commute zero_le_one)
  then have "a * (u mod b) mod b = 1" by (simp add: mod_mult_right_eq)
  moreover have "u mod b \<in> set [0..b]" using assms(1) pos_mod_bound [of b u] by (simp add: less_imp_le)
  ultimately have "filter (\<lambda>x. a * x mod b = 1) [0..b] \<noteq> []" by (auto simp: filter_empty_conv)
  then show ?thesis using hd_in_set by fastforce
qed

lemma small_prime: "prime_number 5" "prime_number 11"
proof -
  have "k = 1 \<or> k = 5" if "0 \<le> k" "k dvd 5" for k :: int
  proof -
    have "k \<in> {0..5}" using that zdvd_imp_le [of k 5] by simp
    then have "k \<in> set [0..5]" by simp
    then show ?thesis using that(2) by (auto simp: upto.simps)
  qed
  then show "prime_number 5" by (auto simp: prime_number_def)
  have "k = 1 \<or> k = 11" if "0 \<le> k" "k dvd 11" for k :: int
  proof -
    have "k \<in> {0..11}" using that zdvd_imp_le [of k 11] by simp
    then have "k \<in> set [0..11]" by simp
    then show ?thesis using that(2) by (auto simp: upto.simps)
  qed
  then show "prime_number 11" by (auto simp: prime_number_def)
qed

lemma demo_bignum_laws: "bignum_laws demo_bignum"
proof -
  have "prime_number 5 \<and> prime_number 11 \<and> 55 = 5 * (11 :: int) \<and> 5 - 1 dvd 27 * 3 - (1 :: int) \<and> 11 - 1 dvd 27 * 3 - (1 :: int)"
    by (simp add: small_prime)
  then show ?thesis unfolding bignum_laws_def using demo_inverse by (simp add: demo_bignum_def)
qed

definition demo_key_config :: config where
  "demo_key_config = (new_config (\<lambda>_. False) (\<lambda>_. 0))\<lparr>m_loaded := True,
     m_confString := (\<lambda>_. [])(RSA_PRIME1 := ''5'', RSA_PRIME2 := ''11'', RSA_PRIVATE := ''27'', RSA_MODULUS := ''55'', RSA_PUBLIC := ''3'')\<rparr>"


end
