(* ===== verification/Startup.thy ===== *)
theory Startup
  imports Server Process Rsa_Key
begin

text \<open>
  The start of the program (\<open>otlogin.cpp\<close>): the command line, the loading of everything the
  server needs, and the first service.

  The operating system, the file system, the JSON parser, the Discord request and OpenSSL are
  the fields of \<open>os\<close>. Every call of \<open>startupErrorMessage\<close> and \<open>exit\<close> is a value of
  \<open>startup_exit\<close>. The settings of the process are in \<open>Process\<close>, the key in \<open>Rsa_Key\<close>; the output is left out.
\<close>

section \<open>The command line\<close>

definition path_option :: "string set" where "path_option = {''--path''}"
definition runfile_option :: "string set" where
  "runfile_option = {''--runfile'', ''--run-file'', ''--pidfile'', ''--pid-file''}"
definition log_option :: "string set" where "log_option = {''--log''}"

text \<open>The branches of the loop after the exploding; \<open>tmp[1]\<close> of a shorter vector is \<open>None\<close>.\<close>

definition apply_argument :: "string list \<Rightarrow> string \<times> config \<Rightarrow> (string \<times> config) option" where
  "apply_argument tmp st =
     (let (dir, c) = st; val = (if length tmp < 2 then None else Some (tmp ! 1))
      in if tmp ! 0 \<in> path_option then map_option (\<lambda>v. (v, c)) val
         else if tmp ! 0 \<in> runfile_option then map_option (\<lambda>v. (dir, snd (setString RUNFILE v c))) val
         else if tmp ! 0 \<in> log_option then map_option (\<lambda>v. (dir, snd (setString OUTPUT_LOG v c))) val
         else if tmp ! 0 = ''--daemon'' \<or> tmp ! 0 = ''-d'' then Some (dir, snd (setBool DAEMONIZE True c))
         else Some (dir, c))"

fun argumentsHandler :: "string list \<Rightarrow> string \<times> config \<Rightarrow> (bool \<times> string \<times> config) option" where
  "argumentsHandler [] st = Some (True, st)"
| "argumentsHandler (a # args) st =
     (if a = ''--help'' then Some (False, st)
      else if a = ''--version'' \<or> a = ''-v'' then Some (False, st)
      else do {
        tmp \<leftarrow> explodeString a ''='' True 0;
        st \<leftarrow> apply_argument tmp st;
        argumentsHandler args st
      })"

section \<open>Loading\<close>

datatype startup_exit = Aborted | ConfigError | ForkParent | RsaError | DatabaseError | WorldsError | AddressError

record 's os =
  os_root :: bool
  os_getch :: u8
  os_fork :: int
  os_read_file :: "string \<Rightarrow> string option"
  os_parse :: "string \<Rightarrow> json option"
  os_fetch :: "string \<Rightarrow> string \<Rightarrow> (nat \<times> string) option"
  os_inet_addr :: "string \<Rightarrow> u32"
  os_bignum :: bignum
  os_can_open :: "string \<Rightarrow> bool"
  os_disk :: "string \<Rightarrow> string"
  os_pid :: int
  os_make_address :: "string \<Rightarrow> u32 option"
  os_bind :: "u32 \<Rightarrow> u16 \<Rightarrow> bool"
  os_mysql :: "'s mysql"
  os_server :: 's
  os_time :: int
  os_ms :: int

record 's program =
  pg_config :: config
  pg_process :: process
  pg_key :: rsa_key
  pg_worlds :: worlds
  pg_db :: "'s database"
  pg_manager :: service_manager
  pg_server :: server

definition chooseEncryption :: "config \<Rightarrow> config" where
  "chooseEncryption c =
     (let encryptionType = asLowerCaseString (getString ENCRYPTION_TYPE c);
          e = (if encryptionType = ''md5'' then ENCRYPTION_MD5
               else if encryptionType = ''sha1'' then ENCRYPTION_SHA1
               else if encryptionType = ''sha256'' then ENCRYPTION_SHA256
               else if encryptionType = ''sha512'' then ENCRYPTION_SHA512
               else ENCRYPTION_PLAIN)
      in snd (setNumber ENCRYPTION (encryption_number e) c))"

text \<open>\<open>rfind(':')\<close> and the parts before and after it.\<close>

definition parseListenAddr :: "string \<Rightarrow> string \<times> u16" where
  "parseListenAddr listenAddr =
     (if CHR '':'' \<in> set listenAddr then
        (let back = takeWhile (\<lambda>c. c \<noteq> CHR '':'') (rev listenAddr)
         in (take (length listenAddr - length back - 1) listenAddr, u16_of_int (atoi (rev back))))
      else (''0.0.0.0'', 7171))"

definition motdReloadTask :: "'s os \<Rightarrow> config \<times> net \<Rightarrow> config \<times> net" where
  "motdReloadTask os st = (let (c, n) = st in (reloadMotd (os_parse os) (os_fetch os) c, add_event 60000 MotdReload n))"

definition program_env :: "'s os \<Rightarrow> config \<Rightarrow> worlds \<Rightarrow> 's env" where
  "program_env os c ws =
     \<lparr>e_config = c, e_worlds = ws, e_ext = os_mysql os, e_dsn = getString DATABASE_DSN c, e_time = os_time os, e_ms = os_ms os\<rparr>"

text \<open>The part after the database: worlds, premium update, the first event, and the service.\<close>

definition bind_services :: "'s os \<Rightarrow> 's program \<Rightarrow> startup_exit + 's program" where
  "bind_services os pg =
     (let (bindHost, bindPort) = parseListenAddr (getString LISTEN_ADDR (pg_config pg))
      in case os_make_address os bindHost of
           None \<Rightarrow> Inl AddressError
         | Some bindAddr \<Rightarrow>
             (let (ok, sm, s) = manager_add (os_bind os) login_service bindPort [bindAddr] (pg_manager pg, pg_server pg)
              in Inr (pg\<lparr>pg_manager := sm, pg_server := s\<rparr>)))"

definition load_world_data :: "'s os \<Rightarrow> string \<Rightarrow> 's program \<Rightarrow> startup_exit + 's program" where
  "load_world_data os configDir pg =
     (case loadFromJson (os_read_file os) (os_parse os) (os_inet_addr os) configDir (pg_worlds pg) of
        (False, ws) \<Rightarrow> Inl WorldsError
      | (True, ws) \<Rightarrow>
          (let c = pg_config pg;
               db = (if getBool INIT_PREMIUM_UPDATE c then snd (updatePremiumAll (program_env os c ws) (pg_db pg)) else pg_db pg);
               s = pg_server pg;
               s = s\<lparr>s_net := add_event 60000 MotdReload (s_net s)\<rparr>
           in bind_services os (pg\<lparr>pg_worlds := ws, pg_db := db, pg_server := s\<rparr>)))"

definition open_database :: "'s os \<Rightarrow> config \<Rightarrow> 's database option" where
  "open_database os c =
     (let db = db_local (os_mysql os) (getString DATABASE_DSN c) (os_ms os) (os_server os) None
      in if m_connected db then Some db else None)"

text \<open>\<open>None\<close> is a fault of \<open>process_settings\<close>.\<close>

definition otlogin :: "'s os \<Rightarrow> string \<Rightarrow> config \<Rightarrow> worlds \<Rightarrow> service_manager \<Rightarrow> server \<Rightarrow> (startup_exit + 's program) option" where
  "otlogin os configDir c ws sm s =
     (if os_root os \<and> os_getch os \<noteq> 121 \<and> os_getch os \<noteq> 89 then Some (Inl Aborted)
      else case load (os_read_file os) (os_parse os) (os_fetch os) configDir c of
        (False, c) \<Rightarrow> Some (Inl ConfigError)
      | (True, c) \<Rightarrow>
          if getBool DAEMONIZE c \<and> os_fork os \<noteq> 0 then Some (Inl ForkParent)
          else do {
            ps \<leftarrow> process_settings (os_can_open os) (os_pid os) c (new_process (os_disk os));
            let c = chooseEncryption c;
            Some (case load_rsa_key (os_bignum os) c of
                    None \<Rightarrow> Inl RsaError
                  | Some key \<Rightarrow>
                      (case open_database os c of
                         None \<Rightarrow> Inl DatabaseError
                       | Some db \<Rightarrow> load_world_data os configDir
                           \<lparr>pg_config = c, pg_process = ps, pg_key = key, pg_worlds = ws, pg_db = db, pg_manager = sm, pg_server = s\<rparr>))
          })"

text \<open>\<open>main\<close> up to the hand-over of \<open>otlogin\<close> to the dispatcher; \<open>Some (Inl ())\<close> is the return without a start.\<close>

definition main_start :: "'s os \<Rightarrow> string list \<Rightarrow> config \<Rightarrow> net \<Rightarrow> (unit + (startup_exit + 's program)) option" where
  "main_start os args c n = do {
     (go, dir, c) \<leftarrow> (if length args > 1 then argumentsHandler args (''.'', c) else Some (True, ''.'', c));
     if \<not> go then Some (Inl ())
     else do {
       r \<leftarrow> otlogin os dir (config_startup c) [] new_service_manager
              \<lparr>s_net = n, s_logError = True, s_nextAcceptor = 0, s_nextConn = 0, s_accepting = [], s_closing = [], s_deathTimer = False\<rparr>;
       Some (Inr r)
     }
   }"

section \<open>Properties of the command line\<close>

lemma find_str_char: "find_str [c] s = None \<longleftrightarrow> c \<notin> set s"
  by (induction s) auto

text \<open>An argument without \<open>=\<close> is its own and only part; one with \<open>=\<close> has at least two parts.\<close>

lemma explode_argument:
  obtains tmp where "explodeString a ''='' True 0 = Some tmp"
    and "CHR ''='' \<notin> set a \<Longrightarrow> tmp = [a]" and "CHR ''='' \<in> set a \<Longrightarrow> length tmp \<ge> 2"
proof -
  obtain ps where ps: "explodeString a ''='' True 0 = Some (trim_pieces True ps)" "ps \<noteq> []" "join_str ''='' ps = a"
    "CHR ''='' \<notin> set (last ps)"
    using explode_loop_pieces [of "''=''" 0 a True 0 1 "[]"] by (auto simp: explodeString_def find_str_char)
  obtain x xs where x: "ps = x # xs" using ps(2) by (cases ps) auto
  show thesis
  proof (cases xs)
    case Nil
    then show thesis using ps x by (intro that [of "[a]"]) (auto simp: trim_pieces_def)
  next
    case (Cons y ys)
    then have "CHR ''='' \<in> set a" using ps(3) x by auto
    moreover have "length (trim_pieces True ps) \<ge> 2" using x Cons by (simp add: trim_pieces_def)
    ultimately show thesis using ps(1) that by blast
  qed
qed

definition stops_reading :: "string \<Rightarrow> bool" where
  "stops_reading a \<longleftrightarrow> a = ''--help'' \<or> a = ''--version'' \<or> a = ''-v''"

definition valued_option :: "string \<Rightarrow> bool" where
  "valued_option a \<longleftrightarrow> a \<in> path_option \<union> runfile_option \<union> log_option"

lemmas options = valued_option_def path_option_def runfile_option_def log_option_def

lemma apply_argument_None:
  assumes "explodeString a ''='' True 0 = Some tmp"
  shows "apply_argument tmp st = None \<longleftrightarrow> valued_option a"
proof -
  obtain tmp' where t: "explodeString a ''='' True 0 = Some tmp'"
    "CHR ''='' \<notin> set a \<Longrightarrow> tmp' = [a]" "CHR ''='' \<in> set a \<Longrightarrow> length tmp' \<ge> 2"
    by (rule explode_argument [of a]) blast
  then have tmp: "CHR ''='' \<notin> set a \<Longrightarrow> tmp = [a]" "CHR ''='' \<in> set a \<Longrightarrow> length tmp \<ge> 2"
    using assms by auto
  show ?thesis
  proof (cases "CHR ''='' \<in> set a")
    case True
    then have "\<not> valued_option a" by (auto simp: options)
    then show ?thesis using tmp(2) [OF True] by (cases st) (simp add: apply_argument_def Let_def)
  next
    case False
    then show ?thesis using tmp(1) by (cases st) (auto simp: apply_argument_def options Let_def)
  qed
qed

text \<open>Reading the command line fails, by reading past the parts of an argument, exactly when an
  option that needs a value (\<open>--path\<close>, \<open>--log\<close>, the names of the run file) stands without \<open>=\<close>
  before any \<open>--help\<close>, \<open>--version\<close> or \<open>-v\<close>.\<close>

theorem argumentsHandler_fault:
  "argumentsHandler args st = None \<longleftrightarrow> (\<exists>a \<in> set (takeWhile (\<lambda>a. \<not> stops_reading a) args). valued_option a)"
proof (induction args arbitrary: st)
  case (Cons a args)
  obtain tmp where t: "explodeString a ''='' True 0 = Some tmp" by (rule explode_argument [of a]) blast
  show ?case
  proof (cases "stops_reading a")
    case False
    show ?thesis
    proof (cases "valued_option a")
      case True
      then show ?thesis using t False apply_argument_None [OF t] by (auto simp: stops_reading_def)
    next
      case nv: False
      then obtain st' where "apply_argument tmp st = Some st'" using apply_argument_None [OF t] by blast
      then show ?thesis using t False nv Cons.IH by (auto simp: stops_reading_def)
    qed
  qed (auto simp: stops_reading_def)
qed simp

section \<open>Properties of the start\<close>

lemma show_nat_no_colon: "CHR '':'' \<notin> set (show_nat n)"
  using show_nat_digits [of "CHR '':''" n] by (auto simp: is_digit_char_def)

text \<open>The listening address is read back from its parts, for every port and every host, also one
  that contains colons itself.\<close>

theorem parseListenAddr_roundtrip:
  assumes "port < 65536"
  shows "parseListenAddr (host @ '':'' @ show_nat port) = (host, of_nat port)"
proof -
  have "takeWhile (\<lambda>c. c \<noteq> CHR '':'') (rev (show_nat port) @ CHR '':'' # rev host) = rev (show_nat port)"
    using show_nat_no_colon by (subst takeWhile_append2) auto
  moreover have "atoi (show_nat port) = int port" using assms by (intro atoi_show_nat) simp
  ultimately show ?thesis by (simp add: parseListenAddr_def u16_of_int_def)
qed

theorem parseListenAddr_roundtrip_witness:
  "parseListenAddr (''::1'' @ '':'' @ show_nat 7171) = (''::1'', 7171)"
  using parseListenAddr_roundtrip [of 7171 "''::1''"] by simp

lemma chooseEncryption_frame [config_simps]:
  "m_loaded (chooseEncryption c) = m_loaded c" "m_confString (chooseEncryption c) = m_confString c"
  "m_confBool (chooseEncryption c) = m_confBool c"
  by (simp_all add: chooseEncryption_def setNumber_def config_simps Let_def)

lemma loaded_worlds_inv:
  assumes "loadFromJson read_file parse inet_addr dir ws = (ok, ws')" and "worlds_inv ws"
  shows "worlds_inv ws'"
  using assms world_loading.run_inv [of ws inet_addr] by (auto simp: loadFromJson_def split: option.splits)

lemma load_sets_loaded: "load read_file parse fetch dir c = (True, c') \<Longrightarrow> m_loaded c'"
  by (auto simp: load_def config_simps split: option.splits)

fun named_hash :: "hash_functions \<Rightarrow> string \<Rightarrow> (u8 list \<Rightarrow> u8 list) option" where
  "named_hash H t =
     (if t = ''md5'' then Some (MD5 H) else if t = ''sha1'' then Some (SHA1 H)
      else if t = ''sha256'' then Some (SHA256 H) else if t = ''sha512'' then Some (SHA512 H) else None)"

text \<open>C31. The hash that checks passwords is the one \<open>encryptionType\<close> names, in any mix of cases; a name the
  program does not know means that passwords are compared as they are.\<close>

theorem configured_hash_checks_passwords:
  assumes "m_loaded c" and "c' = chooseEncryption c"
  shows "fst (encryptTest H (getNumber ENCRYPTION c') plain stored) \<longleftrightarrow>
     map upchar stored =
       (case named_hash H (asLowerCaseString (getString ENCRYPTION_TYPE c)) of
          Some hash \<Rightarrow> hex_digest (hash (bytes_of_string plain)) True
        | None \<Rightarrow> map upchar plain)"
proof -
  define t where "t = asLowerCaseString (getString ENCRYPTION_TYPE c)"
  have "getNumber ENCRYPTION c' = encryption_number (if t = ''md5'' then ENCRYPTION_MD5 else if t = ''sha1'' then ENCRYPTION_SHA1
      else if t = ''sha256'' then ENCRYPTION_SHA256 else if t = ''sha512'' then ENCRYPTION_SHA512 else ENCRYPTION_PLAIN)"
    using assms by (simp add: chooseEncryption_def setNumber_def getNumber_def t_def config_simps Let_def)
  then show ?thesis
    unfolding t_def [symmetric]
    by (cases "t = ''md5''"; cases "t = ''sha1''"; cases "t = ''sha256''"; cases "t = ''sha512''")
      (simp_all add: encryptTest_def encrypt_def transformToMD5_def transformToSHA1_def transformToSHA256_def transformToSHA512_def Let_def
        eq_commute [of _ "map upchar stored"])
qed

theorem configured_hash_checks_passwords_witness:
  "fst (encryptTest plain_hash (getNumber ENCRYPTION (chooseEncryption
       ((set_str ENCRYPTION_TYPE ''MD5'' (new_config (\<lambda>_. False) (\<lambda>_. 0)))\<lparr>m_loaded := True\<rparr>))) ''A'' ''41'')"
proof -
  let ?c = "(set_str ENCRYPTION_TYPE ''MD5'' (new_config (\<lambda>_. False) (\<lambda>_. 0)))\<lparr>m_loaded := True\<rparr>"
  have t: "asLowerCaseString (getString ENCRYPTION_TYPE ?c) = ''md5''"
    by (simp add: getString_def config_simps asLowerCaseString_def toLowerCaseString_def) code_simp
  have "hex_digest (bytes_of_string ''A'') True = ''41''" "map upchar ''41'' = ''41''" by code_simp+
  with t configured_hash_checks_passwords [of ?c _ plain_hash "''A''" "''41''", OF _ refl] show ?thesis
    by (simp add: plain_hash_def)
qed

lemma new_port_empty [simp]: "sp_services new_service_port = []" "sp_acceptors new_service_port = []"
  by (simp_all add: new_service_port_def)

lemma open_one_address:
  "sp_open bind_ok [ip] port (new_service_port, s) =
     (if bind_ok ip port
      then (new_service_port\<lparr>sp_serverPort := port, sp_acceptors := [(s_nextAcceptor s, ip)]\<rparr>,
            s\<lparr>s_nextAcceptor := s_nextAcceptor s + 1, s_accepting := s_accepting s @ [s_nextAcceptor s]\<rparr>)
      else if s_logError s
      then (new_service_port\<lparr>sp_serverPort := port, sp_pendingStart := True\<rparr>,
            s\<lparr>s_logError := False, s_net := add_event 5000 (OpenServices port [ip]) (s_net s)\<rparr>)
      else (new_service_port\<lparr>sp_serverPort := port\<rparr>, s))"
  by (simp add: sp_open_def new_service_port_def sp_accept_def Let_def)

text \<open>The first element of the list of processors is always there.\<close>

lemma otlogin_returns: "\<exists>r. otlogin os dir c ws sm s = Some r"
proof (cases "load (os_read_file os) (os_parse os) (os_fetch os) dir c")
  case (Pair ok c1)
  show ?thesis
  proof (cases ok)
    case True
    then have "m_coresUsed c1 \<noteq> []" using Pair by (intro load_sets_cores [of "os_read_file os"]) simp
    then obtain ps where "process_settings (os_can_open os) (os_pid os) c1 (new_process (os_disk os)) = Some ps"
      using process_settings_returns by blast
    then show ?thesis using Pair True by (simp add: otlogin_def Let_def)
  qed (use Pair in \<open>simp add: otlogin_def\<close>)
qed

lemma otlogin_success:
  assumes "otlogin os dir c ws sm s = Some (Inr pg)" and "worlds_inv ws"
  obtains pg0 where "m_loaded (pg_config pg0)" "load_rsa_key (os_bignum os) (pg_config pg0) = Some (pg_key pg0)" "worlds_inv (pg_worlds pg0)"
    "pg_manager pg0 = sm" "pg_server pg0 = s\<lparr>s_net := add_event 60000 MotdReload (s_net s)\<rparr>" "bind_services os pg0 = Inr pg"
proof -
  obtain c1 where l: "load (os_read_file os) (os_parse os) (os_fetch os) dir c = (True, c1)"
    using assms(1) by (cases "load (os_read_file os) (os_parse os) (os_fetch os) dir c"; cases "fst (load (os_read_file os) (os_parse os) (os_fetch os) dir c)")
      (auto simp: otlogin_def split: if_splits)
  obtain ps key db where key: "load_rsa_key (os_bignum os) (chooseEncryption c1) = Some key" and db: "open_database os (chooseEncryption c1) = Some db"
    and run: "load_world_data os dir \<lparr>pg_config = chooseEncryption c1, pg_process = ps, pg_key = key, pg_worlds = ws, pg_db = db,
      pg_manager = sm, pg_server = s\<rparr> = Inr pg"
    using assms(1) l by (auto simp: otlogin_def Let_def split: if_splits bind_splits option.splits)
  define pg1 where "pg1 = \<lparr>pg_config = chooseEncryption c1, pg_process = ps, pg_key = key, pg_worlds = ws, pg_db = db,
      pg_manager = sm, pg_server = s\<rparr>"
  obtain ws1 where w: "loadFromJson (os_read_file os) (os_parse os) (os_inet_addr os) dir ws = (True, ws1)"
    using run by (auto simp: load_world_data_def split: prod.splits bool.splits)
  have "m_loaded (chooseEncryption c1)" using load_sets_loaded [OF l] by (simp add: config_simps)
  moreover have "worlds_inv ws1" by (rule loaded_worlds_inv [OF w assms(2)])
  ultimately show thesis
    using that [of "pg1\<lparr>pg_worlds := ws1, pg_db := _, pg_server := s\<lparr>s_net := add_event 60000 MotdReload (s_net s)\<rparr>\<rparr>"] run w key
    by (simp add: load_world_data_def pg1_def Let_def)
qed


text \<open>The witness: a server whose files hold empty sections.\<close>

definition demo_start_bignum :: bignum where
  "demo_start_bignum = demo_bignum\<lparr>bn_dec2bn := (\<lambda>s. Some (if s = RSA_PRIME1_DEFAULT then 5 else 0)), bn_check_key := (\<lambda>p q d n e. p = 5)\<rparr>"

definition demo_os :: "nat os" where
  "demo_os = \<lparr>os_root = True, os_getch = 121, os_fork = 0, os_read_file = (\<lambda>f. Some f),
     os_parse = (\<lambda>s. Some (if s = ''./config.json'' then JObject [(''legacy'', JObject [(''updatePremiumStateAtStartup'', JBool False)])] else JArray [])),
     os_fetch = (\<lambda>t a. None), os_inet_addr = (\<lambda>a. 0), os_bignum = demo_start_bignum, os_can_open = (\<lambda>f. True), os_disk = (\<lambda>f. []), os_pid = 1,
     os_make_address = (\<lambda>h. if h = ''0.0.0.0'' then Some 0 else None), os_bind = (\<lambda>ip port. port = 7171),
     os_mysql = login_mysql, os_server = 0, os_time = 0, os_ms = 0\<rparr>"

lemma demo_config:
  obtains c1 where "load (os_read_file demo_os) (os_parse demo_os) (os_fetch demo_os) ''.'' c = (True, c1)" "m_loaded c1"
    "m_confString c1 LISTEN_ADDR = ''0.0.0.0:7171''" "m_confString c1 DATABASE_DSN = DSN_DEFAULT" "m_confString c1 RSA_PRIME1 = RSA_PRIME1_DEFAULT"
    "\<not> m_confBool c1 DAEMONIZE" "\<not> m_confBool c1 INIT_PREMIUM_UPDATE"
proof -
  let ?leg = "[(''updatePremiumStateAtStartup'', JBool False)]"
  let ?c = "load_root ''.'' [(''legacy'', JObject ?leg)] c"
  have sections: "obj_section ''legacy'' [(''legacy'', JObject ?leg)] = Some ?leg" "obj_section ''database'' [(''legacy'', JObject ?leg)] = None"
    "obj_section ''rsa'' ?leg = None" "obj_section ''discord'' [(''legacy'', JObject ?leg)] = None" "obj_section ''auth'' [(''legacy'', JObject ?leg)] = None"
    by (simp_all add: obj_section_def obj_find_def)
  have root: "?c = load_legacy ?leg (load_discord [(''legacy'', JObject ?leg)] (load_auth [(''legacy'', JObject ?leg)]
      (load_database [(''legacy'', JObject ?leg)] (set_str CONFIG_DIR ''.'' c))))"
    by (simp add: load_root_def sections)
  have "load (os_read_file demo_os) (os_parse demo_os) (os_fetch demo_os) ''.'' c = (True, reloadMotd (os_parse demo_os) (os_fetch demo_os) (?c\<lparr>m_loaded := True\<rparr>))"
    by (rule load_succeeds) (simp_all add: demo_os_def)
  moreover have "m_confString ?c LISTEN_ADDR = ''0.0.0.0:7171''" unfolding root
    by (subst legacy_string_values [of _ "''listenAddr''" "''0.0.0.0:7171''"]) (simp_all add: string_settings_def json_str_def obj_find_def)
  moreover have "\<not> m_confBool ?c DAEMONIZE" unfolding root
    by (subst legacy_bool_values [of _ "''daemonize''" False]) (simp_all add: bool_settings_def json_bool_def obj_find_def)
  moreover have "\<not> m_confBool ?c INIT_PREMIUM_UPDATE" unfolding root
    by (subst legacy_bool_values [of _ "''updatePremiumStateAtStartup''" True]) (simp_all add: bool_settings_def json_bool_def obj_find_def)
  moreover have "m_confString ?c RSA_PRIME1 = RSA_PRIME1_DEFAULT" unfolding root
    by (simp add: load_legacy_def legacy_rsa_def sections config_simps json_str_def obj_find_def)
  moreover have "m_confString ?c DATABASE_DSN = DSN_DEFAULT" unfolding root
    by (simp add: load_legacy_def legacy_rsa_def legacy_bools_def legacy_strings_def legacy_numbers_def load_database_def load_auth_def
        load_discord_def sections config_simps Let_def)
  ultimately show thesis
    by (intro that [of "reloadMotd (os_parse demo_os) (os_fetch demo_os) (?c\<lparr>m_loaded := True\<rparr>)"]) (simp_all add: config_simps)
qed

lemma demo_database: "m_connected (db_local login_mysql DSN_DEFAULT t 0 None)"
proof -
  have "\<not> Option.is_none (parse_dsn DSN_DEFAULT)" by code_simp
  then show ?thesis by (auto simp: db_local_def db_connect_def login_mysql_def Let_def Option.is_none_def)
qed


text \<open>A port that cannot be bound: the manager counts it as running, and so the program reports
  that it is online; the one retry that is scheduled, when it fails as well, schedules nothing
  more. The server then stays up without ever listening.\<close>

theorem refused_port_abandoned:
  assumes "port \<noteq> 0" and "\<not> bind_ok ip port" and "s_logError s"
    and "manager_add bind_ok sv port [ip] (new_service_manager, s) = (ok, sm1, s1)"
    and "sm_services bind_ok [ip] port (sm1, s1) = (sm2, s2)"
  shows "ok \<and> sm_isRunning sm1 \<and> s_net s1 = add_event 5000 (OpenServices port [ip]) (s_net s) \<and>
     sm_isRunning sm2 \<and> s_net s2 = s_net s1 \<and> s_accepting s2 = s_accepting s"
  using assms
  by (auto simp: manager_add_def sm_services_def open_one_address sp_add_def new_service_manager_def sm_isRunning_def
      sp_open_def Let_def)

theorem refused_port_abandoned_witness:
  "\<exists>ok sm1 s1. manager_add (\<lambda>ip port. False) login_service 80 [0] (new_service_manager, demo_server) = (ok, sm1, s1) \<and>
     sm_isRunning sm1 \<and> s_accepting (snd (sm_services (\<lambda>ip port. False) [0] 80 (sm1, s1))) = []"
proof -
  obtain ok sm1 s1 where a: "manager_add (\<lambda>ip port. False) login_service 80 [0] (new_service_manager, demo_server) = (ok, sm1, s1)"
    by (metis prod_cases3)
  obtain sm2 s2 where b: "sm_services (\<lambda>ip port. False) [0] 80 (sm1, s1) = (sm2, s2)" by (meson surj_pair)
  have "s_logError demo_server" "s_accepting demo_server = []" by (simp_all add: demo_server_def)
  with refused_port_abandoned [OF _ _ _ a b] show ?thesis using a b by auto
qed

end
