(* ===== verification/Db_Workers.thy ===== *)
theory Db_Workers
  imports Database "HOL-Library.Multiset"
begin

text \<open>
  The asynchronous part of \<open>database.cpp\<close>: a queue of tasks and a pool of worker threads.

  The threads are a step relation: a worker is between the test of its loop, the lock, the wait,
  a task and its end. A critical section is one step. A notification is sent after the mutex is
  released, so \<open>w_signals\<close> (\<open>notify_one\<close>) and \<open>w_broadcasts\<close> (\<open>notify_all\<close>) count those still on
  their way; one that finds no waiting worker is lost. Wake-ups without a notification are
  steps too, as the standard allows them. Exceptions of a task are swallowed by the code, so
  running a task is one step that ends. \<open>w_accepted\<close> and \<open>w_run\<close> record history only.
\<close>

datatype 'a worker_pc = WTest | WLock | WWaiting | WWoken | WRunning 'a | WFinished

record 'a pool =
  w_queue :: "'a list"
  w_state :: thread_state
  w_workers :: "'a worker_pc list"
  w_signals :: nat
  w_broadcasts :: nat
  w_accepted :: "'a multiset"
  w_run :: "'a list"

definition new_pool :: "'a pool" where
  "new_pool = \<lparr>w_queue = [], w_state = STATE_RUNNING, w_workers = [], w_signals = 0, w_broadcasts = 0, w_accepted = {#}, w_run = []\<rparr>"

section \<open>Operations\<close>

definition asyncTask :: "'a \<Rightarrow> 'a pool \<Rightarrow> 'a pool" where
  "asyncTask t p =
     (if w_state p \<noteq> STATE_RUNNING then p
      else p\<lparr>w_queue := w_queue p @ [t], w_signals := w_signals p + 1, w_accepted := add_mset t (w_accepted p)\<rparr>)"

text \<open>The task of \<open>asyncQuery\<close>, run by a worker on the connection of its own thread.\<close>

definition run_asyncQuery :: "'s mysql \<Rightarrow> string \<Rightarrow> int \<Rightarrow> 's \<Rightarrow> string \<Rightarrow> 's database option \<Rightarrow> 's database" where
  "run_asyncQuery ext dsn now s q holder =
     (let db = db_local ext dsn now s holder
      in if m_connected db then snd (db_query ext dsn q db) else db)"

definition asyncQuery :: "string \<Rightarrow> string pool \<Rightarrow> string pool" where
  "asyncQuery query p = asyncTask query p"

text \<open>The rest of the critical section of \<open>workerLoop\<close> after the wait: worker \<open>i\<close> takes a task or goes on.\<close>

definition worker_take :: "nat \<Rightarrow> 'a pool \<Rightarrow> 'a pool" where
  "worker_take i p =
     (case w_queue p of
        t # ts \<Rightarrow> if w_state p \<noteq> STATE_TERMINATED then p\<lparr>w_queue := ts, w_workers := (w_workers p)[i := WRunning t]\<rparr>
                 else p\<lparr>w_workers := (w_workers p)[i := WTest]\<rparr>
      | [] \<Rightarrow> p\<lparr>w_workers := (w_workers p)[i := WTest]\<rparr>)"

definition startWorkers :: "nat \<Rightarrow> 'a pool \<Rightarrow> 'a pool" where
  "startWorkers num p = p\<lparr>w_state := STATE_RUNNING, w_workers := w_workers p @ replicate num WTest\<rparr>"

definition stopWorkers :: "'a pool \<Rightarrow> 'a pool" where
  "stopWorkers p = p\<lparr>w_state := STATE_CLOSING\<rparr>"

definition shutdownWorkers :: "'a pool \<Rightarrow> 'a pool" where
  "shutdownWorkers p =
     p\<lparr>w_state := STATE_TERMINATED, w_queue := [], w_run := w_run p @ w_queue p, w_broadcasts := w_broadcasts p + 1\<rparr>"

text \<open>\<open>joinWorkers\<close> returns when every worker has left its loop.\<close>

definition joinWorkers_returns :: "'a pool \<Rightarrow> bool" where
  "joinWorkers_returns p \<longleftrightarrow> (\<forall>w \<in> set (w_workers p). w = WFinished)"

section \<open>The threads\<close>

definition wake :: "'a worker_pc \<Rightarrow> 'a worker_pc" where
  "wake w = (if w = WWaiting then WWoken else w)"

inductive pool_step :: "'a pool \<Rightarrow> 'a pool \<Rightarrow> bool" where
  test_end: "i < length (w_workers p) \<Longrightarrow> w_workers p ! i = WTest \<Longrightarrow> w_state p = STATE_TERMINATED \<Longrightarrow>
     pool_step p (p\<lparr>w_workers := (w_workers p)[i := WFinished]\<rparr>)"
| test_go: "i < length (w_workers p) \<Longrightarrow> w_workers p ! i = WTest \<Longrightarrow> w_state p \<noteq> STATE_TERMINATED \<Longrightarrow>
     pool_step p (p\<lparr>w_workers := (w_workers p)[i := WLock]\<rparr>)"
| lock_wait: "i < length (w_workers p) \<Longrightarrow> w_workers p ! i = WLock \<Longrightarrow> w_queue p = [] \<Longrightarrow>
     pool_step p (p\<lparr>w_workers := (w_workers p)[i := WWaiting]\<rparr>)"
| lock_take: "i < length (w_workers p) \<Longrightarrow> w_workers p ! i = WLock \<Longrightarrow> w_queue p \<noteq> [] \<Longrightarrow> pool_step p (worker_take i p)"
| woken: "i < length (w_workers p) \<Longrightarrow> w_workers p ! i = WWoken \<Longrightarrow> pool_step p (worker_take i p)"
| spurious: "i < length (w_workers p) \<Longrightarrow> w_workers p ! i = WWaiting \<Longrightarrow>
     pool_step p (p\<lparr>w_workers := (w_workers p)[i := WWoken]\<rparr>)"
| run: "i < length (w_workers p) \<Longrightarrow> w_workers p ! i = WRunning t \<Longrightarrow>
     pool_step p (p\<lparr>w_workers := (w_workers p)[i := WTest], w_run := w_run p @ [t]\<rparr>)"
| add: "pool_step p (asyncTask t p)"
| notify_one: "w_signals p = Suc k \<Longrightarrow> i < length (w_workers p) \<Longrightarrow> w_workers p ! i = WWaiting \<Longrightarrow>
     pool_step p (p\<lparr>w_signals := k, w_workers := (w_workers p)[i := WWoken]\<rparr>)"
| notify_lost: "w_signals p = Suc k \<Longrightarrow> WWaiting \<notin> set (w_workers p) \<Longrightarrow> pool_step p (p\<lparr>w_signals := k\<rparr>)"
| notify_all: "w_broadcasts p = Suc k \<Longrightarrow> pool_step p (p\<lparr>w_broadcasts := k, w_workers := map wake (w_workers p)\<rparr>)"
| stop: "pool_step p (stopWorkers p)"
| shutdown: "pool_step p (shutdownWorkers p)"

definition pool_reachable :: "nat \<Rightarrow> 'a pool \<Rightarrow> bool" where
  "pool_reachable n p \<longleftrightarrow> pool_step\<^sup>*\<^sup>* (startWorkers n new_pool) p"

lemma reachable_inv:
  assumes "pool_reachable n p" and "I (startWorkers n new_pool)" and "\<And>p p'. pool_step p p' \<Longrightarrow> I p \<Longrightarrow> I p'"
  shows "I p"
  using assms(1) unfolding pool_reachable_def by (induction rule: rtranclp_induct) (use assms(2,3) in auto)

section \<open>No task is lost or repeated\<close>

fun pc_tasks :: "'a worker_pc \<Rightarrow> 'a multiset" where
  "pc_tasks (WRunning t) = {#t#}"
| "pc_tasks _ = {#}"

definition in_hand :: "'a worker_pc list \<Rightarrow> 'a multiset" where
  "in_hand ws = sum_list (map pc_tasks ws)"

lemma in_hand_update:
  assumes "i < length ws"
  shows "in_hand (ws[i := w]) + pc_tasks (ws ! i) = in_hand ws + pc_tasks w"
proof -
  have "ws = take i ws @ ws ! i # drop (Suc i) ws" using assms by (rule id_take_nth_drop)
  then have "in_hand ws = in_hand (take i ws) + pc_tasks (ws ! i) + in_hand (drop (Suc i) ws)"
    by (metis (no_types, lifting) add.assoc in_hand_def list.simps(9) map_append sum_list.Cons sum_list.append)
  then show ?thesis using assms by (simp add: upd_conv_take_nth_drop in_hand_def)
qed

lemma in_hand_wake: "in_hand (map wake ws) = in_hand ws"
  by (induction ws) (auto simp: in_hand_def wake_def)

definition pool_account :: "'a pool \<Rightarrow> bool" where
  "pool_account p \<longleftrightarrow> w_accepted p = mset (w_run p) + in_hand (w_workers p) + mset (w_queue p)"

lemma pool_account_step: "pool_step p p' \<Longrightarrow> pool_account p \<Longrightarrow> pool_account p'"
proof (induction rule: pool_step.induct)
  case (run i p t)
  then show ?case using in_hand_update [OF run.hyps(1), of WTest] by (simp add: pool_account_def)
qed (use in_hand_update in \<open>fastforce simp: pool_account_def worker_take_def asyncTask_def stopWorkers_def shutdownWorkers_def in_hand_wake
    split: list.split\<close>)+

text \<open>C19. The worker pool neither loses nor repeats a task: in every state it can reach, with any number of
  workers and under every interleaving, the tasks that were accepted are exactly those that
  have been run, those a worker has in hand and those in the queue.\<close>

theorem workers_lose_no_task:
  assumes "pool_reachable n p"
  shows "w_accepted p = mset (w_run p) + in_hand (w_workers p) + mset (w_queue p)"
proof -
  have "pool_account p"
  proof (rule reachable_inv [OF assms])
    have "in_hand (replicate n WTest) = {#}" by (induction n) (simp_all add: in_hand_def)
    then show "pool_account (startWorkers n new_pool)" by (simp add: pool_account_def startWorkers_def new_pool_def)
  qed (rule pool_account_step)
  then show ?thesis by (simp add: pool_account_def)
qed

lemma one_task_reachable: "pool_reachable n (asyncTask t (startWorkers n new_pool))"
  unfolding pool_reachable_def by (rule r_into_rtranclp) (rule pool_step.add)

theorem workers_lose_no_task_witness:
  "w_accepted (asyncTask (7 :: nat) (startWorkers 2 new_pool)) =
     in_hand [WTest, WTest] + mset (w_queue (asyncTask 7 (startWorkers 2 new_pool)))"
  using workers_lose_no_task [OF one_task_reachable [of 2 "7 :: nat"]]
  by (simp add: asyncTask_def startWorkers_def new_pool_def numeral_2_eq_2)

section \<open>Every task gets a worker\<close>

definition pool_awake :: "'a pool \<Rightarrow> bool" where
  "pool_awake p \<longleftrightarrow>
     (w_state p = STATE_TERMINATED \<longrightarrow> w_queue p = []) \<and>
     (WFinished \<in> set (w_workers p) \<longrightarrow> w_queue p = [] \<and> w_state p \<noteq> STATE_RUNNING) \<and>
     (w_queue p \<noteq> [] \<longrightarrow> w_workers p = [] \<or> 0 < w_signals p \<or> (\<exists>w \<in> set (w_workers p). w \<noteq> WWaiting))"

lemma update_member: "i < length ws \<Longrightarrow> w \<in> set (ws[i := w])"
  by (rule set_update_memI)

lemma finished_update: "WFinished \<in> set (ws[i := w]) \<Longrightarrow> w = WFinished \<or> WFinished \<in> set ws"
  using set_update_subset_insert by fastforce

lemma finished_wake: "WFinished \<in> set (map wake ws) \<longleftrightarrow> WFinished \<in> set ws"
  by (auto simp: wake_def image_iff split: if_splits)

lemma pool_awake_update:
  assumes "pool_awake p" and "i < length (w_workers p)" and "w \<noteq> WWaiting" and "w \<noteq> WFinished"
  shows "pool_awake (p\<lparr>w_workers := (w_workers p)[i := w]\<rparr>)" "pool_awake (p\<lparr>w_signals := k, w_workers := (w_workers p)[i := w]\<rparr>)"
    "pool_awake (p\<lparr>w_workers := (w_workers p)[i := w], w_run := r\<rparr>)"
    "w_queue p = t # ts \<Longrightarrow> pool_awake (p\<lparr>w_queue := ts, w_workers := (w_workers p)[i := w]\<rparr>)"
  using assms update_member [OF assms(2), of w] finished_update [of "w_workers p" i w] by (auto simp: pool_awake_def)

lemma pool_awake_take:
  assumes "pool_awake p" and "i < length (w_workers p)"
  shows "pool_awake (worker_take i p)"
  using pool_awake_update(1) [OF assms, of WTest] pool_awake_update(4) [OF assms, of "WRunning (hd (w_queue p))"]
  by (auto simp: worker_take_def split: list.split)

lemma pool_awake_step: "pool_step p p' \<Longrightarrow> pool_awake p \<Longrightarrow> pool_awake p'"
proof (induction rule: pool_step.induct)
  case (test_end i p)
  then show ?case by (auto simp: pool_awake_def)
next
  case (lock_wait i p)
  then show ?case using finished_update [of "w_workers p" i WWaiting] by (auto simp: pool_awake_def)
next
  case (lock_take i p)
  then show ?case by (intro pool_awake_take)
next
  case (woken i p)
  then show ?case by (intro pool_awake_take)
next
  case (add p t)
  then show ?case by (auto simp: pool_awake_def asyncTask_def)
next
  case (notify_lost p k)
  then show ?case by (cases "w_workers p") (auto simp: pool_awake_def)
next
  case (notify_all p k)
  then show ?case using finished_wake [of "w_workers p"] by (cases "w_workers p") (auto simp: pool_awake_def wake_def)
next
  case (stop p)
  then show ?case by (auto simp: pool_awake_def stopWorkers_def)
next
  case (shutdown p)
  then show ?case by (auto simp: pool_awake_def shutdownWorkers_def)
next
  case (run i p t)
  then show ?case by (intro pool_awake_update(3)) simp_all
next
  case (notify_one p k i)
  then show ?case by (intro pool_awake_update(2)) simp_all
qed (simp_all add: pool_awake_update(1))

lemma pool_size_step: "pool_step p p' \<Longrightarrow> length (w_workers p') = length (w_workers p)"
  by (induction rule: pool_step.induct)
    (auto simp: worker_take_def asyncTask_def stopWorkers_def shutdownWorkers_def split: list.split)

lemma reachable_awake: "pool_reachable n p \<Longrightarrow> pool_awake p"
  by (rule reachable_inv [where I = pool_awake], assumption, simp add: pool_awake_def startWorkers_def new_pool_def)
    (rule pool_awake_step)

lemma reachable_size: "pool_reachable n p \<Longrightarrow> length (w_workers p) = n"
  by (rule reachable_inv [where I = "\<lambda>p. length (w_workers p) = n"])
    (auto simp: startWorkers_def new_pool_def pool_size_step)

lemma step_before:
  assumes "pool_step p1 p2" and "\<exists>p'. pool_step\<^sup>*\<^sup>* p2 p' \<and> Q p'"
  shows "\<exists>p'. pool_step\<^sup>*\<^sup>* p1 p' \<and> Q p'"
  using assms by (auto intro: converse_rtranclp_into_rtranclp)

text \<open>A worker that is neither waiting nor finished gets to the first task.\<close>

lemma worker_gets_task:
  assumes "i < length (w_workers p)" and "w_workers p ! i \<noteq> WWaiting" and "w_workers p ! i \<noteq> WFinished"
    and "w_queue p = t # ts" and "w_state p = STATE_RUNNING"
  shows "\<exists>p'. pool_step\<^sup>*\<^sup>* p p' \<and> WRunning t \<in> set (w_workers p') \<and> w_queue p' = ts"
proof -
  let ?goal = "\<lambda>p. \<exists>p'. pool_step\<^sup>*\<^sup>* p p' \<and> WRunning t \<in> set (w_workers p') \<and> w_queue p' = ts"
  have lock: "?goal p1" if "i < length (w_workers p1)" "w_workers p1 ! i = WLock \<or> w_workers p1 ! i = WWoken"
    "w_queue p1 = t # ts" "w_state p1 = STATE_RUNNING" for p1
  proof (rule step_before)
    show "pool_step p1 (worker_take i p1)" using that pool_step.lock_take pool_step.woken by fastforce
    show "?goal (worker_take i p1)"
      using that update_member [OF that(1)] by (intro exI [of _ "worker_take i p1"]) (simp add: worker_take_def)
  qed
  have test: "?goal p1" if "i < length (w_workers p1)" "w_workers p1 ! i = WTest" "w_queue p1 = t # ts" "w_state p1 = STATE_RUNNING" for p1
  proof (rule step_before)
    show "pool_step p1 (p1\<lparr>w_workers := (w_workers p1)[i := WLock]\<rparr>)" using that by (intro pool_step.test_go) simp_all
    show "?goal (p1\<lparr>w_workers := (w_workers p1)[i := WLock]\<rparr>)" using that by (intro lock) simp_all
  qed
  show ?thesis
  proof (cases "w_workers p ! i")
    case (WRunning u)
    show ?thesis
    proof (rule step_before)
      show "pool_step p (p\<lparr>w_workers := (w_workers p)[i := WTest], w_run := w_run p @ [u]\<rparr>)"
        using assms WRunning by (intro pool_step.run) simp_all
      show "?goal (p\<lparr>w_workers := (w_workers p)[i := WTest], w_run := w_run p @ [u]\<rparr>)" using assms by (intro test) simp_all
    qed
  qed (use assms lock test in auto)
qed



section \<open>Shutting down\<close>

text \<open>The limit of the shutdown: with the two workers the program starts, a worker that has tested the state
  before \<open>shutdownWorkers\<close> and takes the lock after its \<open>notify_all\<close> waits on an empty queue that
  nobody will fill. \<open>joinWorkers\<close> does not return there, and apart from a wake-up without a cause
  and further calls of \<open>stopWorkers\<close> and \<open>shutdownWorkers\<close> no step changes anything.\<close>

theorem shutdown_can_strand_worker:
  "\<exists>p :: 'a pool. pool_reachable 2 p \<and> w_state p = STATE_TERMINATED \<and> \<not> joinWorkers_returns p \<and>
     {p'. pool_step p p'} \<subseteq> {p, p\<lparr>w_workers := [WWoken, WFinished]\<rparr>, stopWorkers p, shutdownWorkers p}"
proof -
  define q :: "'a worker_pc list \<Rightarrow> thread_state \<Rightarrow> nat \<Rightarrow> 'a pool" where
    "q = (\<lambda>ws st b. \<lparr>w_queue = [], w_state = st, w_workers = ws, w_signals = 0, w_broadcasts = b, w_accepted = {#}, w_run = []\<rparr>)"
  note steps = pool_step.test_go [of 0 "q [WTest, WTest] STATE_RUNNING 0"] pool_step.shutdown [of "q [WLock, WTest] STATE_RUNNING 0"]
    pool_step.notify_all [of "q [WLock, WTest] STATE_TERMINATED 1" 0] pool_step.lock_wait [of 0 "q [WLock, WTest] STATE_TERMINATED 0"]
    pool_step.test_end [of 1 "q [WWaiting, WTest] STATE_TERMINATED 0"]
  have "pool_step (q [WTest, WTest] STATE_RUNNING 0) (q [WLock, WTest] STATE_RUNNING 0)"
    "pool_step (q [WLock, WTest] STATE_RUNNING 0) (q [WLock, WTest] STATE_TERMINATED 1)"
    "pool_step (q [WLock, WTest] STATE_TERMINATED 1) (q [WLock, WTest] STATE_TERMINATED 0)"
    "pool_step (q [WLock, WTest] STATE_TERMINATED 0) (q [WWaiting, WTest] STATE_TERMINATED 0)"
    "pool_step (q [WWaiting, WTest] STATE_TERMINATED 0) (q [WWaiting, WFinished] STATE_TERMINATED 0)"
    using steps by (simp_all add: q_def shutdownWorkers_def wake_def)
  moreover have "startWorkers 2 new_pool = q [WTest, WTest] STATE_RUNNING 0"
    by (simp add: q_def startWorkers_def new_pool_def numeral_2_eq_2)
  ultimately have "pool_reachable 2 (q [WWaiting, WFinished] STATE_TERMINATED 0)"
    unfolding pool_reachable_def by (simp add: rtranclp.rtrancl_into_rtrancl)
  moreover have "p' \<in> {q [WWaiting, WFinished] STATE_TERMINATED 0, (q [WWaiting, WFinished] STATE_TERMINATED 0)\<lparr>w_workers := [WWoken, WFinished]\<rparr>,
      stopWorkers (q [WWaiting, WFinished] STATE_TERMINATED 0), shutdownWorkers (q [WWaiting, WFinished] STATE_TERMINATED 0)}"
    if "pool_step (q [WWaiting, WFinished] STATE_TERMINATED 0) p'" for p'
    using that by cases (auto simp: q_def asyncTask_def nth_Cons' split: if_splits)
  ultimately show ?thesis
    by (intro exI [of _ "q [WWaiting, WFinished] STATE_TERMINATED 0"]) (auto simp: q_def joinWorkers_returns_def)
qed

end
