(* ===== verification/Main_Program.thy ===== *)
theory Main_Program
  imports Startup Db_Workers
begin

text \<open>
  The threads of the program (\<open>main\<close> of \<open>otlogin.cpp\<close>): \<open>main\<close> hands the loader \<open>otlogin\<close> to the dispatcher, waits
  for its signal, serves the ports until the I/O threads end, and joins the other threads.

  A state is that of the main thread, the machines of dispatcher, scheduler and database workers, and the ports.
  What the loader comes to is the parameter \<open>out\<close>, a value of \<open>otlogin\<close> of \<open>Startup\<close>. \<open>main\<close> holds the loader lock
  until it waits, but the loader signals without the lock, so a signal can be on its way before, or be lost.
\<close>

section \<open>The machine\<close>

datatype prog_task = LoaderTask | ServerTask callback

datatype main_pc = MStart | MBeforeWait | MWaiting | MAwake | MServing | MJoinDispatcher | MJoinScheduler | MShutdownWorkers | MJoinWorkers
  | MReturned | MExited startup_exit

record main_machine =
  mm_pc :: main_pc
  mm_disp :: "prog_task disp_machine"
  mm_sched :: "callback sched_machine"
  mm_pool :: "string pool"
  mm_manager :: service_manager
  mm_loaded :: bool
  mm_notify :: nat

definition main_init :: main_machine where
  "main_init = \<lparr>mm_pc = MStart, mm_disp = disp_init, mm_sched = sched_init, mm_pool = new_pool,
     mm_manager = new_service_manager, mm_loaded = False, mm_notify = 0\<rparr>"

definition process_alive :: "main_machine \<Rightarrow> bool" where
  "process_alive s \<longleftrightarrow> mm_pc s \<noteq> MReturned \<and> (\<forall>e. mm_pc s \<noteq> MExited e)"

definition loading :: "prog_task disp_machine \<Rightarrow> bool" where
  "loading d \<longleftrightarrow> (\<exists>t. dm_pc d = Running t \<and> tk_callback t = LoaderTask)"

text \<open>
  Steps of the dispatcher beside \<open>main\<close>: nothing in the program calls its \<open>stop\<close> or \<open>shutdown\<close>, so the state of the thread
  stays; others add other tasks than the loader; the end of the loader is a step of its own below. The
  same holds for the scheduler.
\<close>

definition dispatcher_goes_on :: "prog_task disp_machine \<Rightarrow> prog_task disp_machine \<Rightarrow> bool" where
  "dispatcher_goes_on d d' \<longleftrightarrow> disp_step d d' \<and> d_threadState (dm_disp d') = d_threadState (dm_disp d) \<and>
     (dm_accepted d' = dm_accepted d \<or> (\<exists>cb front. d' = dm_add (createTask (ServerTask cb)) front d)) \<and>
     (loading d \<longrightarrow> dm_pc d' = dm_pc d)"

definition scheduler_goes_on :: "callback sched_machine \<Rightarrow> callback sched_machine \<Rightarrow> bool" where
  "scheduler_goes_on sc sc' \<longleftrightarrow> sched_step sc sc' \<and> sc_threadState (sm_sched sc') = sc_threadState (sm_sched sc)"

inductive main_step :: "startup_exit + 's program \<Rightarrow> main_machine \<Rightarrow> main_machine \<Rightarrow> bool" for out where
  hand_over: "mm_pc s = MStart \<Longrightarrow>
     main_step out s (s\<lparr>mm_pc := MBeforeWait, mm_disp := dm_add (createTask LoaderTask) False (mm_disp s)\<rparr>)"
| wait: "mm_pc s = MBeforeWait \<Longrightarrow> main_step out s (s\<lparr>mm_pc := MWaiting\<rparr>)"
| spurious: "mm_pc s = MWaiting \<Longrightarrow> main_step out s (s\<lparr>mm_pc := MAwake\<rparr>)"
| notify: "mm_notify s = Suc k \<Longrightarrow> process_alive s \<Longrightarrow>
     main_step out s (s\<lparr>mm_notify := k, mm_pc := (if mm_pc s = MWaiting then MAwake else mm_pc s)\<rparr>)"
| online: "mm_pc s = MAwake \<Longrightarrow> sm_isRunning (mm_manager s) \<Longrightarrow> main_step out s (s\<lparr>mm_pc := MServing, mm_manager := sm_run (mm_manager s)\<rparr>)"
| offline: "mm_pc s = MAwake \<Longrightarrow> \<not> sm_isRunning (mm_manager s) \<Longrightarrow> main_step out s (s\<lparr>mm_pc := MJoinDispatcher\<rparr>)"
| served: "mm_pc s = MServing \<Longrightarrow> main_step out s (s\<lparr>mm_pc := MJoinDispatcher\<rparr>)"
| join_dispatcher: "mm_pc s = MJoinDispatcher \<Longrightarrow> dm_pc (mm_disp s) = Finished \<Longrightarrow> main_step out s (s\<lparr>mm_pc := MJoinScheduler\<rparr>)"
| join_scheduler: "mm_pc s = MJoinScheduler \<Longrightarrow> sm_pc (mm_sched s) = SFinished \<Longrightarrow> main_step out s (s\<lparr>mm_pc := MShutdownWorkers\<rparr>)"
| shutdown_workers: "mm_pc s = MShutdownWorkers \<Longrightarrow>
     main_step out s (s\<lparr>mm_pc := MJoinWorkers, mm_pool := shutdownWorkers (mm_pool s)\<rparr>)"
| join_workers: "mm_pc s = MJoinWorkers \<Longrightarrow> joinWorkers_returns (mm_pool s) \<Longrightarrow> main_step out s (s\<lparr>mm_pc := MReturned\<rparr>)"
| load_failed: "loading (mm_disp s) \<Longrightarrow> process_alive s \<Longrightarrow> out = Inl e \<Longrightarrow> main_step out s (s\<lparr>mm_pc := MExited e\<rparr>)"
| load: "loading (mm_disp s) \<Longrightarrow> process_alive s \<Longrightarrow> \<not> mm_loaded s \<Longrightarrow> out = Inr pg \<Longrightarrow>
     main_step out s (s\<lparr>mm_loaded := True, mm_manager := pg_manager pg, mm_pool := startWorkers 2 (mm_pool s)\<rparr>)"
| load_end: "dm_pc (mm_disp s) = Running t \<Longrightarrow> tk_callback t = LoaderTask \<Longrightarrow> process_alive s \<Longrightarrow> mm_loaded s \<Longrightarrow>
     main_step out s (s\<lparr>mm_disp := (mm_disp s)\<lparr>dm_pc := AtTest, dm_run := dm_run (mm_disp s) @ [t]\<rparr>, mm_notify := Suc (mm_notify s)\<rparr>)"
| dispatcher: "process_alive s \<Longrightarrow> dispatcher_goes_on (mm_disp s) d \<Longrightarrow> main_step out s (s\<lparr>mm_disp := d\<rparr>)"
| scheduler: "process_alive s \<Longrightarrow> scheduler_goes_on (mm_sched s) sc \<Longrightarrow> main_step out s (s\<lparr>mm_sched := sc\<rparr>)"
| workers: "process_alive s \<Longrightarrow> pool_step (mm_pool s) p \<Longrightarrow> w_state p = w_state (mm_pool s) \<Longrightarrow> main_step out s (s\<lparr>mm_pool := p\<rparr>)"

definition main_reachable :: "startup_exit + 's program \<Rightarrow> main_machine \<Rightarrow> bool" where
  "main_reachable out s \<longleftrightarrow> (main_step out)\<^sup>*\<^sup>* main_init s"

lemma main_invariant:
  assumes "main_reachable out s" and "I main_init" and "\<And>s s'. main_step out s s' \<Longrightarrow> I s \<Longrightarrow> I s'"
  shows "I s"
  using assms(1) unfolding main_reachable_def by (induction rule: rtranclp_induct) (use assms(2,3) in auto)

section \<open>The program does not end\<close>

inductive_cases disp_stepE: "disp_step d d'"

lemma dispatcher_keeps_on:
  assumes "dispatcher_goes_on d d'" and "d_threadState (dm_disp d) = STATE_RUNNING" and "dm_pc d \<noteq> Finished"
  shows "d_threadState (dm_disp d') = STATE_RUNNING \<and> dm_pc d' \<noteq> Finished"
proof -
  have "disp_step d d'" and running: "d_threadState (dm_disp d') = STATE_RUNNING" using assms(1,2) by (simp_all add: dispatcher_goes_on_def)
  then have "dm_pc d' \<noteq> Finished"
    using assms(2,3) by (elim disp_stepE) (auto simp: dm_take_cases dm_add_def Let_def split: list.splits if_splits prod.splits)
  with running show ?thesis by blast
qed

definition dispatcher_runs :: "main_machine \<Rightarrow> bool" where
  "dispatcher_runs s \<longleftrightarrow> d_threadState (dm_disp (mm_disp s)) = STATE_RUNNING \<and> dm_pc (mm_disp s) \<noteq> Finished \<and>
     mm_pc s \<notin> {MJoinScheduler, MShutdownWorkers, MJoinWorkers, MReturned}"

lemma dispatcher_runs_step: "main_step out s s' \<Longrightarrow> dispatcher_runs s \<Longrightarrow> dispatcher_runs s'"
proof (induction rule: main_step.induct)
  case (dispatcher s d)
  then show ?case using dispatcher_keeps_on by (simp add: dispatcher_runs_def)
qed (auto simp: dispatcher_runs_def dm_add_def d_addTask_def)


lemma main_reachable_init: "main_reachable out main_init"
  by (simp add: main_reachable_def)

lemma main_reachable_step: "main_reachable out s \<Longrightarrow> main_step out s s' \<Longrightarrow> main_reachable out s'"
  by (simp add: main_reachable_def)

section \<open>Going online\<close>

text \<open>What \<open>main\<close> sees of the ports is what the loader has bound.\<close>

definition ports_loaded :: "startup_exit + 's program \<Rightarrow> main_machine \<Rightarrow> bool" where
  "ports_loaded out s \<longleftrightarrow>
     (if mm_loaded s then \<exists>pg. out = Inr pg \<and> mm_manager s \<in> {pg_manager pg, sm_run (pg_manager pg)}
      else mm_manager s = new_service_manager \<and> mm_notify s = 0) \<and>
     (mm_pc s = MServing \<longrightarrow> mm_loaded s \<and> sm_isRunning (mm_manager s))"

lemma run_ports [simp]: "sm_isRunning (sm_run sm) = sm_isRunning sm" "sm_run (sm_run sm) = sm_run sm" "\<not> sm_isRunning new_service_manager"
  by (simp_all add: sm_isRunning_def sm_run_def new_service_manager_def)

lemma ports_loaded_step: "main_step out s s' \<Longrightarrow> ports_loaded out s \<Longrightarrow> ports_loaded out s'"
  by (induction rule: main_step.induct) (auto simp: ports_loaded_def split: if_splits)

text \<open>\<open>main\<close> serves only what the loader has bound: when it has gone online, the loader has come through every check to
  the state \<open>pg\<close>, and the ports that are served are those of \<open>pg\<close>, at least one. A wake-up without a
  signal cannot bring the program online before.\<close>

theorem online_after_loading:
  assumes "main_reachable out s" and "mm_pc s = MServing"
  shows "mm_loaded s \<and> (\<exists>pg. out = Inr pg \<and> sm_isRunning (pg_manager pg) \<and> sm_getPorts (mm_manager s) = sm_getPorts (pg_manager pg))"
proof -
  have "ports_loaded out main_init" by (simp add: ports_loaded_def main_init_def)
  then have "ports_loaded out s" by (rule main_invariant [OF assms(1) _ ports_loaded_step])
  then show ?thesis using assms(2) by (auto simp: ports_loaded_def sm_getPorts_def sm_run_def sm_isRunning_def)
qed

section \<open>The signal of the loader\<close>

text \<open>The steps without wake-ups that no signal causes.\<close>

definition main_quiet_step :: "startup_exit + 's program \<Rightarrow> main_machine \<Rightarrow> main_machine \<Rightarrow> bool" where
  "main_quiet_step out s s' \<longleftrightarrow> main_step out s s' \<and> (mm_pc s = MWaiting \<and> mm_pc s' = MAwake \<longrightarrow> mm_notify s' < mm_notify s)"

definition loader_gone :: "main_machine \<Rightarrow> bool" where
  "loader_gone s \<longleftrightarrow> mm_notify s = 0 \<and> \<not> loading (mm_disp s) \<and>
     (\<forall>t \<in> set (d_taskList (dm_disp (mm_disp s))). tk_callback t \<noteq> LoaderTask)"

lemma loader_gone_dispatcher:
  assumes "dispatcher_goes_on d d'" and "\<not> loading d" and "\<forall>t \<in> set (d_taskList (dm_disp d)). tk_callback t \<noteq> LoaderTask"
  shows "\<not> loading d' \<and> (\<forall>t \<in> set (d_taskList (dm_disp d')). tk_callback t \<noteq> LoaderTask)"
proof -
  have step: "disp_step d d'" and grown: "dm_accepted d' = dm_accepted d \<or> (\<exists>cb front. d' = dm_add (createTask (ServerTask cb)) front d)"
    using assms(1) by (simp_all add: dispatcher_goes_on_def)
  have add: ?thesis if "d' = dm_add (createTask (ServerTask cb)) front d" for cb front
    using assms(2,3) unfolding that by (auto simp: dm_add_def d_addTask_def loading_def createTask_def)
  have "set (d_taskList (dm_disp d')) \<subseteq> set (d_taskList (dm_disp d))" if "dm_accepted d' = dm_accepted d"
    using step that by (elim disp_stepE) (auto simp: dm_take_cases dm_add_def d_addTask_def d_stop_def d_shutdown_def d_flush_def split: list.splits if_splits)
  moreover have "loading d' \<Longrightarrow> dm_pc d' = dm_pc d \<or> (\<exists>t ts. d_taskList (dm_disp d) = t # ts \<and> dm_pc d' = Running t)"
    using step by (elim disp_stepE) (auto simp: loading_def dm_take_cases dm_add_def Let_def split: list.splits if_splits prod.splits)
  ultimately show ?thesis using grown add assms(2,3) by (fastforce simp: loading_def)
qed

definition stranded :: "main_machine \<Rightarrow> bool" where
  "stranded s \<longleftrightarrow> mm_pc s \<in> {MBeforeWait, MWaiting} \<and> loader_gone s"

lemma stranded_step:
  assumes "main_quiet_step out s s'" and "stranded s"
  shows "stranded s'"
proof -
  have "main_step out s s'" and quiet: "mm_pc s = MWaiting \<and> mm_pc s' = MAwake \<longrightarrow> mm_notify s' < mm_notify s"
    using assms(1) by (simp_all add: main_quiet_step_def)
  then show ?thesis using assms(2)
  proof (induction rule: main_step.induct)
    case (dispatcher s d)
    then show ?case using loader_gone_dispatcher [of "mm_disp s" d] by (simp add: stranded_def loader_gone_def)
  qed (auto simp: stranded_def loader_gone_def loading_def)
qed

lemma stranded_run: "(main_quiet_step out)\<^sup>*\<^sup>* s s' \<Longrightarrow> stranded s \<Longrightarrow> stranded s'"
  by (induction rule: rtranclp_induct) (auto intro: stranded_step)

text \<open>A loader that is faster than \<open>main\<close>: its task runs to its end before \<open>main\<close> waits.\<close>

definition fast_loader :: "'s program \<Rightarrow> main_machine" where
  "fast_loader pg = main_init\<lparr>mm_pc := MBeforeWait,
     mm_disp := disp_init\<lparr>dm_signals := 1, dm_accepted := {#createTask LoaderTask#}, dm_run := [createTask LoaderTask]\<rparr>,
     mm_manager := pg_manager pg, mm_pool := startWorkers 2 new_pool, mm_loaded := True\<rparr>"

lemma fast_loader_reachable:
  fixes pg :: "'s program"
  shows "main_reachable (Inr pg) (fast_loader pg)"
proof -
  let ?out = "Inr pg :: startup_exit + 's program" and ?t = "createTask LoaderTask"
  define s1 where "s1 = main_init\<lparr>mm_pc := MBeforeWait, mm_disp := dm_add ?t False disp_init\<rparr>"
  define d2 where "d2 = (dm_add ?t False disp_init)\<lparr>dm_pc := AtLock\<rparr>"
  define s3 where "s3 = s1\<lparr>mm_disp := dm_take d2\<rparr>"
  define s4 where "s4 = s3\<lparr>mm_loaded := True, mm_manager := pg_manager pg, mm_pool := startWorkers 2 (mm_pool s3)\<rparr>"
  define s5 where "s5 = s4\<lparr>mm_disp := (mm_disp s4)\<lparr>dm_pc := AtTest, dm_run := dm_run (mm_disp s4) @ [?t]\<rparr>, mm_notify := Suc (mm_notify s4)\<rparr>"
  note defs = main_init_def dm_add_def d_addTask_def disp_init_def new_dispatcher_def process_alive_def
  have "main_step ?out main_init s1" using main_step.hand_over [of main_init ?out] by (simp add: s1_def main_init_def)
  moreover have "disp_step (mm_disp s1) d2" using disp_step.test_go [of "mm_disp s1"] by (simp add: s1_def d2_def defs)
  then have "main_step ?out s1 (s1\<lparr>mm_disp := d2\<rparr>)"
    by (intro main_step.dispatcher) (simp_all add: dispatcher_goes_on_def loading_def s1_def d2_def defs)
  moreover have taken: "dm_take d2 = disp_init\<lparr>dm_signals := 1, dm_accepted := {#?t#}, dm_pc := Running ?t\<rparr>"
    by (simp add: d2_def dm_take_cases defs)
  have "disp_step d2 (dm_take d2)" by (rule disp_step.lock_take) (simp_all add: d2_def defs)
  then have "dispatcher_goes_on d2 (dm_take d2)"
    by (simp add: dispatcher_goes_on_def taken loading_def) (simp add: d2_def defs)
  then have "main_step ?out (s1\<lparr>mm_disp := d2\<rparr>) s3"
    using main_step.dispatcher [of "s1\<lparr>mm_disp := d2\<rparr>" "dm_take d2" ?out] by (simp add: s3_def s1_def process_alive_def)
  moreover have run: "dm_pc (mm_disp s3) = Running ?t" "tk_callback ?t = LoaderTask" by (simp_all add: s3_def taken createTask_def)
  have "main_step ?out s3 s4"
    unfolding s4_def by (rule main_step.load) (use run in \<open>auto simp: loading_def s3_def s1_def defs\<close>)
  moreover have "main_step ?out s4 s5"
    unfolding s5_def by (rule main_step.load_end) (use run in \<open>auto simp: s4_def s3_def s1_def defs\<close>)
  moreover have "main_step ?out s5 (s5\<lparr>mm_notify := 0\<rparr>)"
    using main_step.notify [of s5 0 ?out] by (simp add: s5_def s4_def s3_def s1_def defs)
  moreover have "s5\<lparr>mm_notify := 0\<rparr> = fast_loader pg"
    by (simp add: s5_def s4_def s3_def taken) (simp add: s1_def main_init_def fast_loader_def disp_init_def)
  ultimately show ?thesis by (metis main_reachable_init main_reachable_step)
qed

text \<open>C27. The signal of the loader can be lost: it is sent without the lock that \<open>main\<close> waits with, so when the loader ends before
  \<open>main\<close> has begun to wait, a program that has loaded everything and bound its ports never serves them,
  unless a wake-up comes without a signal.\<close>

theorem loader_signal_can_be_lost:
  "\<exists>s. main_reachable (Inr pg) s \<and> mm_loaded s \<and> sm_getPorts (mm_manager s) = sm_getPorts (pg_manager pg) \<and>
     (\<forall>s'. (main_quiet_step (Inr pg))\<^sup>*\<^sup>* s s' \<longrightarrow> mm_pc s' \<in> {MBeforeWait, MWaiting})"
proof (intro exI [of _ "fast_loader pg"] conjI)
  have "stranded (fast_loader pg)"
    by (simp add: stranded_def loader_gone_def loading_def fast_loader_def main_init_def disp_init_def new_dispatcher_def)
  then show "\<forall>s'. (main_quiet_step (Inr pg))\<^sup>*\<^sup>* (fast_loader pg) s' \<longrightarrow> mm_pc s' \<in> {MBeforeWait, MWaiting}"
    using stranded_run by (auto simp: stranded_def)
qed (simp_all add: fast_loader_reachable, simp_all add: fast_loader_def)

section \<open>The start succeeds\<close>

definition loader_pending :: "prog_task disp_machine \<Rightarrow> bool" where
  "loader_pending d \<longleftrightarrow> loading d \<or> (\<exists>t \<in> set (d_taskList (dm_disp d)). tk_callback t = LoaderTask)"

definition fit_dispatcher :: "prog_task disp_machine \<Rightarrow> bool" where
  "fit_dispatcher d \<longleftrightarrow> disp_awake d \<and> d_threadState (dm_disp d) = STATE_RUNNING \<and> dm_pc d \<noteq> Finished"

lemma fit_goes_on: "dispatcher_goes_on d d' \<Longrightarrow> fit_dispatcher d \<Longrightarrow> fit_dispatcher d'"
  using dispatcher_keeps_on [of d d'] disp_awake_step [of d d'] by (simp add: fit_dispatcher_def dispatcher_goes_on_def)

lemma own_goes_on: "disp_own_step d d' \<Longrightarrow> dispatcher_goes_on d d'"
  by (simp add: disp_own_step_def dispatcher_goes_on_def loading_def)

lemma fit_run: "dispatcher_goes_on\<^sup>*\<^sup>* d d' \<Longrightarrow> fit_dispatcher d \<Longrightarrow> fit_dispatcher d'"
  by (induction rule: rtranclp_induct) (auto intro: fit_goes_on)

text \<open>The end of the task in hand, when it is not the loader.\<close>

lemma finish_task:
  assumes "dm_pc d = Running t" and "tk_callback t \<noteq> LoaderTask"
  obtains d' where "dispatcher_goes_on d d'" "dm_pc d' = AtTest" "dm_disp d' = dm_disp d"
proof (cases "hasExpired 0 t")
  case True
  then have "dispatcher_goes_on d (d\<lparr>dm_pc := AtTest, dm_dropped := dm_dropped d @ [t]\<rparr>)"
    using disp_step.expired [OF assms(1) True] assms by (simp add: dispatcher_goes_on_def loading_def)
  then show ?thesis by (rule that) simp_all
next
  case False
  then have "dispatcher_goes_on d (d\<lparr>dm_pc := AtTest, dm_run := dm_run d @ [t]\<rparr>)"
    using disp_step.run [OF assms(1) False] assms by (simp add: dispatcher_goes_on_def loading_def)
  then show ?thesis by (rule that) simp_all
qed

lemma take_next:
  assumes "fit_dispatcher d" and "\<forall>t. dm_pc d \<noteq> Running t" and "d_taskList (dm_disp d) = t # ts"
  obtains d' where "dispatcher_goes_on\<^sup>*\<^sup>* d d'" "dm_pc d' = Running t" "d_taskList (dm_disp d') = ts"
proof -
  obtain d' where d': "disp_own_step\<^sup>*\<^sup>* d d'" "dm_pc d' = Running t" "d_taskList (dm_disp d') = ts"
    using disp_reaches_next [of d t ts] assms by (auto simp: fit_dispatcher_def)
  have "dispatcher_goes_on\<^sup>*\<^sup>* d d'"
    using d'(1) by (rule rtranclp_mono [THEN predicate2D, rotated]) (auto intro: own_goes_on)
  then show ?thesis using that d'(2,3) by blast
qed

lemma reach_loader:
  "fit_dispatcher d \<Longrightarrow> loader_pending d \<Longrightarrow> \<exists>d'. dispatcher_goes_on\<^sup>*\<^sup>* d d' \<and> loading d'"
proof (induction "length (d_taskList (dm_disp d))" arbitrary: d rule: less_induct)
  case (less d)
  show ?case
  proof (cases "loading d")
    case False
    then have queued: "\<exists>t \<in> set (d_taskList (dm_disp d)). tk_callback t = LoaderTask" using less.prems(2) by (simp add: loader_pending_def)
    then obtain t ts where q: "d_taskList (dm_disp d) = t # ts" by (cases "d_taskList (dm_disp d)") auto
    obtain d1 where d1: "dispatcher_goes_on\<^sup>*\<^sup>* d d1" "dm_disp d1 = dm_disp d" "\<forall>t. dm_pc d1 \<noteq> Running t"
    proof (cases "\<exists>u. dm_pc d = Running u")
      case True
      then obtain u where "dm_pc d = Running u" "tk_callback u \<noteq> LoaderTask" using False by (auto simp: loading_def)
      then show thesis by (rule finish_task) (auto intro: that)
    qed (auto intro: that)
    have "fit_dispatcher d1" using fit_run [OF d1(1) less.prems(1)] .
    then obtain d2 where d2: "dispatcher_goes_on\<^sup>*\<^sup>* d1 d2" "dm_pc d2 = Running t" "d_taskList (dm_disp d2) = ts"
      using take_next d1(2,3) q by metis
    have run: "dispatcher_goes_on\<^sup>*\<^sup>* d d2" using d1(1) d2(1) by (rule rtranclp_trans)
    have "loader_pending d2" using queued q d2(2,3) by (auto simp: loader_pending_def loading_def)
    then obtain d3 where "dispatcher_goes_on\<^sup>*\<^sup>* d2 d3" "loading d3"
      using less.hyps [of d2] fit_run [OF run less.prems(1)] q d2(3) by auto
    then show ?thesis using run by (meson rtranclp_trans)
  qed blast
qed

lemma dispatcher_lift:
  assumes "dispatcher_goes_on\<^sup>*\<^sup>* (mm_disp s) d" and "process_alive s"
  shows "(main_step out)\<^sup>*\<^sup>* s (s\<lparr>mm_disp := d\<rparr>)"
  using assms(1)
proof (induction rule: rtranclp_induct)
  case (step d d')
  have "main_step out (s\<lparr>mm_disp := d\<rparr>) ((s\<lparr>mm_disp := d\<rparr>)\<lparr>mm_disp := d'\<rparr>)"
    using assms(2) step.hyps(2) by (intro main_step.dispatcher) (simp_all add: process_alive_def)
  then show ?case using step.IH by simp
qed simp

definition start_inv :: "main_machine \<Rightarrow> bool" where
  "start_inv s \<longleftrightarrow> disp_awake (mm_disp s) \<and> (mm_pc s \<noteq> MStart \<longrightarrow> mm_loaded s \<or> loader_pending (mm_disp s))"

lemma pending_goes_on:
  assumes "dispatcher_goes_on d d'" and "fit_dispatcher d" and "loader_pending d"
  shows "loader_pending d'"
proof (cases "loading d")
  case True
  then show ?thesis using assms(1) by (auto simp: loader_pending_def loading_def dispatcher_goes_on_def)
next
  case False
  then obtain t where t: "t \<in> set (d_taskList (dm_disp d))" "tk_callback t = LoaderTask" using assms(3) by (auto simp: loader_pending_def)
  have "disp_step d d'" "d_threadState (dm_disp d') = STATE_RUNNING" using assms(1,2) by (simp_all add: dispatcher_goes_on_def fit_dispatcher_def)
  then show ?thesis using t assms(2)
    by (elim disp_stepE) (auto simp: loader_pending_def loading_def fit_dispatcher_def dm_take_cases dm_add_def d_addTask_def d_stop_def
        d_shutdown_def d_flush_def split: list.splits if_splits)
qed

lemma start_inv_step: "main_step out s s' \<Longrightarrow> start_inv s \<Longrightarrow> dispatcher_runs s \<Longrightarrow> start_inv s'"
proof (induction rule: main_step.induct)
  case (dispatcher s d)
  then have "fit_dispatcher (mm_disp s)" by (simp add: fit_dispatcher_def start_inv_def dispatcher_runs_def)
  then show ?case using dispatcher fit_goes_on pending_goes_on by (auto simp: start_inv_def fit_dispatcher_def)
next
  case (hand_over s)
  then show ?case by (auto simp: start_inv_def dispatcher_runs_def disp_awake_def loader_pending_def dm_add_def d_addTask_def createTask_def)
next
  case (load_failed s e)
  then show ?case by (auto simp: start_inv_def loader_pending_def)
next
  case (load_end s t)
  then show ?case by (simp add: start_inv_def disp_awake_def)
qed (auto simp: start_inv_def)

lemma comes_online:
  assumes reach: "main_reachable (Inr pg) s" and waiting: "mm_pc s = MWaiting" and early: "\<not> mm_loaded s"
    and port: "sm_isRunning (pg_manager pg)"
  shows "\<exists>s'. (main_step (Inr pg))\<^sup>*\<^sup>* s s' \<and> mm_pc s' = MServing \<and> sm_getPorts (mm_manager s') = sm_getPorts (pg_manager pg)"
proof -
  have "start_inv main_init \<and> dispatcher_runs main_init \<and> ports_loaded (Inr pg) main_init"
    by (simp add: start_inv_def dispatcher_runs_def ports_loaded_def main_init_def disp_init_def new_dispatcher_def disp_awake_def)
  then have inv: "start_inv s \<and> dispatcher_runs s \<and> ports_loaded (Inr pg) s"
    by (rule main_invariant [OF reach]) (auto intro: start_inv_step dispatcher_runs_step ports_loaded_step)
  then have "fit_dispatcher (mm_disp s)" "loader_pending (mm_disp s)" "mm_notify s = 0"
    using waiting early by (simp_all add: fit_dispatcher_def start_inv_def dispatcher_runs_def ports_loaded_def)
  then obtain d t where d: "dispatcher_goes_on\<^sup>*\<^sup>* (mm_disp s) d" "dm_pc d = Running t" "tk_callback t = LoaderTask"
    using reach_loader [of "mm_disp s"] by (auto simp: loading_def)
  have alive: "process_alive s" using waiting by (simp add: process_alive_def)
  let ?step = "main_step (Inr pg)"
  define s1 where "s1 = s\<lparr>mm_disp := d\<rparr>"
  define s2 where "s2 = s1\<lparr>mm_loaded := True, mm_manager := pg_manager pg, mm_pool := startWorkers 2 (mm_pool s1)\<rparr>"
  define s3 where "s3 = s2\<lparr>mm_disp := (mm_disp s2)\<lparr>dm_pc := AtTest, dm_run := dm_run (mm_disp s2) @ [t]\<rparr>, mm_notify := Suc (mm_notify s2)\<rparr>"
  define s4 where "s4 = s3\<lparr>mm_notify := 0, mm_pc := MAwake\<rparr>"
  have same: "mm_pc s1 = MWaiting" "mm_disp s1 = d" "\<not> mm_loaded s1" "mm_notify s1 = 0" "mm_pc s2 = MWaiting" "mm_disp s2 = d" "mm_notify s2 = 0"
    "mm_pc s3 = MWaiting" "mm_notify s3 = 1" using waiting early \<open>mm_notify s = 0\<close> by (simp_all add: s1_def s2_def s3_def)
  have "?step\<^sup>*\<^sup>* s s1" unfolding s1_def by (rule dispatcher_lift [OF d(1) alive])
  moreover have "?step s1 s2"
    unfolding s2_def by (rule main_step.load) (use d(2,3) same in \<open>auto simp: loading_def process_alive_def\<close>)
  moreover have "?step s2 s3"
    unfolding s3_def by (rule main_step.load_end) (use d(2,3) same in \<open>auto simp: process_alive_def s2_def\<close>)
  moreover have "?step s3 s4"
    using main_step.notify [of s3 0 "Inr pg"] same by (simp add: s4_def process_alive_def)
  moreover have "?step s4 (s4\<lparr>mm_pc := MServing, mm_manager := sm_run (mm_manager s4)\<rparr>)"
    using port by (intro main_step.online) (simp_all add: s4_def s3_def s2_def)
  ultimately have "?step\<^sup>*\<^sup>* s (s4\<lparr>mm_pc := MServing, mm_manager := sm_run (mm_manager s4)\<rparr>)"
    by (meson rtranclp.rtrancl_into_rtrancl)
  moreover have "sm_getPorts (sm_run (mm_manager s4)) = sm_getPorts (pg_manager pg)"
    by (simp add: s4_def s3_def s2_def sm_getPorts_def sm_run_def)
  ultimately show ?thesis by (intro exI [of _ "s4\<lparr>mm_pc := MServing, mm_manager := sm_run (mm_manager s4)\<rparr>"]) simp
qed


text \<open>A loaded program with one port, and the state in which \<open>main\<close> has just begun to wait for it.\<close>

definition demo_program :: "nat program" where
  "demo_program = \<lparr>pg_config = new_config (\<lambda>_. False) (\<lambda>_. 0), pg_process = new_process (\<lambda>_. []),
     pg_key = \<lparr>rk_p = 5, rk_q = 11, rk_d = 27, rk_n = 55, rk_e = 3, rk_dmp1 = 3, rk_dmq1 = 7, rk_iqmp = 1\<rparr>, pg_worlds = [], pg_db = login_db,
     pg_manager = new_service_manager\<lparr>sm_acceptors := [(7171, new_service_port)]\<rparr>, pg_server = demo_server\<rparr>"

definition demo_waiting :: main_machine where
  "demo_waiting = main_init\<lparr>mm_pc := MWaiting, mm_disp := dm_add (createTask LoaderTask) False disp_init\<rparr>"

lemma demo_waits:
  "main_reachable (Inr demo_program) demo_waiting" "mm_pc demo_waiting = MWaiting" "\<not> mm_loaded demo_waiting" "sm_isRunning (pg_manager demo_program)"
proof -
  define s1 where "s1 = main_init\<lparr>mm_pc := MBeforeWait, mm_disp := dm_add (createTask LoaderTask) False disp_init\<rparr>"
  have "main_step (Inr demo_program) main_init s1"
    using main_step.hand_over [of main_init "Inr demo_program"] by (simp add: s1_def main_init_def)
  moreover have "main_step (Inr demo_program) s1 (s1\<lparr>mm_pc := MWaiting\<rparr>)" by (rule main_step.wait) (simp add: s1_def)
  moreover have "s1\<lparr>mm_pc := MWaiting\<rparr> = demo_waiting" by (simp add: s1_def demo_waiting_def)
  ultimately show "main_reachable (Inr demo_program) demo_waiting" by (metis main_reachable_init main_reachable_step)
qed (simp_all add: demo_waiting_def main_init_def demo_program_def sm_isRunning_def)


theorem online_after_loading_witness:
  "\<exists>s'. main_reachable (Inr demo_program) s' \<and> mm_pc s' = MServing \<and> mm_loaded s'"
proof -
  obtain s' where s': "(main_step (Inr demo_program))\<^sup>*\<^sup>* demo_waiting s'" "mm_pc s' = MServing" using comes_online [OF demo_waits] by blast
  then have "main_reachable (Inr demo_program) s'" using demo_waits(1) by (simp add: main_reachable_def)
  then show ?thesis using online_after_loading [of "Inr demo_program" s'] s'(2) by blast
qed

theorem loader_signal_can_be_lost_witness:
  "\<exists>s. main_reachable (Inr demo_program) s \<and> mm_loaded s \<and> sm_getPorts (mm_manager s) = [7171] \<and> mm_pc s \<in> {MBeforeWait, MWaiting}"
proof -
  obtain s where s: "main_reachable (Inr demo_program) s" "mm_loaded s" "sm_getPorts (mm_manager s) = sm_getPorts (pg_manager demo_program)"
    "\<forall>s'. (main_quiet_step (Inr demo_program))\<^sup>*\<^sup>* s s' \<longrightarrow> mm_pc s' \<in> {MBeforeWait, MWaiting}"
    using loader_signal_can_be_lost [of demo_program] by blast
  then have "mm_pc s \<in> {MBeforeWait, MWaiting}" by blast
  then show ?thesis using s(1-3) by (auto simp: demo_program_def sm_getPorts_def)
qed


end
