(* ===== verification/Message_Pool.thy ===== *)
theory Message_Pool
  imports Session
begin

text \<open>
  Reference counting between messages and protocols (\<open>net/outputmessage.cpp\<close>, \<open>protocol/protocol.cpp\<close>).
  A message holds a raw pointer to its protocol, and the counter of the protocol is what keeps
  it from being deleted too early. The steps here are the operations of \<open>Network\<close> and the
  creation of protocols of \<open>Session\<close>; the invariant says that the counters are exact.
\<close>

definition holders :: "nat \<Rightarrow> net \<Rightarrow> nat set" where
  "holders p n = {m. m_protocol (n_msgs n m) = Some p}"

text \<open>A protocol without an object has no holders; one with an object has as many as its counter says.\<close>

definition counted :: "nat \<Rightarrow> net \<Rightarrow> bool" where
  "counted p n \<longleftrightarrow>
     (n_protos n p = None \<longrightarrow> holders p n = {}) \<and>
     (\<forall>pr. n_protos n p = Some pr \<longrightarrow> unat (pr_refCount pr) = card (holders p n))"

definition refs_inv :: "net \<Rightarrow> bool" where
  "refs_inv n \<longleftrightarrow>
     (\<forall>m. n_nextMsg n \<le> m \<longrightarrow> m_protocol (n_msgs n m) = None) \<and>
     distinct (p_free n) \<and> (\<forall>m \<in> set (p_free n). m < n_nextMsg n \<and> m_protocol (n_msgs n m) = None) \<and>
     (\<forall>p. counted p n) \<and>
     (\<forall>p. n_nextProto n \<le> p \<longrightarrow> n_protos n p = None)"

lemma finite_holders: "refs_inv n \<Longrightarrow> finite (holders p n)"
  by (rule finite_subset [of _ "{..<n_nextMsg n}"]) (auto simp: refs_inv_def holders_def not_le [symmetric])

lemma refs_inv_counted: "refs_inv n \<Longrightarrow> counted p n"
  by (simp add: refs_inv_def)

lemma refs_invI:
  assumes "\<And>m. n_nextMsg n \<le> m \<Longrightarrow> m_protocol (n_msgs n m) = None" and "distinct (p_free n)"
    and "\<And>m. m \<in> set (p_free n) \<Longrightarrow> m < n_nextMsg n \<and> m_protocol (n_msgs n m) = None"
    and "\<And>p. counted p n" and "\<And>p. n_nextProto n \<le> p \<Longrightarrow> n_protos n p = None"
  shows "refs_inv n"
  using assms unfolding refs_inv_def by blast

section \<open>Operations that leave the references alone\<close>

definition same_refs :: "net \<Rightarrow> net \<Rightarrow> bool" where
  "same_refs n n' \<longleftrightarrow>
     (\<forall>m. m_protocol (n_msgs n' m) = m_protocol (n_msgs n m)) \<and>
     (\<forall>p. map_option pr_refCount (n_protos n' p) = map_option pr_refCount (n_protos n p)) \<and>
     p_free n' = p_free n \<and> n_nextMsg n' = n_nextMsg n \<and> n_nextProto n' = n_nextProto n"

lemma same_refs_refl [simp]: "same_refs n n"
  by (simp add: same_refs_def)

lemma same_refs_trans: "same_refs n n' \<Longrightarrow> same_refs n' n'' \<Longrightarrow> same_refs n n''"
  by (simp add: same_refs_def)

lemma same_refs_inv:
  assumes "same_refs n n'" and "refs_inv n"
  shows "refs_inv n'"
proof -
  have h: "holders p n' = holders p n" for p using assms(1) by (simp add: same_refs_def holders_def)
  have "counted p n'" for p
  proof -
    have "map_option pr_refCount (n_protos n' p) = map_option pr_refCount (n_protos n p)" using assms(1) by (simp add: same_refs_def)
    then show ?thesis using refs_inv_counted [OF assms(2), of p] h by (cases "n_protos n p") (auto simp: counted_def)
  qed
  moreover have "n_protos n' p = None" if "n_nextProto n' \<le> p" for p
  proof -
    have "map_option pr_refCount (n_protos n' p) = map_option pr_refCount (n_protos n p)" "n_protos n p = None"
      using assms that by (simp_all add: same_refs_def refs_inv_def)
    then show ?thesis by simp
  qed
  ultimately show ?thesis using assms by (simp add: refs_inv_def same_refs_def)
qed

named_theorems quiet "operations that leave the references alone"

lemma quiet_basic [quiet]:
  "same_refs n (upd_conn h f n)" "same_refs n (add_task cb b n)" "same_refs n (add_event d cb n)" "same_refs n (conn_close h n)"
  "same_refs n (pool_autoSend m n)" "same_refs n (pool_releaseMessage m n)" "same_refs n (conn_deleteConnection h n)"
  "same_refs n (conn_releaseConnection h n)" "same_refs n (conn_accept h n)"
  "same_refs n (conn_handleReadError err h n)" "same_refs n (conn_handleWriteError err h n)"
  by (simp_all add: same_refs_def upd_conn_def add_task_def add_event_def conn_close_def pool_autoSend_def pool_releaseMessage_def
      conn_deleteConnection_def conn_releaseConnection_def conn_accept_def conn_handleReadError_def conn_handleWriteError_def Let_def)

lemma quiet_upd_proto: "upd_proto p f n = Some n' \<Longrightarrow> (\<And>pr. pr_refCount (f pr) = pr_refCount pr) \<Longrightarrow> same_refs n n'"
  by (auto simp: upd_proto_def same_refs_def)

lemma quiet_upd_msg: "m_protocol (f (n_msgs n m)) = m_protocol (n_msgs n m) \<Longrightarrow> same_refs n (upd_msg m f n)"
  by (simp add: same_refs_def upd_msg_def)

lemma quiet_closeSocket: "conn_closeSocket h n = Some n' \<Longrightarrow> same_refs n n'"
  by (auto simp: conn_closeSocket_def quiet split: if_splits)

lemma quiet_onStop: "conn_onStop h n = Some n' \<Longrightarrow> same_refs n n'"
  by (auto simp: conn_onStop_def Let_def same_refs_def upd_conn_def split: if_splits)

lemma quiet_timeout:
  "conn_handleReadTimeout err h n = Some n' \<Longrightarrow> same_refs n n'" "conn_handleWriteTimeout err h n = Some n' \<Longrightarrow> same_refs n n'"
  by (auto simp: conn_handleReadTimeout_def conn_handleWriteTimeout_def conn_onReadTimeout_def conn_onWriteTimeout_def
      split: if_splits intro: same_refs_trans [OF quiet_closeSocket quiet_basic(4)])

lemma quiet_parseHeader: "conn_parseHeader err bytes h n = Some n' \<Longrightarrow> same_refs n n'"
  by (auto simp: conn_parseHeader_def same_refs_def upd_conn_def conn_handleReadError_def conn_close_def add_task_def Let_def
      split: if_splits bind_splits)

lemma quiet_onWrite:
  assumes "conn_onWrite err h m n = Some n'"
  shows "same_refs n n'"
proof -
  define n1 where "n1 = pool_releaseMessage m (upd_conn h (\<lambda>c. c\<lparr>cn_writeTimer := False\<rparr>) n)"
  define n2 where "n2 = (if err \<noteq> NoError then conn_handleWriteError err h n1 else n1)"
  have "same_refs n n1" unfolding n1_def by (rule same_refs_trans [OF quiet_basic(1) quiet_basic(6)])
  moreover have "same_refs n1 n2" by (simp add: n2_def quiet)
  ultimately have "same_refs n n2" by (rule same_refs_trans)
  moreover have "same_refs n2 n'"
    using assms by (auto simp: conn_onWrite_def n1_def n2_def Let_def quiet split: if_splits
        intro: same_refs_trans [OF quiet_closeSocket quiet_basic(4)])
  ultimately show ?thesis by (rule same_refs_trans)
qed

lemma header_protocol: "om_header v m = Some m' \<Longrightarrow> m_protocol m' = m_protocol m"
  by (auto simp: om_header_def Let_def split: if_splits bind_splits)

lemma padding_protocol: "msg_putPadding k m = Some m' \<Longrightarrow> m_protocol m' = m_protocol m"
  by (auto simp: msg_putPadding_def split: if_splits bind_splits)

lemma encrypt_protocol: "XTEA_encrypt key m = Some m' \<Longrightarrow> m_protocol m' = m_protocol m"
  by (auto simp: XTEA_encrypt_def Let_def padding_protocol split: if_splits bind_splits)

lemma onSendMessage_refs:
  "onSendMessage h p m = Some (p', m') \<Longrightarrow> pr_refCount p' = pr_refCount p \<and> m_protocol m' = m_protocol m"
  by (auto simp: onSendMessage_def om_addHeader_def om_addCryptoHeader_def split: if_splits bind_splits
      dest!: header_protocol encrypt_protocol)

lemma quiet_p_onSendMessage: "p_onSendMessage p m n = Some n' \<Longrightarrow> same_refs n n'"
  by (auto simp: p_onSendMessage_def same_refs_def split: bind_splits dest: onSendMessage_refs)

lemma quiet_internalSend: "conn_internalSend h m n = Some n' \<Longrightarrow> same_refs n n'"
  by (auto simp: conn_internalSend_def Let_def same_refs_def upd_conn_def split: bind_splits)

lemma quiet_send: "conn_send cfg h m n = Some (b, n') \<Longrightarrow> same_refs n n'"
  by (auto simp: conn_send_def quiet split: if_splits bind_splits option.splits
      intro: quiet_internalSend same_refs_trans [OF quiet_p_onSendMessage quiet_internalSend])

lemma quiet_dropped: "pool_dropped m n = Some n' \<Longrightarrow> same_refs n n'"
  by (auto simp: pool_dropped_def quiet_p_onSendMessage split: option.splits)

lemma quiet_deliver: "pool_deliver cfg m n = Some n' \<Longrightarrow> same_refs n n'"
  by (auto simp: pool_deliver_def split: option.splits bind_splits if_splits intro: quiet_send same_refs_trans [OF quiet_send quiet_dropped])

lemma quiet_pool_send: "pool_send cfg m n = Some n' \<Longrightarrow> same_refs n n'"
  by (auto simp: pool_send_def quiet_deliver split: if_splits)

lemma same_refs_queues [simp]:
  "same_refs n (n'\<lparr>p_autoSend := q\<rparr>) = same_refs n n'" "same_refs n (n'\<lparr>p_addQueue := q\<rparr>) = same_refs n n'"
  "same_refs (n\<lparr>p_autoSend := q\<rparr>) n' = same_refs n n'" "same_refs (n\<lparr>p_addQueue := q\<rparr>) n' = same_refs n n'"
  by (simp_all add: same_refs_def)

lemma quiet_requeue: "pool_requeue dropTime frameTime ms n = Some n' \<Longrightarrow> same_refs n n'"
proof (induction ms arbitrary: n)
  case (Cons m ms)
  then obtain n1 where n1: "pool_requeue dropTime frameTime ms n1 = Some n'"
    and "n1 = (upd_msg m (m_state_update (\<lambda>_. STATE_ALLOCATED)) n)\<lparr>p_autoSend := m # p_autoSend n\<rparr> \<or>
       n1 = (upd_msg m (m_state_update (\<lambda>_. STATE_ALLOCATED)) n)\<lparr>p_autoSend := p_autoSend n @ [m]\<rparr> \<or>
       (\<exists>n0. pool_dropped m n = Some n0 \<and> n1 = pool_releaseMessage m n0)"
    by (auto simp: Let_def upd_msg_def split: if_splits bind_splits)
  then have "same_refs n n1" by (auto simp: quiet_upd_msg intro: same_refs_trans [OF quiet_dropped quiet_basic(6)])
  from same_refs_trans [OF this Cons.IH [OF n1]] show ?case .
qed simp

lemma quiet_end_of_scope: "same_refs n (end_of_scope m n0 n)"
  by (simp add: end_of_scope_def Let_def quiet)

lemma quiet_flush: "pool_flush cfg frameTime ms n = Some n' \<Longrightarrow> same_refs n n'"
proof (induction ms arbitrary: n)
  case (Cons m ms)
  show ?case
  proof (cases "frameTime \<le> m_frame (n_msgs n m)")
    case True
    then show ?thesis using Cons.prems by auto
  next
    case False
    then obtain n1 where n1: "pool_deliver cfg m n = Some n1" "pool_flush cfg frameTime ms (end_of_scope m n n1) = Some n'"
      using Cons.prems by (auto split: bind_splits)
    from same_refs_trans [OF quiet_deliver [OF n1(1)] same_refs_trans [OF quiet_end_of_scope Cons.IH [OF n1(2)]]] show ?thesis .
  qed
qed auto

lemma quiet_sendAll: "pool_sendAll cfg n = Some n' \<Longrightarrow> same_refs n n'"
  by (auto simp: pool_sendAll_def Let_def split: bind_splits dest!: quiet_requeue quiet_flush intro: same_refs_trans)

lemma put_protocol: "msg_put v m = Some m' \<Longrightarrow> m_protocol m' = m_protocol m"
  by (auto simp: msg_put_def split: if_splits bind_splits)

lemma putString_protocol: "msg_putString s b m = Some m' \<Longrightarrow> m_protocol m' = m_protocol m"
  by (auto simp: msg_putString_def Let_def split: if_splits bind_splits dest: put_protocol)

section \<open>Operations that change references\<close>

lemma count_at: "refs_inv n \<Longrightarrow> n_protos n p = Some pr \<Longrightarrow> unat (pr_refCount pr) = card (holders p n)"
  using refs_inv_counted [of n p] by (simp add: counted_def)

lemma alive: "refs_inv n \<Longrightarrow> m_protocol (n_msgs n m) = Some p \<Longrightarrow> \<exists>pr. n_protos n p = Some pr"
  using refs_inv_counted [of n p] by (cases "n_protos n p") (auto simp: counted_def holders_def)

lemma refs_inv_releaseProtocol:
  assumes "refs_inv n" and "p_releaseProtocol p n = Some n'"
  shows "refs_inv n'"
proof -
  obtain pr where pr: "n_protos n p = Some pr" using assms(2) by (auto simp: p_releaseProtocol_def split: bind_splits)
  show ?thesis
  proof (cases "pr_refCount pr > 0")
    case True
    then have "same_refs n n'" using assms(2) pr by (auto simp: p_releaseProtocol_def quiet)
    then show ?thesis using assms(1) by (rule same_refs_inv)
  next
    case False
    then have n': "n' = n\<lparr>n_protos := (n_protos n)(p := None)\<rparr>" and z: "pr_refCount pr = 0"
      using assms(2) pr by (auto simp: p_releaseProtocol_def p_deleteProtocolTask_def word_gt_0)
    then have "card (holders p n) = 0" using count_at [OF assms(1) pr] by simp
    then have "holders p n = {}" using finite_holders [OF assms(1), of p] by simp
    then show ?thesis using assms(1) by (simp add: n' refs_inv_def counted_def holders_def)
  qed
qed

lemma refs_inv_makeProtocol:
  assumes "refs_inv n"
  shows "refs_inv (snd (service_makeProtocol c n))"
proof -
  define q where "q = n_nextProto n"
  define n' where "n' = n\<lparr>n_protos := (n_protos n)(q \<mapsto> new_login_protocol c), n_nextProto := q + 1\<rparr>"
  have "n_protos n q = None" using assms by (simp add: refs_inv_def q_def)
  then have none: "holders q n = {}" using refs_inv_counted [OF assms, of q] by (simp add: counted_def)
  have h: "holders p n' = holders p n" for p by (simp add: holders_def n'_def)
  have "counted p n'" for p
  proof (cases "p = q")
    case True
    then show ?thesis using none h [of q] by (simp add: counted_def n'_def new_login_protocol_def new_protocol_def)
  next
    case False
    then show ?thesis using refs_inv_counted [OF assms, of p] h [of p] by (simp add: counted_def n'_def)
  qed
  moreover have "n_protos n' p = None" if "n_nextProto n' \<le> p" for p using that assms by (simp add: n'_def refs_inv_def q_def)
  ultimately have "refs_inv n'" by (intro refs_invI) (use assms in \<open>auto simp: n'_def refs_inv_def\<close>)
  then show ?thesis by (simp add: service_makeProtocol_def n'_def q_def Let_def)
qed

lemma unref_counted:
  assumes inv: "refs_inv n" and m: "m_protocol (n_msgs n m) = Some q" and pr: "n_protos n q = Some pr"
  shows "unat (pr_refCount pr - 1) = card (holders q n - {m})"
proof -
  have "m \<in> holders q n" using m by (simp add: holders_def)
  then have card: "card (holders q n - {m}) = card (holders q n) - 1" "0 < card (holders q n)"
    using finite_holders [OF inv, of q] by (auto simp: card_gt_0_iff)
  have cnt: "unat (pr_refCount pr) = card (holders q n)" by (rule count_at [OF inv pr])
  then have "pr_refCount pr \<noteq> 0" using card(2) by auto
  then show ?thesis using cnt card(1) unat_minus_one by metis
qed

text \<open>Changing the protocol of one message and the counters with it.\<close>

lemma refs_inv_release:
  assumes "refs_inv n" and "m < n_nextMsg n" and "m \<notin> set (p_free n)"
  shows "\<exists>n'. pool_internalReleaseMessage m n = Some n' \<and> refs_inv n'"
proof -
  define free where "free = (\<lambda>n0 :: net. (upd_msg m om_freeMessage (case m_connection (n_msgs n m) of None \<Rightarrow> n0
      | Some h \<Rightarrow> upd_conn h (\<lambda>c. c\<lparr>cn_refCount := cn_refCount c - 1\<rparr>) n0))\<lparr>p_free := p_free n @ [m]\<rparr>)"
  have free: "n_protos (free n0) = n_protos n0" "p_free (free n0) = p_free n @ [m]" "n_nextMsg (free n0) = n_nextMsg n0"
    "n_nextProto (free n0) = n_nextProto n0" "n_msgs (free n0) = (n_msgs n0)(m := om_freeMessage (n_msgs n0 m))" for n0
    by (simp_all add: free_def upd_msg_def upd_conn_def split: option.split)
  have none: "m_protocol (om_freeMessage om) = None" for om by (simp add: om_freeMessage_def)
  have inv: "refs_inv (free n0)"
    if "n_msgs n0 = n_msgs n" "n_nextMsg n0 = n_nextMsg n" "n_nextProto n0 = n_nextProto n" "\<And>p. counted p (free n0)"
      "\<And>p. n_nextProto n \<le> p \<Longrightarrow> n_protos n0 p = None" for n0
    using that assms by (intro refs_invI) (auto simp: free none refs_inv_def)
  have h: "holders p (free n0) = holders p n - {m}" if "n_msgs n0 = n_msgs n" for p n0
    using that by (auto simp: holders_def free none)
  show ?thesis
  proof (cases "m_protocol (n_msgs n m)")
    case None
    then have "holders p n - {m} = holders p n" for p by (auto simp: holders_def)
    then have "counted p (free n)" for p using refs_inv_counted [OF assms(1), of p] h [of n p] by (simp add: counted_def free)
    then have "refs_inv (free n)" by (intro inv) (use assms(1) in \<open>simp_all add: refs_inv_def\<close>)
    moreover have "pool_internalReleaseMessage m n = Some (free n)"
      using None by (simp add: pool_internalReleaseMessage_def free_def Let_def upd_msg_def upd_conn_def split: option.split)
    ultimately show ?thesis by blast
  next
    case (Some q)
    obtain pr where pr: "n_protos n q = Some pr" using alive [OF assms(1) Some] by blast
    define n1 where "n1 = n\<lparr>n_protos := (n_protos n)(q \<mapsto> pr\<lparr>pr_refCount := pr_refCount pr - 1\<rparr>)\<rparr>"
    have "unat (pr_refCount pr - 1) = card (holders q n - {m})" by (rule unref_counted [OF assms(1) Some pr])
    moreover have "holders p n - {m} = holders p n" if "p \<noteq> q" for p using that Some by (auto simp: holders_def)
    ultimately have "counted p (free n1)" for p
      using refs_inv_counted [OF assms(1), of p] h [of n1 p] by (cases "p = q") (auto simp: counted_def free n1_def)
    then have "refs_inv (free n1)"
      by (intro inv) (use assms(1) pr in \<open>auto simp: n1_def refs_inv_def\<close>)
    moreover have "pool_internalReleaseMessage m n = Some (free n1)"
      using Some pr by (simp add: pool_internalReleaseMessage_def free_def Let_def upd_proto_def n1_def upd_msg_def upd_conn_def split: option.split)
    ultimately show ?thesis by blast
  qed
qed

text \<open>Taking a message from the pool: the message had no protocol before.\<close>

lemma refs_inv_configure:
  assumes inv: "refs_inv n" and m: "m < n_nextMsg n" "m \<notin> set (p_free n)" "m_protocol (n_msgs n m) = None"
    and small: "n_nextMsg n < 2 ^ 32" and run: "pool_configureOutputMessage m p autoSend n = Some n'"
  shows "refs_inv n'"
proof -
  obtain pr where pr: "n_protos n p = Some pr"
    using run by (auto simp: pool_configureOutputMessage_def Let_def upd_msg_def split: bind_splits if_splits)
  have n': "n_protos n' = (n_protos n)(p \<mapsto> pr\<lparr>pr_refCount := pr_refCount pr + 1\<rparr>)" "p_free n' = p_free n"
    "n_nextMsg n' = n_nextMsg n" "n_nextProto n' = n_nextProto n"
    "\<And>k. m_protocol (n_msgs n' k) = (if k = m then Some p else m_protocol (n_msgs n k))"
    using run pr by (auto simp: pool_configureOutputMessage_def Let_def upd_msg_def upd_conn_def upd_proto_def split: if_splits option.splits)
  have "holders p n \<subseteq> {..<n_nextMsg n} - {m}"
  proof
    fix k
    assume "k \<in> holders p n"
    then have "m_protocol (n_msgs n k) = Some p" by (simp add: holders_def)
    then show "k \<in> {..<n_nextMsg n} - {m}" using inv m(3) by (auto simp: refs_inv_def not_le [symmetric])
  qed
  then have "card (holders p n) \<le> card ({..<n_nextMsg n} - {m})" by (rule card_mono [rotated]) simp
  then have "card (holders p n) < n_nextMsg n" using m(1) by simp
  then have "unat (pr_refCount pr) + 1 < 2 ^ 32" using count_at [OF inv pr] small by simp
  then have up: "unat (pr_refCount pr + 1) = unat (pr_refCount pr) + 1" by (simp add: unat_word_ariths)
  have hp: "holders p n' = insert m (holders p n)" "m \<notin> holders p n" using m(3) by (auto simp: holders_def n')
  have hq: "holders q n' = holders q n" if "q \<noteq> p" for q using that m(3) by (auto simp: holders_def n')
  have "counted q n'" for q
  proof (cases "q = p")
    case True
    then show ?thesis using hp up count_at [OF inv pr] finite_holders [OF inv, of p] by (simp add: counted_def n')
  next
    case False
    then show ?thesis using refs_inv_counted [OF inv, of q] hq by (simp add: counted_def n')
  qed
  then show ?thesis
    by (intro refs_invI) (use inv m pr in \<open>auto simp: n' refs_inv_def\<close>)
qed

lemma refs_inv_get:
  assumes inv: "refs_inv n" and small: "n_nextMsg n + 1 < 2 ^ 32" and run: "pool_getOutputMessage p autoSend n = Some (r, n')"
  shows "refs_inv n'"
proof -
  define n0 where "n0 = (if p_free n = [] then n\<lparr>n_msgs := (n_msgs n)(n_nextMsg n := new_output_message), n_nextMsg := n_nextMsg n + 1,
      p_free := [n_nextMsg n]\<rparr> else n)"
  define m where "m = last (p_free n0)"
  define n1 where "n1 = n0\<lparr>p_free := butlast (p_free n0)\<rparr>"
  have blank: "m_protocol new_output_message = None" by (simp add: new_output_message_def om_freeMessage_def)
  have "holders q n0 = holders q n" for q
  proof -
    have "m_protocol (n_msgs n (n_nextMsg n)) = None" using inv by (simp add: refs_inv_def)
    then show ?thesis by (auto simp: n0_def holders_def blank)
  qed
  then have counted: "counted q n0" for q using refs_inv_counted [OF inv, of q] by (simp add: counted_def) (simp add: n0_def)
  have inv0: "refs_inv n0"
    by (intro refs_invI counted) (use inv in \<open>auto simp: n0_def refs_inv_def blank split: if_splits\<close>)
  have ne: "p_free n0 \<noteq> []" by (simp add: n0_def)
  then have split: "p_free n0 = p_free n1 @ [m]" by (simp add: n1_def m_def)
  have "distinct (p_free n0)" using inv0 by (simp add: refs_inv_def)
  then have dist: "distinct (p_free n1)" "m \<notin> set (p_free n1)" unfolding split by simp_all
  have sub: "set (p_free n1) \<subseteq> set (p_free n0)" unfolding split by auto
  have "m \<in> set (p_free n0)" using ne by (simp add: m_def)
  then have m: "m < n_nextMsg n1" "m_protocol (n_msgs n1 m) = None" using inv0 by (simp_all add: refs_inv_def n1_def)
  have "holders q n1 = holders q n0" for q by (simp add: n1_def holders_def)
  then have "counted q n1" for q using counted [of q] by (simp add: counted_def) (simp add: n1_def)
  then have inv1: "refs_inv n1"
    using dist(1) sub inv0 by (intro refs_invI) (auto simp: refs_inv_def n1_def)
  have small1: "n_nextMsg n1 < 2 ^ 32" using small by (simp add: n1_def n0_def)
  show ?thesis
  proof (cases "n' = n")
    case False
    then have "pool_configureOutputMessage m p autoSend n1 = Some n'"
      using run by (auto simp: pool_getOutputMessage_def Let_def n0_def n1_def m_def split: if_splits bind_splits)
    then show ?thesis by (rule refs_inv_configure [OF inv1 m(1) dist(2) m(2) small1])
  qed (use inv in simp)
qed

lemma refs_inv_closeConnection:
  assumes "refs_inv n" and "conn_closeConnection h n = Some n'"
  shows "refs_inv n'"
proof (cases "cn_state (n_conns n h) = CONNECTION_STATE_REQUEST_CLOSE")
  case True
  define part1 where "part1 = (case cn_protocol (n_conns n h) of
      None \<Rightarrow> Some n
    | Some p \<Rightarrow> do {
        n \<leftarrow> upd_proto p (\<lambda>pr. pr\<lparr>pr_connection := None\<rparr>) n;
        n \<leftarrow> p_releaseProtocol p n;
        Some (upd_conn h (\<lambda>c. c\<lparr>cn_protocol := None\<rparr>) n)
      })"
  obtain n1 where n1: "part1 = Some n1" using assms(2) True by (auto simp: conn_closeConnection_def part1_def split: bind_splits)
  have inv1: "refs_inv n1"
  proof (cases "cn_protocol (n_conns n h)")
    case (Some p)
    then obtain n2 n3 where n23: "upd_proto p (\<lambda>pr. pr\<lparr>pr_connection := None\<rparr>) n = Some n2" "p_releaseProtocol p n2 = Some n3"
      "n1 = upd_conn h (\<lambda>c. c\<lparr>cn_protocol := None\<rparr>) n3"
      using n1 by (auto simp: part1_def split: bind_splits)
    have "refs_inv n2" by (rule same_refs_inv [OF quiet_upd_proto [OF n23(1)] assms(1)]) simp
    from refs_inv_releaseProtocol [OF this n23(2)] have "refs_inv n3" .
    then show ?thesis unfolding n23(3) by (rule same_refs_inv [OF quiet_basic(1)])
  qed (use n1 assms(1) in \<open>simp add: part1_def\<close>)
  define n4 where "n4 = upd_conn h (cn_state_update (\<lambda>_. CONNECTION_STATE_CLOSING)) n1"
  have inv4: "refs_inv n4" unfolding n4_def using inv1 by (rule same_refs_inv [OF quiet_basic(1)])
  consider "n' = n4" | n5 where "conn_closeSocket h n4 = Some n5"
      "n' = upd_conn h (cn_state_update (\<lambda>_. CONNECTION_STATE_CLOSED)) (conn_releaseConnection h n5)"
    using assms(2) True n1 by (auto simp: conn_closeConnection_def part1_def [symmetric] n4_def Let_def split: if_splits bind_splits)
  then show ?thesis
  proof cases
    case 2
    have "same_refs n4 n'" unfolding 2(2)
      by (rule same_refs_trans [OF quiet_closeSocket [OF 2(1)] same_refs_trans [OF quiet_basic(8) quiet_basic(1)]])
    then show ?thesis using inv4 by (rule same_refs_inv)
  qed (use inv4 in simp)
qed (use assms in \<open>simp add: conn_closeConnection_def\<close>)

lemma refs_inv_conn_step:
  assumes "refs_inv n" and "conn_step cfg h e n = Some n'"
  shows "refs_inv n'"
proof (cases "e = EvCloseConnection")
  case True
  then show ?thesis using assms refs_inv_closeConnection by simp
next
  case False
  have "same_refs n n'"
    using assms(2) False
    by (cases e) (auto simp: quiet quiet_onStop quiet_parseHeader quiet_onWrite quiet_timeout dest: quiet_send)
  then show ?thesis using assms(1) by (rule same_refs_inv)
qed

lemma refs_inv_getOutputBuffer:
  assumes inv: "refs_inv n" and small: "n_nextMsg n + 1 < 2 ^ 32" and run: "p_getOutputBuffer p n = Some (r, n')"
  shows "refs_inv n'"
proof (cases "n' = n")
  case False
  then obtain n1 where n1: "pool_getOutputMessage p True n = Some (r, n1)" "upd_proto p (\<lambda>pr. pr\<lparr>m_outputBuffer := r\<rparr>) n1 = Some n'"
    using run by (auto simp: p_getOutputBuffer_def split: bind_splits option.splits if_splits)
  show ?thesis by (rule same_refs_inv [OF quiet_upd_proto [OF n1(2)] refs_inv_get [OF inv small n1(1)]]) simp
qed (use inv in simp)

lemma refs_inv_writeOutputBuffer:
  assumes inv: "refs_inv n" and small: "n_nextMsg n + 1 < 2 ^ 32" and run: "p_writeOutputBuffer p msg n = Some n'"
  shows "refs_inv n'"
proof (cases "n' = n")
  case False
  obtain pr where pr: "n_protos n p = Some pr" using run by (auto simp: p_writeOutputBuffer_def split: bind_splits)
  define chosen where "chosen = (case m_outputBuffer pr of
      Some m \<Rightarrow>
        if int NETWORK_MAX_SIZE < uint (m_position (n_msgs n m)) + uint (m_size msg)
        then pool_getOutputMessage p True n else Some (Some m, n)
    | None \<Rightarrow> pool_getOutputMessage p True n)"
  have not_idle: "\<not> (m_outputBuffer pr = None \<and> pr_connection pr = None)" using run pr False by (auto simp: p_writeOutputBuffer_def split: if_splits)
  obtain r n1 where r: "chosen = Some (r, n1)"
    using run pr not_idle by (auto simp: p_writeOutputBuffer_def chosen_def split: bind_splits)
  then have n1: "pool_getOutputMessage p True n = Some (r, n1) \<or> n1 = n" by (auto simp: chosen_def split: option.splits if_splits)
  obtain n2 where n2: "upd_proto p (\<lambda>pr. pr\<lparr>m_outputBuffer := r\<rparr>) n1 = Some n2"
    and n': "n' = n2 \<or> (\<exists>k s om. msg_putString s False (n_msgs n2 k) = Some om \<and> n' = upd_msg k (\<lambda>_. om) n2)"
    using run pr not_idle r unfolding p_writeOutputBuffer_def chosen_def [symmetric]
    by (auto simp: chosen_def [symmetric] split: bind_splits option.splits)
  have "refs_inv n1" using n1 refs_inv_get [OF inv small] inv by blast
  then have inv2: "refs_inv n2" by (rule same_refs_inv [OF quiet_upd_proto [OF n2], rotated]) simp
  from n' show ?thesis
  proof
    assume "\<exists>k s om. msg_putString s False (n_msgs n2 k) = Some om \<and> n' = upd_msg k (\<lambda>_. om) n2"
    then have "same_refs n2 n'" by (auto intro!: quiet_upd_msg dest: putString_protocol)
    then show ?thesis using inv2 by (rule same_refs_inv)
  qed (use inv2 in simp)
qed (use inv in simp)

section \<open>No protocol is deleted under a message\<close>

text \<open>
  The steps of the network core: what happens to a connection, the pool, filling a message, the
  output buffer, and the creation and release of protocols. A message is given back once for
  each time it was taken, as its shared pointer has one owner, and at most \<open>2^32 - 2\<close> message
  objects exist.
\<close>

inductive net_step :: "config \<Rightarrow> net \<Rightarrow> net \<Rightarrow> bool" for cfg where
  connection: "conn_step cfg h e n = Some n' \<Longrightarrow> net_step cfg n n'"
| take_message: "pool_getOutputMessage p autoSend n = Some (r, n') \<Longrightarrow> n_nextMsg n + 1 < 2 ^ 32 \<Longrightarrow> net_step cfg n n'"
| give_back: "pool_internalReleaseMessage m n = Some n' \<Longrightarrow> m < n_nextMsg n \<Longrightarrow> m \<notin> set (p_free n) \<Longrightarrow> net_step cfg n n'"
| fill_message: "put_field f (n_msgs n m) = Some om \<Longrightarrow> net_step cfg n (upd_msg m (\<lambda>_. om) n)"
| send_message: "pool_send cfg m n = Some n' \<Longrightarrow> net_step cfg n n'"
| send_all: "pool_sendAll cfg n = Some n' \<Longrightarrow> net_step cfg n n'"
| start_frame: "net_step cfg n (pool_startExecutionFrame n)"
| stop_pool: "net_step cfg n (pool_stop n)"
| get_buffer: "p_getOutputBuffer p n = Some (r, n') \<Longrightarrow> n_nextMsg n + 1 < 2 ^ 32 \<Longrightarrow> net_step cfg n n'"
| write_buffer: "p_writeOutputBuffer p msg n = Some n' \<Longrightarrow> n_nextMsg n + 1 < 2 ^ 32 \<Longrightarrow> net_step cfg n n'"
| release_protocol: "p_releaseProtocol p n = Some n' \<Longrightarrow> net_step cfg n n'"
| make_protocol: "net_step cfg n (snd (service_makeProtocol c n))"

lemma put_field_protocol: "put_field f m = Some m' \<Longrightarrow> m_protocol m' = m_protocol m"
  by (cases f) (auto dest: put_protocol putString_protocol)

lemma refs_inv_step: "net_step cfg n n' \<Longrightarrow> refs_inv n \<Longrightarrow> refs_inv n'"
proof (induction rule: net_step.induct)
  case (give_back m n n')
  then show ?case using refs_inv_release [of n m] by simp
next
  case (fill_message f n m om)
  then have "same_refs n (upd_msg m (\<lambda>_. om) n)" by (intro quiet_upd_msg) (simp add: put_field_protocol)
  then show ?case using fill_message.prems by (rule same_refs_inv)
next
  case (send_message m n n')
  then show ?case by (auto intro: same_refs_inv quiet_pool_send)
next
  case (send_all n n')
  then show ?case by (auto intro: same_refs_inv quiet_sendAll)
next
  case (start_frame n)
  then show ?case by (rule same_refs_inv [rotated]) (simp add: pool_startExecutionFrame_def same_refs_def)
next
  case (stop_pool n)
  then show ?case by (rule same_refs_inv [rotated]) (simp add: pool_stop_def same_refs_def)
qed (auto intro: refs_inv_conn_step refs_inv_get refs_inv_getOutputBuffer refs_inv_writeOutputBuffer refs_inv_releaseProtocol refs_inv_makeProtocol)

section \<open>The pool at the start\<close>

text \<open>
  The constructor of \<open>OutputMessagePool\<close> adds its new messages to the free ones. It leaves \<open>m_shutdown\<close>
  as it is: the first \<open>startExecutionFrame\<close> of the dispatcher sets it.
\<close>

definition new_pool_messages :: "net \<Rightarrow> net" where
  "new_pool_messages n =
     (let fresh = [n_nextMsg n ..< n_nextMsg n + OUTPUT_POOL_SIZE]
      in n\<lparr>n_msgs := (\<lambda>m. if m \<in> set fresh then new_output_message else n_msgs n m),
           n_nextMsg := n_nextMsg n + OUTPUT_POOL_SIZE, p_free := p_free n @ fresh, p_frameTime := word_of_int (n_ms n)\<rparr>)"

text \<open>Before the first connection no message and no protocol points anywhere, and the new pool keeps it so.\<close>

lemma refs_inv_new_pool:
  assumes "n_protos n = Map.empty" "\<And>m. m_protocol (n_msgs n m) = None" "p_free n = []"
  shows "refs_inv (new_pool_messages n)" "n_nextMsg (new_pool_messages n) = n_nextMsg n + 100" "length (p_free (new_pool_messages n)) = 100"
proof -
  have "m_protocol (n_msgs (new_pool_messages n) m) = None" for m
    using assms(2) by (simp add: new_pool_messages_def Let_def new_output_message_def om_freeMessage_def)
  then show "refs_inv (new_pool_messages n)"
    using assms by (intro refs_invI) (auto simp: new_pool_messages_def Let_def counted_def holders_def new_output_message_def om_freeMessage_def)
qed (use assms in \<open>simp_all add: new_pool_messages_def Let_def OUTPUT_POOL_SIZE_def\<close>)

text \<open>C9. The reference counters are exact along every sequence of steps of the network core: the counter of
  a protocol is the number of messages that point to it. So no protocol is deleted while a
  message points to it, and giving back a message never touches a deleted protocol.\<close>

theorem protocol_outlives_its_messages:
  assumes "(net_step cfg)\<^sup>*\<^sup>* n n'" and "refs_inv n"
  shows "(\<forall>p pr. n_protos n' p = Some pr \<longrightarrow> unat (pr_refCount pr) = card {m. m_protocol (n_msgs n' m) = Some p}) \<and>
     (\<forall>m p. m_protocol (n_msgs n' m) = Some p \<longrightarrow> (\<exists>pr. n_protos n' p = Some pr)) \<and>
     (\<forall>m. m < n_nextMsg n' \<and> m \<notin> set (p_free n') \<longrightarrow> (\<exists>n''. pool_internalReleaseMessage m n' = Some n''))"
proof -
  have "refs_inv n'" using assms by (induction rule: rtranclp_induct) (auto intro: refs_inv_step)
  then show ?thesis using count_at alive refs_inv_release by (fastforce simp: holders_def)
qed

theorem protocol_outlives_its_messages_witness:
  "\<exists>n'. pool_getOutputMessage 2 False (demo_net\<lparr>n_protos := [2 \<mapsto> new_protocol (Some 4)], n_nextProto := 3\<rparr>) = Some (Some 0, n') \<and>
     (\<exists>pr. n_protos n' 2 = Some pr \<and> unat (pr_refCount pr) = card {m. m_protocol (n_msgs n' m) = Some 2}) \<and>
     (\<exists>n''. pool_internalReleaseMessage 0 n' = Some n'')"
proof -
  let ?n = "demo_net\<lparr>n_protos := [2 \<mapsto> new_protocol (Some 4)], n_nextProto := 3\<rparr>"
  have "m_protocol (n_msgs ?n m) = None" for m by (simp add: demo_net_def new_output_message_def om_freeMessage_def)
  then have "counted p ?n" for p by (auto simp: counted_def holders_def new_protocol_def split: if_splits)
  then have inv: "refs_inv ?n"
    by (intro refs_invI) (auto simp: demo_net_def new_output_message_def om_freeMessage_def)
  obtain n' where n': "pool_getOutputMessage 2 False ?n = Some (Some 0, n')" "n_protos n' 2 \<noteq> None" "p_free n' = []" "n_nextMsg n' = 1"
    by (auto simp: pool_getOutputMessage_def pool_configureOutputMessage_def demo_net_def new_protocol_def upd_msg_def upd_proto_def upd_conn_def Let_def)
  have "n_nextMsg ?n + 1 < 2 ^ 32" by (simp add: demo_net_def)
  with n'(1) have "net_step (new_config (\<lambda>_. False) (\<lambda>_. 0)) ?n n'" by (rule net_step.take_message)
  then have "(net_step (new_config (\<lambda>_. False) (\<lambda>_. 0)))\<^sup>*\<^sup>* ?n n'" by (rule r_into_rtranclp)
  from protocol_outlives_its_messages [OF this inv] show ?thesis using n' by auto
qed

end
