(* ===== verification/Login_System.thy ===== *)
theory Login_System
  imports Session
begin

text \<open>
  The composition of connections, protocols, dispatcher and scheduler: a step is the completion of an
  asynchronous operation, a new peer, an event that the scheduler hands over, or the next task
  of the dispatcher (\<open>tasksThread\<close> in \<open>tasks.cpp\<close>, with the frame of the message pool around the callback).

  The tasks for a protocol hold a raw pointer to it. What keeps the pointer of a queued login task
  valid is only the order of the tasks: the protocol is released by the task that closes its
  connection, and that task is queued behind.
\<close>

section \<open>Steps\<close>

definition tasks :: "net \<Rightarrow> callback list" where
  "tasks n = map tk_callback (d_taskList (n_disp n))"

definition events :: "net \<Rightarrow> callback list" where
  "events n = map tk_callback (sc_eventList (n_sched n))"

type_synonym 's login_state = "net \<times> (u32 \<rightharpoonup> string) \<times> 's database"

text \<open>
  The callback of a task. Of reloading the message of the day and reopening a port only the events they
  schedule are part of this state; the event of a port that has to be reopened is a step of its own.
  The dispatcher runs a callback as one step.
\<close>

fun run_task :: "'s env \<Rightarrow> hash_functions \<Rightarrow> (nat \<Rightarrow> int \<times> int) \<Rightarrow> callback \<Rightarrow> 's login_state \<Rightarrow> 's login_state option" where
  "run_task env H rnd (CloseConnection h) (n, r) = map_option (\<lambda>n. (n, r)) (conn_closeConnection h n)"
| "run_task env H rnd (ReleaseConnection h) (n, r) = Some (conn_releaseConnection h n, r)"
| "run_task env H rnd (OnStop h) (n, r) = map_option (\<lambda>n. (n, r)) (conn_onStop h n)"
| "run_task env H rnd (ReleaseProtocol p) (n, r) = map_option (\<lambda>n. (n, r)) (p_releaseProtocol p n)"
| "run_task env H rnd (InternalReleaseMessage m) (n, r) = map_option (\<lambda>n. (n, r)) (pool_internalReleaseMessage m n)"
| "run_task env H rnd (Delegate p name password clientIp version) (n, r) = delegate env H rnd p name password clientIp (n, r)"
| "run_task env H rnd (OpenServices port ips) (n, r) = Some (n, r)"
| "run_task env H rnd MotdReload (n, r) = Some (add_event 60000 MotdReload n, r)"

text \<open>One round of the dispatcher thread after its wait: an expired task is dropped.\<close>

definition dispatch_task :: "int \<Rightarrow> 's env \<Rightarrow> hash_functions \<Rightarrow> (nat \<Rightarrow> int \<times> int) \<Rightarrow> 's login_state \<Rightarrow> 's login_state option" where
  "dispatch_task now env H rnd st =
     (let (n, r) = st; (task, d) = d_take (n_disp n); n = n\<lparr>n_disp := d\<rparr>
      in case task of
           None \<Rightarrow> Some (n, r)
         | Some t \<Rightarrow>
             if hasExpired now t then Some (n, r)
             else do {
               (n, r) \<leftarrow> run_task env H rnd (tk_callback t) (pool_startExecutionFrame n, r);
               n \<leftarrow> pool_sendAll (e_config env) n;
               Some (n, r)
             })"

text \<open>One round of the scheduler thread after its wait.\<close>

definition schedule_event :: "net \<Rightarrow> net option" where
  "schedule_event n =
     (case sc_take False (n_sched n) of
        Some (Some (t, True), sc) \<Rightarrow> Some (n\<lparr>n_sched := sc, n_disp := snd (d_addTask (unsetExpiration t) True (n_disp n))\<rparr>)
      | Some (_, sc) \<Rightarrow> Some (n\<lparr>n_sched := sc\<rparr>)
      | None \<Rightarrow> None)"

inductive login_step :: "'s login_state \<Rightarrow> 's login_state \<Rightarrow> bool" where
  peer: "cn_protocol (n_conns n h) = None \<Longrightarrow> CloseConnection h \<notin> set (tasks n) \<Longrightarrow>
     login_step (n, r) (conn_accept h (n\<lparr>n_conns := (n_conns n)(h := new_connection now ip), n_cm := cm\<rparr>), r)"
| header: "conn_parseHeader err bytes h n = Some n' \<Longrightarrow> login_step (n, r) (n', r)"
| packet: "conn_parsePacket (env :: 's env) rsa services err bytes h n = Some n' \<Longrightarrow> login_step (n, r) (n', r)"
| written: "conn_onWrite err h m n = Some n' \<Longrightarrow> login_step (n, r) (n', r)"
| read_timeout: "conn_handleReadTimeout err h n = Some n' \<Longrightarrow> login_step (n, r) (n', r)"
| write_timeout: "conn_handleWriteTimeout err h n = Some n' \<Longrightarrow> login_step (n, r) (n', r)"
| posted: "n_posted n = OnStop h # rest \<Longrightarrow> conn_onStop h (n\<lparr>n_posted := rest\<rparr>) = Some n' \<Longrightarrow> login_step (n, r) (n', r)"
| event: "schedule_event n = Some n' \<Longrightarrow> login_step (n, r) (n', r)"
| reopen: "login_step (n, r) (add_event 5000 (OpenServices port ips) n, r)"
| dispatch: "dispatch_task now env H rnd (n, r) = Some st \<Longrightarrow> login_step (n, r) st"

section \<open>Operations that leave the owners alone\<close>

fun plain :: "callback \<Rightarrow> bool" where
  "plain (CloseConnection h) = False"
| "plain (ReleaseProtocol p) = False"
| "plain (Delegate p name password clientIp version) = False"
| "plain _ = True"

text \<open>
  An operation is calm when it changes no owner and no protocol object, forgets no first packet, and adds only plain
  tasks, or tasks that close connections that have just ceased to be open.
\<close>

definition calm_tasks :: "net \<Rightarrow> net \<Rightarrow> callback list \<Rightarrow> callback list \<Rightarrow> bool" where
  "calm_tasks n n' front rear \<longleftrightarrow> tasks n' = front @ tasks n @ rear \<and> (\<forall>cb \<in> set front. plain cb) \<and>
     (\<forall>cb \<in> set rear. plain cb \<or> (\<exists>h. cb = CloseConnection h \<and>
        cn_state (n_conns n h) = CONNECTION_STATE_OPEN \<and> cn_state (n_conns n' h) \<noteq> CONNECTION_STATE_OPEN))"

definition calm :: "net \<Rightarrow> net \<Rightarrow> bool" where
  "calm n n' \<longleftrightarrow>
     (\<forall>h. cn_protocol (n_conns n' h) = cn_protocol (n_conns n h)) \<and>
     (\<forall>h. cn_receivedFirst (n_conns n h) \<longrightarrow> cn_receivedFirst (n_conns n' h)) \<and>
     (\<forall>p. map_option pr_connection (n_protos n' p) = map_option pr_connection (n_protos n p)) \<and>
     (\<forall>p. count_list (events n') (ReleaseProtocol p) = count_list (events n) (ReleaseProtocol p)) \<and>
     (\<forall>cb \<in> set (events n'). cb \<in> set (events n) \<or> plain cb) \<and>
     (\<forall>h. cn_state (n_conns n' h) = CONNECTION_STATE_OPEN \<longrightarrow> cn_state (n_conns n h) = CONNECTION_STATE_OPEN) \<and>
     n_nextProto n' = n_nextProto n \<and> (\<exists>front rear. calm_tasks n n' front rear)"

lemma calm_trans:
  assumes "calm n n'" and "calm n' n''"
  shows "calm n n''"
proof -
  obtain f b f' b' where t: "calm_tasks n n' f b" "calm_tasks n' n'' f' b'" using assms by (auto simp: calm_def)
  have "calm_tasks n n'' (f' @ f) (b @ b')"
    using t assms unfolding calm_tasks_def calm_def by auto
  then have "\<exists>front rear. calm_tasks n n'' front rear" by blast
  moreover have "\<forall>cb \<in> set (events n''). cb \<in> set (events n) \<or> plain cb" using assms unfolding calm_def by blast
  ultimately show ?thesis using assms by (simp add: calm_def)
qed

text \<open>Only fields change that say nothing about owners.\<close>

lemma calm_frame:
  assumes "\<And>h. cn_protocol (n_conns n' h) = cn_protocol (n_conns n h)"
    and "\<And>h. cn_receivedFirst (n_conns n h) \<Longrightarrow> cn_receivedFirst (n_conns n' h)"
    and "\<And>h. cn_state (n_conns n' h) = CONNECTION_STATE_OPEN \<Longrightarrow> cn_state (n_conns n h) = CONNECTION_STATE_OPEN"
    and "\<And>p. map_option pr_connection (n_protos n' p) = map_option pr_connection (n_protos n p)"
    and "n_disp n' = n_disp n" and "n_sched n' = n_sched n" and "n_nextProto n' = n_nextProto n"
  shows "calm n n'"
proof -
  have "calm_tasks n n' [] []" using assms(5) by (simp add: calm_tasks_def tasks_def)
  then have "\<exists>front rear. calm_tasks n n' front rear" by blast
  then show ?thesis using assms by (simp add: calm_def events_def)
qed

lemma calm_refl [simp]: "calm n n"
  by (rule calm_frame) simp_all

lemma calm_task: "plain cb \<Longrightarrow> calm n (add_task cb front n)"
proof -
  assume p: "plain cb"
  have "calm_tasks n (add_task cb front n) (if front \<and> d_threadState (n_disp n) = STATE_RUNNING then [cb] else [])
      (if \<not> front \<and> d_threadState (n_disp n) = STATE_RUNNING then [cb] else [])"
    using p by (simp add: calm_tasks_def tasks_def add_task_def d_addTask_def createTask_def)
  then have "\<exists>f b. calm_tasks n (add_task cb front n) f b" by blast
  then show ?thesis by (simp add: calm_def add_task_def events_def)
qed

lemma count_push: "count_list (map tk_callback (push_event t ts)) x = count_list (map tk_callback ts) x + (if tk_callback t = x then 1 else 0)"
  by (induction ts) auto

lemma set_push: "set (push_event t ts) = insert t (set ts)"
  by (induction ts) auto

lemma set_events_add: "set (events (add_event d cb n)) \<subseteq> insert cb (set (events n))"
  by (auto simp: events_def add_event_def sc_addEvent_def createSchedulerTask_def createTaskExpiring_def set_push Let_def)

lemma events_add:
  "count_list (events (add_event d cb n)) x =
     count_list (events n) x + (if sc_threadState (n_sched n) = STATE_RUNNING \<and> cb = x then 1 else 0)"
  by (simp add: events_def add_event_def sc_addEvent_def createSchedulerTask_def createTaskExpiring_def count_push Let_def)

lemma calm_event: "plain cb \<Longrightarrow> calm n (add_event d cb n)"
proof -
  assume p: "plain cb"
  have "calm_tasks n (add_event d cb n) [] []" by (simp add: calm_tasks_def tasks_def add_event_def)
  then have "\<exists>f b. calm_tasks n (add_event d cb n) f b" by blast
  moreover have "cb \<noteq> ReleaseProtocol p" for p using p by auto
  moreover have "\<forall>x \<in> set (events (add_event d cb n)). x \<in> set (events n) \<or> plain x" using set_events_add [of d cb n] p by auto
  ultimately show ?thesis by (simp add: calm_def events_add) (simp add: add_event_def)
qed

lemma calm_close: "calm n (conn_close h n)"
proof (cases "cn_state (n_conns n h) = CONNECTION_STATE_OPEN")
  case False
  then have "conn_close h n = n" by (cases "cn_state (n_conns n h)") (simp_all add: conn_close_def)
  then show ?thesis by simp
next
  case True
  have "calm_tasks n (conn_close h n) [] (if d_threadState (n_disp n) = STATE_RUNNING then [CloseConnection h] else [])"
    using True by (simp add: calm_tasks_def tasks_def conn_close_def add_task_def d_addTask_def createTask_def upd_conn_def)
  then have "\<exists>f b. calm_tasks n (conn_close h n) f b" by blast
  then show ?thesis using True by (simp add: calm_def) (simp add: conn_close_def add_task_def events_def upd_conn_def)
qed

lemma calm_upd_conn:
  assumes "\<And>c. cn_protocol (f c) = cn_protocol c" and "\<And>c. cn_state (f c) = cn_state c"
    and "\<And>c. cn_receivedFirst c \<Longrightarrow> cn_receivedFirst (f c)"
  shows "calm n (upd_conn h f n)"
  using assms by (intro calm_frame) (auto simp: upd_conn_def split: if_splits)

lemma calm_upd_msg: "calm n (upd_msg m f n)"
  by (intro calm_frame) (auto simp: upd_msg_def)

lemma calm_upd_proto: "upd_proto p f n = Some n' \<Longrightarrow> (\<And>pr. pr_connection (f pr) = pr_connection pr) \<Longrightarrow> calm n n'"
  by (intro calm_frame) (auto simp: upd_proto_def)

lemma calm_releaseMessage: "calm n (pool_releaseMessage m n)"
  unfolding pool_releaseMessage_def by (rule calm_task) simp

lemma calm_releaseConnection: "calm n (conn_releaseConnection h n)"
  by (auto simp: conn_releaseConnection_def conn_deleteConnection_def calm_event intro: calm_frame)

lemma calm_accept: "calm n (conn_accept h n)"
  by (intro calm_frame) (auto simp: conn_accept_def Let_def upd_conn_def split: if_splits)

lemma calm_closeSocket: "conn_closeSocket h n = Some n' \<Longrightarrow> calm n n'"
  by (auto simp: conn_closeSocket_def split: if_splits intro!: calm_upd_conn)

lemma calm_onStop: "conn_onStop h n = Some n' \<Longrightarrow> calm n n'"
  by (intro calm_frame) (auto simp: conn_onStop_def Let_def upd_conn_def split: if_splits)

lemma calm_handleError: "calm n (conn_handleReadError err h n)" "calm n (conn_handleWriteError err h n)"
proof -
  have "calm n (if err = OperationAborted then n else conn_close h n)" by (simp add: calm_close)
  then show "calm n (conn_handleReadError err h n)" "calm n (conn_handleWriteError err h n)"
    unfolding conn_handleReadError_def conn_handleWriteError_def by (rule calm_trans, intro calm_upd_conn; simp)+
qed

lemma calm_timeout:
  "conn_handleReadTimeout err h n = Some n' \<Longrightarrow> calm n n'" "conn_handleWriteTimeout err h n = Some n' \<Longrightarrow> calm n n'"
  by (auto simp: conn_handleReadTimeout_def conn_handleWriteTimeout_def conn_onReadTimeout_def conn_onWriteTimeout_def
      split: if_splits intro: calm_trans [OF calm_closeSocket calm_close])

lemma calm_onWrite:
  assumes "conn_onWrite err h m n = Some n'"
  shows "calm n n'"
proof -
  define n1 where "n1 = pool_releaseMessage m (upd_conn h (\<lambda>c. c\<lparr>cn_writeTimer := False\<rparr>) n)"
  define n2 where "n2 = (if err \<noteq> NoError then conn_handleWriteError err h n1 else n1)"
  have "calm n n1" unfolding n1_def by (rule calm_trans [OF calm_upd_conn calm_releaseMessage]) simp_all
  moreover have "calm n1 n2" by (simp add: n2_def calm_handleError)
  ultimately have "calm n n2" by (rule calm_trans)
  moreover have "calm n2 n'"
    using assms by (auto simp: conn_onWrite_def n1_def n2_def Let_def split: if_splits
        intro: calm_trans [OF calm_closeSocket calm_close] intro!: calm_upd_conn)
  ultimately show ?thesis by (rule calm_trans)
qed

lemma calm_parseHeader:
  assumes "conn_parseHeader err bytes h n = Some n'"
  shows "calm n n'"
proof -
  obtain buf size msg where b: "mem_write (m_buffer (cn_msg (n_conns n h))) 0 bytes = Some buf"
    "msg_decodeHeader ((cn_msg (n_conns n h))\<lparr>m_buffer := buf\<rparr>) = Some (size, msg)"
    using assms by (auto simp: conn_parseHeader_def split: bind_splits)
  define n1 where "n1 = upd_conn h (\<lambda>c. c\<lparr>cn_readTimer := False, cn_msg := msg\<rparr>) n"
  define n2 where "n2 = (if err \<noteq> NoError \<or> size \<le> 0 \<or> size \<ge> int NETWORK_MAX_SIZE - 16 then conn_handleReadError err h n1 else n1)"
  define f where "f = (\<lambda>c :: connection. c\<lparr>cn_readTimer := True,
      cn_msg := msg_writeBuffer (msg_setSize (u16_of_int (size + int NETWORK_HEADER_SIZE)) (cn_msg c))\<rparr>)"
  have "n' = conn_close h n2 \<or> n' = (upd_conn h f n2)\<lparr>n_io := n_io (upd_conn h f n2) @ [ReadBody h (nat size)]\<rparr>"
    using assms b unfolding conn_parseHeader_def by (simp add: n1_def [symmetric] f_def [symmetric] Let_def split: if_split_asm) (auto simp: n2_def)
  moreover have "calm n2 ((upd_conn h f n2)\<lparr>n_io := x\<rparr>)" for x by (intro calm_frame) (auto simp: upd_conn_def f_def split: if_splits)
  ultimately have "calm n2 n'" using calm_close by auto
  moreover have "calm n n1" unfolding n1_def by (rule calm_upd_conn) simp_all
  moreover have "calm n1 n2" by (simp add: n2_def calm_handleError)
  ultimately show ?thesis using calm_trans by blast
qed

lemma onSendMessage_connection: "onSendMessage h p m = Some (p', m') \<Longrightarrow> pr_connection p' = pr_connection p"
  by (auto simp: onSendMessage_def split: if_splits bind_splits)

lemma calm_p_onSendMessage: "p_onSendMessage p m n = Some n' \<Longrightarrow> calm n n'"
  by (intro calm_frame) (auto simp: p_onSendMessage_def split: bind_splits dest: onSendMessage_connection)

lemma calm_internalSend: "conn_internalSend h m n = Some n' \<Longrightarrow> calm n n'"
  by (intro calm_frame) (auto simp: conn_internalSend_def Let_def upd_conn_def split: bind_splits if_splits)

lemma calm_autoSend: "calm n (pool_autoSend m n)"
  by (intro calm_frame) (simp_all add: pool_autoSend_def)

lemma calm_send: "conn_send cfg h m n = Some (b, n') \<Longrightarrow> calm n n'"
  by (auto simp: conn_send_def calm_close calm_autoSend split: if_splits bind_splits option.splits
      intro: calm_internalSend calm_trans [OF calm_p_onSendMessage calm_internalSend])

lemma calm_dropped: "pool_dropped m n = Some n' \<Longrightarrow> calm n n'"
  by (auto simp: pool_dropped_def calm_p_onSendMessage split: option.splits)

lemma calm_deliver: "pool_deliver cfg m n = Some n' \<Longrightarrow> calm n n'"
  by (auto simp: pool_deliver_def split: option.splits bind_splits if_splits intro: calm_send calm_trans [OF calm_send calm_dropped])

lemma calm_pool_send: "pool_send cfg m n = Some n' \<Longrightarrow> calm n n'"
  by (auto simp: pool_send_def calm_deliver split: if_splits)

lemma calm_end_of_scope: "calm n (end_of_scope m n0 n)"
  by (simp add: end_of_scope_def Let_def calm_releaseMessage)

lemma calm_queues: "calm n (n\<lparr>p_autoSend := q\<rparr>)" "calm n (n\<lparr>p_addQueue := q\<rparr>)"
  by (intro calm_frame; simp)+

lemma calm_requeue: "pool_requeue dropTime frameTime ms n = Some n' \<Longrightarrow> calm n n'"
proof (induction ms arbitrary: n)
  case (Cons m ms)
  define n0 where "n0 = upd_msg m (m_state_update (\<lambda>_. STATE_ALLOCATED)) n"
  obtain n1 where n1: "pool_requeue dropTime frameTime ms n1 = Some n'"
    and "(\<exists>q. n1 = n0\<lparr>p_autoSend := q\<rparr>) \<or> (\<exists>n2. pool_dropped m n = Some n2 \<and> n1 = pool_releaseMessage m n2)"
    using Cons.prems by (auto simp: Let_def n0_def split: if_splits bind_splits)
  then have "calm n n1"
    using calm_trans [OF calm_upd_msg calm_queues(1)] calm_trans [OF calm_dropped calm_releaseMessage] by (auto simp: n0_def)
  from calm_trans [OF this Cons.IH [OF n1]] show ?case .
qed simp

lemma calm_flush: "pool_flush cfg frameTime ms n = Some n' \<Longrightarrow> calm n n'"
proof (induction ms arbitrary: n)
  case (Cons m ms)
  show ?case
  proof (cases "frameTime \<le> m_frame (n_msgs n m)")
    case True
    then show ?thesis using Cons.prems calm_queues(1) by auto
  next
    case False
    then obtain n1 where n1: "pool_deliver cfg m n = Some n1" "pool_flush cfg frameTime ms (end_of_scope m n n1) = Some n'"
      using Cons.prems by (auto split: bind_splits)
    from calm_trans [OF calm_deliver [OF n1(1)] calm_trans [OF calm_end_of_scope Cons.IH [OF n1(2)]]] show ?thesis .
  qed
qed (auto simp: calm_queues)

lemma calm_sendAll:
  assumes "pool_sendAll cfg n = Some n'"
  shows "calm n n'"
proof -
  obtain n1 where n1: "pool_requeue (p_frameTime n - 10000) (p_frameTime n - 10) (p_addQueue n) n = Some n1"
    "pool_flush cfg (p_frameTime n - 10) (p_autoSend n1) (n1\<lparr>p_addQueue := []\<rparr>) = Some n'"
    using assms by (auto simp: pool_sendAll_def Let_def split: bind_splits)
  from calm_trans [OF calm_requeue [OF n1(1)] calm_trans [OF calm_queues(2) calm_flush [OF n1(2)]]] show ?thesis .
qed

lemma calm_configure: "pool_configureOutputMessage m p autoSend n = Some n' \<Longrightarrow> calm n n'"
  by (intro calm_frame)
    (auto simp: pool_configureOutputMessage_def Let_def upd_msg_def upd_conn_def upd_proto_def split: bind_splits if_splits option.splits)

lemma calm_get:
  assumes "pool_getOutputMessage p autoSend n = Some (r, n')"
  shows "calm n n'"
proof (cases "n' = n")
  case False
  define n0 where "n0 = (if p_free n = [] then n\<lparr>n_msgs := (n_msgs n)(n_nextMsg n := new_output_message), n_nextMsg := n_nextMsg n + 1,
      p_free := [n_nextMsg n]\<rparr> else n)"
  define n1 where "n1 = n0\<lparr>p_free := butlast (p_free n0)\<rparr>"
  have "pool_configureOutputMessage (last (p_free n0)) p autoSend n1 = Some n'"
    using assms False by (auto simp: pool_getOutputMessage_def Let_def n0_def n1_def split: if_splits bind_splits)
  moreover have "calm n n1" by (intro calm_frame) (auto simp: n1_def n0_def split: if_splits)
  ultimately show ?thesis using calm_trans calm_configure by blast
qed simp

lemma calm_internalRelease: "pool_internalReleaseMessage m n = Some n' \<Longrightarrow> calm n n'"
  by (intro calm_frame)
    (auto simp: pool_internalReleaseMessage_def Let_def upd_msg_def upd_conn_def upd_proto_def split: bind_splits if_splits option.splits)

lemma calm_send_fields: "send_fields cfg m content n = Some n' \<Longrightarrow> calm n n'"
  by (auto simp: send_fields_def Let_def split: bind_splits intro: calm_trans [OF calm_trans [OF calm_upd_msg calm_pool_send] calm_end_of_scope])

lemma calm_close_own: "close_own_connection p n = Some n' \<Longrightarrow> calm n n'"
  by (auto simp: close_own_connection_def calm_close split: bind_splits)

lemma calm_disconnectClient:
  assumes "disconnectClient cfg p error message n = Some n'"
  shows "calm n n'"
proof -
  obtain r n1 where n1: "pool_getOutputMessage p False n = Some (r, n1)" using assms by (auto simp: disconnectClient_def split: bind_splits)
  have "calm n1 n'"
  proof (cases r)
    case None
    then show ?thesis using assms n1 by (simp add: disconnectClient_def calm_close_own)
  next
    case (Some m)
    then obtain n2 where "send_fields cfg m [FU8 error, FStr (c_str message)] n1 = Some n2" "close_own_connection p n2 = Some n'"
      using assms n1 by (auto simp: disconnectClient_def split: bind_splits)
    then show ?thesis by (rule calm_trans [OF calm_send_fields calm_close_own])
  qed
  with calm_get [OF n1] show ?thesis by (rule calm_trans)
qed

lemma calm_delegate:
  assumes "delegate env H rnd p name password clientIp (n, cache, db) = Some (n', cache', db')"
  shows "calm n n'"
proof -
  obtain d cm c1 db1 where d: "delegate_decide env H name password clientIp (n_cm n) cache db = (d, cm, c1, db1)" by (metis prod_cases4)
  have cm: "calm n (n\<lparr>n_cm := cm\<rparr>)" by (intro calm_frame) simp_all
  have "calm (n\<lparr>n_cm := cm\<rparr>) n'"
  proof (cases d)
    case (Refuse message)
    then show ?thesis using assms d by (auto simp: delegate_def split: bind_splits intro: calm_disconnectClient)
  next
    case (Accept a)
    let ?n = "n\<lparr>n_cm := cm\<rparr>"
    obtain r n1 where n1: "pool_getOutputMessage p False ?n = Some (r, n1)" using assms d Accept by (auto simp: delegate_def split: bind_splits)
    have "calm n1 n'"
    proof (cases r)
      case None
      then show ?thesis using assms d Accept n1 by (auto simp: delegate_def split: bind_splits intro: calm_close_own)
    next
      case (Some m)
      then obtain content n2 where "send_fields (e_config env) m content n1 = Some n2" "close_own_connection p n2 = Some n'"
        using assms d Accept n1 by (auto simp: delegate_def split: bind_splits)
      then show ?thesis by (rule calm_trans [OF calm_send_fields calm_close_own])
    qed
    with calm_get [OF n1] show ?thesis by (rule calm_trans)
  qed
  with cm show ?thesis by (rule calm_trans)
qed

section \<open>Owners\<close>

text \<open>
  \<open>delegates_ok own closed cbs\<close>: every login task of the list belongs to a protocol of a connection that
  is neither in \<open>closed\<close> nor closed by an earlier task of the list.
\<close>

fun delegates_ok :: "(nat \<Rightarrow> nat option) \<Rightarrow> nat set \<Rightarrow> callback list \<Rightarrow> bool" where
  "delegates_ok own closed [] = True"
| "delegates_ok own closed (Delegate p name password clientIp version # cbs) =
     ((\<exists>h. own h = Some p \<and> h \<notin> closed) \<and> delegates_ok own closed cbs)"
| "delegates_ok own closed (CloseConnection h # cbs) = delegates_ok own (insert h closed) cbs"
| "delegates_ok own closed (_ # cbs) = delegates_ok own closed cbs"

definition closes :: "callback list \<Rightarrow> nat set" where
  "closes cbs = {h. CloseConnection h \<in> set cbs}"

lemma delegates_ok_append:
  "delegates_ok own closed (xs @ ys) \<longleftrightarrow> delegates_ok own closed xs \<and> delegates_ok own (closed \<union> closes xs) ys"
proof (induction own closed xs rule: delegates_ok.induct)
  case (3 own closed h cbs)
  have "closed \<union> closes (CloseConnection h # cbs) = insert h closed \<union> closes cbs" by (auto simp: closes_def)
  then show ?case using 3 by simp
qed (auto simp: closes_def)

lemma delegates_ok_plain: "\<forall>cb \<in> set cbs. plain cb \<or> (\<exists>h. cb = CloseConnection h) \<Longrightarrow> delegates_ok own closed cbs"
  by (induction own closed cbs rule: delegates_ok.induct) auto

lemma closes_plain: "\<forall>cb \<in> set cbs. plain cb \<Longrightarrow> closes cbs = {}"
  by (auto simp: closes_def)

lemma delegates_ok_weaken:
  "delegates_ok own closed cbs \<Longrightarrow> closed' \<subseteq> closed \<Longrightarrow> (\<And>h p. own h = Some p \<Longrightarrow> h \<notin> closed \<Longrightarrow> own' h = Some p) \<Longrightarrow>
     delegates_ok own' closed' cbs"
proof (induction own closed cbs arbitrary: closed' rule: delegates_ok.induct)
  case (3 own closed h cbs)
  have "delegates_ok own' (insert h closed') cbs" by (rule "3.IH") (use 3 in auto)
  then show ?case by simp
next
  case (2 own closed p name password clientIp version cbs)
  then obtain h where "own h = Some p" "h \<notin> closed" by auto
  then have "own' h = Some p" "h \<notin> closed'" using 2 by auto
  then show ?case using 2 by auto
qed auto

lemma delegates_ok_member:
  "delegates_ok own closed cbs \<Longrightarrow> Delegate p name password clientIp version \<in> set cbs \<Longrightarrow> \<exists>h. own h = Some p"
  by (induction own closed cbs rule: delegates_ok.induct) auto

text \<open>
  The invariant: a connection and its protocol point to each other; a pending release is the only
  one, for a protocol without a connection; no task closes an open connection; and the
  login tasks come before the tasks that close their connections.
\<close>

definition owner :: "net \<Rightarrow> nat \<Rightarrow> nat option" where
  "owner n h = cn_protocol (n_conns n h)"

definition releases :: "net \<Rightarrow> nat \<Rightarrow> nat" where
  "releases n p = count_list (tasks n) (ReleaseProtocol p) + count_list (events n) (ReleaseProtocol p)"

definition bound :: "net \<Rightarrow> nat \<Rightarrow> nat option option" where
  "bound n p = map_option pr_connection (n_protos n p)"

definition owned :: "net \<Rightarrow> bool" where
  "owned n \<longleftrightarrow>
     (\<forall>h p. owner n h = Some p \<longrightarrow> bound n p = Some (Some h)) \<and>
     (\<forall>p. releases n p \<le> 1) \<and> (\<forall>p. 0 < releases n p \<longrightarrow> bound n p = Some None) \<and>
     (\<forall>h. cn_state (n_conns n h) = CONNECTION_STATE_OPEN \<longrightarrow> h \<notin> closes (tasks n)) \<and>
     delegates_ok (owner n) {} (tasks n) \<and> (\<forall>cb \<in> set (events n). plain cb \<or> (\<exists>p. cb = ReleaseProtocol p)) \<and>
     (\<forall>p. n_nextProto n \<le> p \<longrightarrow> n_protos n p = None)"

lemma ownedD:
  assumes "owned n"
  shows "\<And>h p. owner n h = Some p \<Longrightarrow> bound n p = Some (Some h)" and "\<And>p. releases n p \<le> 1"
    and "\<And>p. 0 < releases n p \<Longrightarrow> bound n p = Some None"
    and "\<And>h. cn_state (n_conns n h) = CONNECTION_STATE_OPEN \<Longrightarrow> h \<notin> closes (tasks n)"
    and "delegates_ok (owner n) {} (tasks n)" and "\<And>cb. cb \<in> set (events n) \<Longrightarrow> plain cb \<or> (\<exists>p. cb = ReleaseProtocol p)"
    and "\<And>p. n_nextProto n \<le> p \<Longrightarrow> n_protos n p = None"
  using assms by (simp_all add: owned_def)

lemma ownedI:
  assumes "\<And>h p. owner n h = Some p \<Longrightarrow> bound n p = Some (Some h)" and "\<And>p. releases n p \<le> 1"
    and "\<And>p. 0 < releases n p \<Longrightarrow> bound n p = Some None"
    and "\<And>h. cn_state (n_conns n h) = CONNECTION_STATE_OPEN \<Longrightarrow> h \<notin> closes (tasks n)"
    and "delegates_ok (owner n) {} (tasks n)" and "\<And>cb. cb \<in> set (events n) \<Longrightarrow> plain cb \<or> (\<exists>p. cb = ReleaseProtocol p)"
    and "\<And>p. n_nextProto n \<le> p \<Longrightarrow> n_protos n p = None"
  shows "owned n"
  using assms by (simp add: owned_def)

lemma count_plain: "\<forall>cb \<in> set cbs. plain cb \<or> (\<exists>h. cb = CloseConnection h) \<Longrightarrow> count_list cbs (ReleaseProtocol p) = 0"
  by (induction cbs) auto

lemma calm_owned:
  assumes calm: "calm n n'" and inv: "owned n"
  shows "owned n'"
proof -
  obtain front rear where t: "calm_tasks n n' front rear" using calm by (auto simp: calm_def)
  then have tasks: "tasks n' = front @ tasks n @ rear" and front: "\<forall>cb \<in> set front. plain cb"
    and rear: "\<forall>cb \<in> set rear. plain cb \<or> (\<exists>h. cb = CloseConnection h)"
    and closed: "\<And>h. h \<in> closes rear \<Longrightarrow> cn_state (n_conns n' h) \<noteq> CONNECTION_STATE_OPEN"
    by (auto simp: calm_tasks_def closes_def)
  have own: "owner n' = owner n" using calm by (auto simp: calm_def owner_def)
  have conn: "bound n' p = bound n p" for p using calm by (simp add: calm_def bound_def)
  have "releases n' p = releases n p" for p
    using calm count_plain [of front p] count_plain [of rear p] front rear by (simp add: releases_def tasks calm_def)
  moreover have "delegates_ok (owner n') {} (tasks n')"
    using inv front rear by (simp add: tasks own delegates_ok_append closes_plain owned_def delegates_ok_plain)
  moreover have "h \<notin> closes (tasks n')" if "cn_state (n_conns n' h) = CONNECTION_STATE_OPEN" for h
  proof -
    have "cn_state (n_conns n h) = CONNECTION_STATE_OPEN" using that calm by (simp add: calm_def)
    then have "h \<notin> closes (tasks n)" using inv by (simp add: owned_def)
    moreover have "h \<notin> closes rear" using closed that by blast
    ultimately show ?thesis using closes_plain [OF front] by (auto simp: tasks closes_def)
  qed
  moreover have "\<forall>cb \<in> set (events n'). plain cb \<or> (\<exists>p. cb = ReleaseProtocol p)" using calm inv unfolding calm_def owned_def by blast
  moreover have "n_protos n' p = None" if "n_nextProto n' \<le> p" for p
  proof -
    have "n_protos n p = None" using that calm inv by (simp add: calm_def owned_def)
    then show ?thesis using conn [of p] by (simp add: bound_def)
  qed
  ultimately show ?thesis using inv conn own by (simp add: owned_def)
qed

section \<open>Operations that change owners\<close>

lemma delegates_ok_tail: "delegates_ok own {} (cb # cbs) \<Longrightarrow> delegates_ok own {} cbs"
  by (cases cb) (auto intro: delegates_ok_weaken)

text \<open>The state without its first task.\<close>

definition pop_task :: "net \<Rightarrow> net" where
  "pop_task n = n\<lparr>n_disp := (n_disp n)\<lparr>d_taskList := tl (d_taskList (n_disp n))\<rparr>\<rparr>"

lemma take_none: "d_take d = (None, d') \<Longrightarrow> d' = d"
  by (auto simp: d_take_def split: list.splits if_splits)

lemma take_pops:
  assumes "d_take (n_disp n) = (Some t, d)"
  shows "n\<lparr>n_disp := d\<rparr> = pop_task n" "tasks n = tk_callback t # tasks (pop_task n)"
  using assms by (auto simp: d_take_def pop_task_def tasks_def split: list.splits if_splits)

lemma tasks_pop: "tasks n = cb # cbs \<Longrightarrow> tasks (pop_task n) = cbs"
  by (auto simp: tasks_def pop_task_def)

lemma pop_sel [simp]:
  "n_conns (pop_task n) = n_conns n" "n_protos (pop_task n) = n_protos n" "events (pop_task n) = events n" "n_nextProto (pop_task n) = n_nextProto n"
  "owner (pop_task n) = owner n"
  by (auto simp: pop_task_def events_def owner_def)

lemma owned_pop:
  assumes "owned n" and "tasks n = cb # cbs"
  shows "owned (pop_task n)"
proof -
  have t: "tasks (pop_task n) = cbs" by (rule tasks_pop [OF assms(2)])
  have rel: "releases (pop_task n) p \<le> releases n p" for p by (simp add: releases_def t assms(2))
  have cl: "closes cbs \<subseteq> closes (tasks n)" by (auto simp: closes_def assms(2))
  have bnd: "bound (pop_task n) p = bound n p" for p by (simp add: bound_def)
  note inv = ownedD [OF assms(1)]
  show ?thesis
  proof (rule ownedI)
    show "releases (pop_task n) p \<le> 1" for p using le_trans [OF rel inv(2)] .
    show "bound (pop_task n) p = Some None" if "0 < releases (pop_task n) p" for p
      using that rel [of p] inv(3) [of p] bnd by simp
    show "h \<notin> closes (tasks (pop_task n))" if "cn_state (n_conns (pop_task n) h) = CONNECTION_STATE_OPEN" for h
      using that inv(4) [of h] cl by (auto simp: t)
    show "delegates_ok (owner (pop_task n)) {} (tasks (pop_task n))"
      using inv(5) delegates_ok_tail [of "owner n" cb cbs] by (simp add: t assms(2))
  qed (use inv(1,6,7) bnd in auto)
qed

text \<open>A protocol without an owner and without a pending release may be released.\<close>

lemma owned_release:
  assumes inv: "owned n" and p: "bound n p = Some None" "releases n p = 0"
    and run: "p_releaseProtocol p n = Some n'"
  shows "owned n'"
proof -
  obtain pr where pr: "n_protos n p = Some pr" "pr_connection pr = None" using p(1) by (auto simp: bound_def)
  note inv = ownedD [OF inv]
  have no_owner: "owner n h \<noteq> Some p" for h using inv(1) [of h p] p(1) by auto
  show ?thesis
  proof (cases "pr_refCount pr > 0")
    case True
    then have n': "n' = add_event SCHEDULER_MINTICKS (ReleaseProtocol p) n" using run pr by (simp add: p_releaseProtocol_def)
    have sel: "tasks n' = tasks n" "owner n' = owner n" "n_conns n' = n_conns n" "n_protos n' = n_protos n" "n_nextProto n' = n_nextProto n"
      by (simp_all add: n' add_event_def tasks_def owner_def fun_eq_iff)
    have rel: "releases n' q = releases n q + (if sc_threadState (n_sched n) = STATE_RUNNING \<and> q = p then 1 else 0)" for q
      using events_add [of SCHEDULER_MINTICKS "ReleaseProtocol p" n "ReleaseProtocol q"] by (simp add: releases_def n' [symmetric] sel)
    have bnd: "bound n' q = bound n q" for q by (simp add: bound_def sel)
    have ev: "cb = ReleaseProtocol p \<or> cb \<in> set (events n)" if "cb \<in> set (events n')" for cb
      using that set_events_add [of SCHEDULER_MINTICKS "ReleaseProtocol p" n] unfolding n' by blast
    show ?thesis
    proof (intro ownedI)
      show "plain cb \<or> (\<exists>p. cb = ReleaseProtocol p)" if "cb \<in> set (events n')" for cb using ev [OF that] inv(6) [of cb] by auto
      show "releases n' q \<le> 1" for q using inv(2) [of q] p(2) by (auto simp: rel)
      show "bound n' q = Some None" if "0 < releases n' q" for q using that inv(3) [of q] p(1) by (cases "q = p") (auto simp: rel bnd)
    qed (use inv(1,4,5,7) in \<open>auto simp: sel bnd\<close>)
  next
    case False
    then have n': "n' = n\<lparr>n_protos := (n_protos n)(p := None)\<rparr>" using run pr by (auto simp: p_releaseProtocol_def p_deleteProtocolTask_def)
    have sel: "tasks n' = tasks n" "owner n' = owner n" "n_conns n' = n_conns n" "events n' = events n" "n_nextProto n' = n_nextProto n"
      by (simp_all add: n' tasks_def owner_def events_def fun_eq_iff)
    have rel: "releases n' q = releases n q" for q by (simp add: releases_def sel)
    have protos: "n_protos n' q = (if q = p then None else n_protos n q)" for q by (simp add: n')
    then have bnd: "bound n' q = (if q = p then None else bound n q)" for q by (simp add: bound_def)
    show ?thesis
    proof (intro ownedI)
      show "bound n' q = Some None" if "0 < releases n' q" for q using that inv(3) [of q] p(2) by (cases "q = p") (auto simp: rel bnd)
      show "bound n' q = Some (Some h)" if "owner n' h = Some q" for h q
        using that inv(1) [of h q] no_owner [of h] by (cases "q = p") (auto simp: bnd sel)
    qed (use inv(2,4-7) in \<open>auto simp: sel rel protos\<close>)
  qed
qed

lemma release_upd_conn: "p_releaseProtocol p (upd_conn h f n) = map_option (upd_conn h f) (p_releaseProtocol p n)"
  by (cases "n_protos n p") (simp_all add: p_releaseProtocol_def upd_conn_def p_deleteProtocolTask_def add_event_def)

text \<open>A connection and its protocol let go of each other.\<close>

lemma owned_unbind:
  assumes inv: "owned n" and later: "delegates_ok (owner n) {h} (tasks n)" and p: "owner n h = Some p" and pr: "n_protos n p = Some pr"
    and n2: "n2 = upd_conn h (\<lambda>c. c\<lparr>cn_protocol := None\<rparr>) (n\<lparr>n_protos := (n_protos n)(p \<mapsto> pr\<lparr>pr_connection := None\<rparr>)\<rparr>)"
  shows "owned n2" "bound n2 p = Some None" "releases n2 p = 0"
proof -
  note d = ownedD [OF inv]
  have bp: "bound n p = Some (Some h)" by (rule d(1) [OF p])
  have sel: "tasks n2 = tasks n" "events n2 = events n" "owner n2 = (owner n)(h := None)" "n_nextProto n2 = n_nextProto n"
    "n_protos n2 = (n_protos n)(p \<mapsto> pr\<lparr>pr_connection := None\<rparr>)" "\<And>k. cn_state (n_conns n2 k) = cn_state (n_conns n k)"
    by (auto simp: n2 upd_conn_def tasks_def events_def owner_def fun_eq_iff)
  have rel: "releases n2 q = releases n q" for q by (simp add: releases_def sel)
  have only: "k = h" if "owner n k = Some p" for k using d(1) [OF that] bp by simp
  have dom: "\<not> n_nextProto n \<le> p" using d(7) [of p] pr by auto
  have bnd: "bound n2 q = (if q = p then Some None else bound n q)" for q by (simp add: bound_def sel)
  show "bound n2 p = Some None" by (simp add: bnd)
  show "releases n2 p = 0" using d(3) [of p] bp by (cases "releases n p") (auto simp: rel)
  have "delegates_ok ((owner n)(h := None)) {} (tasks n)" using later by (rule delegates_ok_weaken) auto
  then show "owned n2"
  proof (intro ownedI)
    show "bound n2 q = Some (Some k)" if "owner n2 k = Some q" for k q
    proof -
      have k: "k \<noteq> h" "owner n k = Some q" using that unfolding sel by (simp_all split: if_split_asm)
      then have "q \<noteq> p" using only [of k] by blast
      then show ?thesis using d(1) [OF k(2)] by (simp add: bnd)
    qed
    show "bound n2 q = Some None" if "0 < releases n2 q" for q using that d(3) [of q] by (auto simp: rel bnd)
    show "n_protos n2 q = None" if "n_nextProto n2 \<le> q" for q using that d(7) [of q] dom by (auto simp: sel)
  qed (use d(2,4,6) in \<open>auto simp: sel rel\<close>)
qed

lemma owned_closeConnection:
  assumes inv: "owned n" and later: "delegates_ok (owner n) {h} (tasks n)" and run: "conn_closeConnection h n = Some n'"
  shows "owned n'"
proof (cases "cn_state (n_conns n h) = CONNECTION_STATE_REQUEST_CLOSE")
  case True
  define part1 where "part1 = (case cn_protocol (n_conns n h) of
      None \<Rightarrow> Some n
    | Some p \<Rightarrow> do {
        n \<leftarrow> upd_proto p (\<lambda>pr. pr\<lparr>pr_connection := None\<rparr>) n;
        n \<leftarrow> p_releaseProtocol p n;
        Some (upd_conn h (\<lambda>c. c\<lparr>cn_protocol := None\<rparr>) n)
      })"
  obtain n1 where n1: "part1 = Some n1" using run True by (auto simp: conn_closeConnection_def part1_def split: bind_splits)
  have inv1: "owned n1"
  proof (cases "cn_protocol (n_conns n h)")
    case (Some p)
    then have p: "owner n h = Some p" by (simp add: owner_def)
    then obtain pr where pr: "n_protos n p = Some pr" using ownedD(1) [OF inv p] by (auto simp: bound_def)
    define n2 where "n2 = upd_conn h (\<lambda>c. c\<lparr>cn_protocol := None\<rparr>) (n\<lparr>n_protos := (n_protos n)(p \<mapsto> pr\<lparr>pr_connection := None\<rparr>)\<rparr>)"
    note unbound = owned_unbind [OF inv later p pr n2_def]
    have part1: "part1 = map_option (upd_conn h (\<lambda>c. c\<lparr>cn_protocol := None\<rparr>))
        (p_releaseProtocol p (n\<lparr>n_protos := (n_protos n)(p \<mapsto> pr\<lparr>pr_connection := None\<rparr>)\<rparr>))"
      unfolding part1_def Some by (simp add: upd_proto_def pr map_conv_bind_option comp_def)
    have released: "p_releaseProtocol p n2 = Some n1" unfolding n2_def release_upd_conn part1 [symmetric] by (rule n1)
    show ?thesis by (rule owned_release [OF unbound released])
  qed (use n1 inv in \<open>simp add: part1_def\<close>)
  define n4 where "n4 = upd_conn h (cn_state_update (\<lambda>_. CONNECTION_STATE_CLOSING)) n1"
  have "calm n1 n4" unfolding n4_def by (intro calm_frame) (auto simp: upd_conn_def split: if_splits)
  moreover consider "n' = n4" | n5 where "conn_closeSocket h n4 = Some n5"
      "n' = upd_conn h (cn_state_update (\<lambda>_. CONNECTION_STATE_CLOSED)) (conn_releaseConnection h n5)"
    using run True n1 by (auto simp: conn_closeConnection_def part1_def [symmetric] n4_def Let_def split: if_splits bind_splits)
  then have "calm n4 n'"
  proof cases
    case 2
    have "calm (conn_releaseConnection h n5) n'" unfolding 2(2) by (intro calm_frame) (auto simp: upd_conn_def split: if_splits)
    from calm_trans [OF calm_closeSocket [OF 2(1)] calm_trans [OF calm_releaseConnection this]] show ?thesis .
  qed simp
  ultimately have "calm n1 n'" by (rule calm_trans)
  then show ?thesis using inv1 by (rule calm_owned)
qed (use run inv in \<open>simp add: conn_closeConnection_def\<close>)

lemma owned_peer:
  assumes inv: "owned n" and h: "owner n h = None" "CloseConnection h \<notin> set (tasks n)"
  shows "owned (n\<lparr>n_conns := (n_conns n)(h := new_connection now ip), n_cm := cm\<rparr>)" (is "owned ?n")
proof -
  have sel: "tasks ?n = tasks n" "events ?n = events n" "n_protos ?n = n_protos n" "n_nextProto ?n = n_nextProto n"
    by (simp_all add: tasks_def events_def)
  have own: "owner ?n = owner n" using h(1) by (auto simp: owner_def fun_eq_iff new_connection_def)
  have rel: "releases ?n p = releases n p" "bound ?n p = bound n p" for p by (simp_all add: releases_def bound_def sel)
  show ?thesis
  proof (rule ownedI)
    show "k \<notin> closes (tasks ?n)" if "cn_state (n_conns ?n k) = CONNECTION_STATE_OPEN" for k
      using that ownedD(4) [OF inv, of k] h(2) by (cases "k = h") (simp_all add: sel closes_def)
  qed (use ownedD [OF inv] in \<open>simp_all add: sel own rel\<close>)
qed

text \<open>A connection without a protocol gets a new one.\<close>

lemma owned_new_protocol:
  assumes inv: "owned n" and h: "owner n h = None" and q: "q = n_nextProto n" and pr: "pr_connection pr = Some h"
    and f: "\<And>c. cn_state (f c) = cn_state c" "\<And>c. cn_protocol (f c) = Some q"
    and n': "n' = upd_conn h f (n\<lparr>n_protos := (n_protos n)(q \<mapsto> pr), n_nextProto := q + 1\<rparr>)"
  shows "owned n'"
proof -
  note d = ownedD [OF inv]
  have sel: "tasks n' = tasks n" "events n' = events n" "n_protos n' = (n_protos n)(q \<mapsto> pr)" "n_nextProto n' = q + 1"
    "\<And>k. cn_state (n_conns n' k) = cn_state (n_conns n k)" "owner n' = (owner n)(h := Some q)"
    by (auto simp: n' tasks_def events_def upd_conn_def f owner_def fun_eq_iff)
  have rel: "releases n' p = releases n p" for p by (simp add: releases_def sel)
  have none: "n_protos n q = None" using d(7) [of q] q by simp
  have bq: "bound n q = None" using none by (simp add: bound_def)
  have bnd: "bound n' p = (if p = q then Some (Some h) else bound n p)" for p by (simp add: bound_def sel pr)
  show ?thesis
  proof (rule ownedI)
    show "bound n' p = Some (Some k)" if "owner n' k = Some p" for k p
    proof (cases "k = h")
      case False
      then have "owner n k = Some p" using that by (simp add: sel)
      then have "bound n p = Some (Some k)" by (rule d(1))
      then show ?thesis using bq by (cases "p = q") (simp_all add: bnd)
    qed (use that in \<open>simp add: sel bnd\<close>)
    show "bound n' p = Some None" if "0 < releases n' p" for p
    proof -
      have "bound n p = Some None" using that by (intro d(3)) (simp add: rel)
      then show ?thesis using bq by (cases "p = q") (simp_all add: bnd)
    qed
    have "delegates_ok ((owner n)(h := Some q)) {} (tasks n)" using d(5) by (rule delegates_ok_weaken) (use h in auto)
    then show "delegates_ok (owner n') {} (tasks n')" by (simp only: sel)
    show "n_protos n' p = None" if "n_nextProto n' \<le> p" for p using that d(7) [of p] q by (simp add: sel)
    show "releases n' p \<le> 1" for p using d(2) [of p] by (simp only: rel)
    show "k \<notin> closes (tasks n')" if "cn_state (n_conns n' k) = CONNECTION_STATE_OPEN" for k using that d(4) [of k] by (simp add: sel)
    show "plain cb \<or> (\<exists>p. cb = ReleaseProtocol p)" if "cb \<in> set (events n')" for cb using that d(6) [of cb] by (simp only: sel)
  qed
qed

text \<open>A login task is queued while its connection is open, so behind it comes every task that closes it.\<close>

lemma owned_delegate:
  assumes inv: "owned n" and h: "owner n h = Some p" "cn_state (n_conns n h) = CONNECTION_STATE_OPEN"
  shows "owned (add_task (Delegate p name password clientIp version) False n)" (is "owned ?n")
proof -
  note d = ownedD [OF inv]
  have sel: "events ?n = events n" "n_protos ?n = n_protos n" "n_nextProto ?n = n_nextProto n" "n_conns ?n = n_conns n" "owner ?n = owner n"
    "tasks ?n = tasks n @ (if d_threadState (n_disp n) = STATE_RUNNING then [Delegate p name password clientIp version] else [])"
    by (auto simp: tasks_def events_def add_task_def d_addTask_def createTask_def owner_def)
  have rel: "releases ?n q = releases n q" "bound ?n q = bound n q" for q by (simp_all add: releases_def sel bound_def)
  have "closes (tasks ?n) = closes (tasks n)" by (auto simp: sel closes_def)
  moreover have "delegates_ok (owner ?n) {} (tasks ?n)"
    using d(5) h(1) d(4) [OF h(2)] by (auto simp: sel delegates_ok_append)
  ultimately show ?thesis
    by (intro ownedI) (use d in \<open>simp_all add: sel(1-5) rel\<close>)
qed

lemma schedule_event_steps:
  assumes "schedule_event n = Some n'"
  obtains (same) "events n' = events n" "tasks n' = tasks n"
    | (gone) cb cbs where "events n = cb # cbs" "events n' = cbs" "tasks n' = tasks n"
    | (moved) cb cbs where "events n = cb # cbs" "events n' = cbs" "tasks n' = cb # tasks n"
  using assms
  by (auto simp: schedule_event_def sc_take_def events_def tasks_def d_addTask_def unsetExpiration_def Let_def
      split: if_splits list.splits option.splits)

lemma owned_event:
  assumes inv: "owned n" and run: "schedule_event n = Some n'"
  shows "owned n'"
proof -
  note d = ownedD [OF inv]
  consider (same) "events n' = events n" "tasks n' = tasks n"
    | (gone) cb cbs where "events n = cb # cbs" "events n' = cbs" "tasks n' = tasks n"
    | (moved) cb cbs where "events n = cb # cbs" "events n' = cbs" "tasks n' = cb # tasks n"
    using run by (rule schedule_event_steps)
  moreover have sel: "n_protos n' = n_protos n" "n_nextProto n' = n_nextProto n" "n_conns n' = n_conns n" "owner n' = owner n"
    using run by (auto simp: schedule_event_def owner_def split: option.splits prod.splits bool.splits)
  ultimately have "(\<forall>p. releases n' p \<le> releases n p) \<and> closes (tasks n') = closes (tasks n) \<and>
      delegates_ok (owner n) {} (tasks n') \<and> set (events n') \<subseteq> set (events n)"
  proof cases
    case (moved cb cbs)
    have "plain cb \<or> (\<exists>p. cb = ReleaseProtocol p)" using d(6) [of cb] moved(1) by simp
    then have "closes (tasks n') = closes (tasks n)" "delegates_ok (owner n) {} (tasks n')"
      using d(5) by (cases cb; simp add: moved(3) closes_def)+
    then show ?thesis by (auto simp: releases_def moved)
  qed (use d(5) in \<open>auto simp: releases_def\<close>)
  then have rel: "releases n' p \<le> releases n p" "closes (tasks n') = closes (tasks n)"
    "delegates_ok (owner n) {} (tasks n')" "set (events n') \<subseteq> set (events n)" for p by simp_all
  have bnd: "bound n' p = bound n p" for p by (simp add: bound_def sel)
  show ?thesis
  proof (rule ownedI)
    show "releases n' p \<le> 1" for p using le_trans [OF rel(1) d(2)] .
    show "bound n' p = Some None" if "0 < releases n' p" for p using that rel(1) [of p] d(3) [of p] by (simp add: bnd)
    show "plain cb \<or> (\<exists>p. cb = ReleaseProtocol p)" if "cb \<in> set (events n')" for cb using that rel(4) d(6) [of cb] by blast
  qed (use d(1,4,7) rel(2,3) in \<open>auto simp: sel bnd\<close>)
qed

section \<open>Packets\<close>

lemma check_client_steps:
  assumes "check_client env fm p name password n = Some n'"
  shows "calm n n' \<or> (\<exists>name password clientIp version. n' = add_task (Delegate p name password clientIp version) False n)"
  using assms by (auto simp: check_client_def Let_def split: if_splits bind_splits intro: calm_disconnectClient) blast+

lemma upd_proto_exact: "upd_proto p f n = Some n' \<Longrightarrow> \<exists>pr. n_protos n p = Some pr \<and> n' = n\<lparr>n_protos := (n_protos n)(p \<mapsto> f pr)\<rparr>"
  by (auto simp: upd_proto_def)

text \<open>The first message: a calm operation, and perhaps the login task at the end.\<close>

lemma first_message_steps:
  assumes run: "onRecvFirstMessage env rsa p h n = Some n'"
  obtains (calm) "calm n n'"
    | (login) m name password clientIp version where "calm n m" "cn_state (n_conns m h) = cn_state (n_conns n h)"
        "n' = add_task (Delegate p name password clientIp version) False m"
proof -
  obtain fm m1 ok m2 where m: "read_signatures (cn_msg (n_conns n h)) = Some (fm, m1)" "RSA_decrypt rsa m1 = Some (ok, m2)"
    using run by (auto simp: onRecvFirstMessage_def split: bind_splits)
  define n1 where "n1 = upd_conn h (\<lambda>c. c\<lparr>cn_msg := m2\<rparr>) n"
  have calm1: "calm n n1" unfolding n1_def by (rule calm_upd_conn) simp_all
  show ?thesis
  proof (cases ok)
    case False
    then have "close_own_connection p n1 = Some n'" using run m by (simp add: onRecvFirstMessage_def n1_def Let_def)
    from calm_trans [OF calm1 calm_close_own [OF this]] show ?thesis by (rule that(1))
  next
    case True
    obtain key name password m3 where c: "read_credentials m2 = Some ((key, name, password), m3)"
      using run m True by (auto simp: onRecvFirstMessage_def Let_def split: bind_splits)
    define n2 where "n2 = upd_conn h (\<lambda>c. c\<lparr>cn_msg := m3\<rparr>) n1"
    obtain n3 where n3: "upd_proto p (\<lambda>pr. setXTEAKey key (pr\<lparr>m_encryptionEnabled := True\<rparr>)) n2 = Some n3"
      "check_client env fm p name password n3 = Some n'"
      using run m True c by (auto simp: onRecvFirstMessage_def n1_def n2_def Let_def split: bind_splits)
    have "calm n1 n2" unfolding n2_def by (rule calm_upd_conn) simp_all
    moreover have "calm n2 n3" by (rule calm_upd_proto [OF n3(1)]) (simp add: setXTEAKey_def)
    ultimately have calm3: "calm n n3" using calm1 calm_trans by blast
    have "cn_state (n_conns n3 h) = cn_state (n_conns n h)"
      using upd_proto_exact [OF n3(1)] by (auto simp: n2_def n1_def upd_conn_def)
    then show ?thesis using check_client_steps [OF n3(2)] that calm3 calm_trans by blast
  qed
qed

lemma owned_first_message:
  assumes inv: "owned n" and h: "owner n h = Some p" "cn_state (n_conns n h) = CONNECTION_STATE_OPEN"
    and run: "onRecvFirstMessage env rsa p h n = Some n'"
  shows "owned n'"
  using run
proof (cases rule: first_message_steps)
  case calm
  then show ?thesis using inv by (rule calm_owned)
next
  case (login m name password clientIp version)
  then have "owned m" "owner m h = Some p" using inv h(1) by (auto intro: calm_owned) (auto simp: calm_def owner_def)
  then show ?thesis using owned_delegate h(2) login(2,3) by simp
qed

text \<open>What \<open>makeProtocol\<close> leaves: a new protocol, numbered next, that is not bound yet.\<close>

lemma makeProtocol_new:
  assumes "msg_get False (cn_msg (n_conns n h)) = Some (i :: u8, msg)" and "find (serves i checksumEnabled) services = Some sv"
    and "q = n_nextProto n"
  obtains n' where "makeProtocol services checksumEnabled h n = Some (Some q, n')"
    "upd_proto q (\<lambda>pr. pr\<lparr>pr_connection := Some h\<rparr>) (upd_conn h (\<lambda>c. c\<lparr>cn_protocol := Some q\<rparr>) n') =
       Some (upd_conn h (\<lambda>c. c\<lparr>cn_msg := msg, cn_protocol := Some q\<rparr>)
          (n\<lparr>n_protos := (n_protos n)(q \<mapsto> (new_login_protocol None)\<lparr>pr_connection := Some h\<rparr>), n_nextProto := q + 1\<rparr>))"
proof -
  define n1 where "n1 = upd_conn h (\<lambda>c. c\<lparr>cn_msg := msg\<rparr>) n"
  have "n_nextProto n1 = q" by (simp add: n1_def upd_conn_def assms(3))
  then have "makeProtocol services checksumEnabled h n = Some (Some q, n1\<lparr>n_protos := (n_protos n1)(q \<mapsto> new_login_protocol None), n_nextProto := q + 1\<rparr>)"
    using assms by (simp add: makeProtocol_def service_makeProtocol_def n1_def [symmetric] Let_def)
  then show ?thesis by (rule that) (simp add: upd_proto_def upd_conn_def n1_def)
qed

text \<open>The connection with its new protocol.\<close>

definition new_bound :: "nat \<Rightarrow> network_message \<Rightarrow> net \<Rightarrow> net" where
  "new_bound h msg n =
     (let q = n_nextProto n
      in upd_conn h (\<lambda>c. c\<lparr>cn_msg := msg, cn_protocol := Some q\<rparr>)
          (n\<lparr>n_protos := (n_protos n)(q \<mapsto> (new_login_protocol None)\<lparr>pr_connection := Some h\<rparr>), n_nextProto := q + 1\<rparr>))"

text \<open>The first packet goes to the protocol the connection has, or to a new one, or to none.\<close>

lemma first_packet_steps:
  assumes run: "first_packet env rsa services checksumEnabled h n = Some (goes_on, n')"
  obtains (bound) p m where "owner n h = Some p" "calm n m" "cn_state (n_conns m h) = cn_state (n_conns n h)"
      "onRecvFirstMessage env rsa p h m = Some n'"
    | (none) "calm n n'"
    | (fresh) m msg where "owner n h = None" "calm n m" "cn_state (n_conns m h) = cn_state (n_conns n h)" "cn_receivedFirst (n_conns m h)"
      "onRecvFirstMessage env rsa (n_nextProto m) h (new_bound h msg m) = Some n'"
proof -
  define n0 where "n0 = upd_conn h (\<lambda>c. c\<lparr>cn_receivedFirst := True\<rparr>) n"
  have calm0: "calm n n0" unfolding n0_def by (rule calm_upd_conn) simp_all
  have sel: "cn_protocol (n_conns n0 h) = owner n h" "cn_state (n_conns n0 h) = cn_state (n_conns n h)" "cn_receivedFirst (n_conns n0 h)"
    by (simp_all add: n0_def upd_conn_def owner_def)
  show ?thesis
  proof (cases "owner n h")
    case (Some p)
    define n1 where "n1 = upd_conn h (\<lambda>c. c\<lparr>cn_msg := msg_skip 1 (cn_msg c)\<rparr>) n0"
    have "calm n0 n1" unfolding n1_def by (rule calm_upd_conn) simp_all
    moreover have "onRecvFirstMessage env rsa p h n1 = Some n'"
      using run Some sel(1) by (auto simp: first_packet_def n0_def [symmetric] n1_def Let_def)
    moreover have "cn_state (n_conns n1 h) = cn_state (n_conns n h)" by (simp add: n1_def upd_conn_def sel)
    ultimately show ?thesis using that(1) [of p n1] Some calm_trans [OF calm0] by blast
  next
    case None
    obtain i :: u8 and msg where msg: "msg_get False (cn_msg (n_conns n0 h)) = Some (i, msg)"
      using run None sel(1) by (auto simp: first_packet_def n0_def [symmetric] makeProtocol_def Let_def split: bind_splits)
    show ?thesis
    proof (cases "find (serves i checksumEnabled) services")
      case none: None
      define n1 where "n1 = upd_conn h (\<lambda>c. c\<lparr>cn_protocol := None\<rparr>) (upd_conn h (\<lambda>c. c\<lparr>cn_msg := msg\<rparr>) n0)"
      have "n' = conn_close h n1"
        using run None none msg sel(1) by (simp add: first_packet_def n0_def [symmetric] makeProtocol_def n1_def Let_def)
      moreover have "calm n0 n1" using None sel(1) by (intro calm_frame) (auto simp: n1_def upd_conn_def split: if_splits)
      ultimately show ?thesis using that(2) calm_trans [OF calm0 calm_trans [OF _ calm_close]] by blast
    next
      case (Some sv)
      obtain n3 where "makeProtocol services checksumEnabled h n0 = Some (Some (n_nextProto n0), n3)"
        "upd_proto (n_nextProto n0) (\<lambda>pr. pr\<lparr>pr_connection := Some h\<rparr>) (upd_conn h (\<lambda>c. c\<lparr>cn_protocol := Some (n_nextProto n0)\<rparr>) n3) =
           Some (new_bound h msg n0)"
        using makeProtocol_new [OF msg Some refl] unfolding new_bound_def Let_def by blast
      then have "onRecvFirstMessage env rsa (n_nextProto n0) h (new_bound h msg n0) = Some n'"
        using run None sel(1) unfolding first_packet_def n0_def [symmetric] Let_def by auto
      then show ?thesis using that(3) [OF None calm0 sel(2,3)] by blast
    qed
  qed
qed

lemma owned_new_bound: "owned n \<Longrightarrow> owner n h = None \<Longrightarrow> owned (new_bound h msg n)"
  unfolding new_bound_def Let_def by (rule owned_new_protocol) simp_all

lemma new_bound_conn [simp]:
  "owner (new_bound h msg n) h = Some (n_nextProto n)" "cn_state (n_conns (new_bound h msg n) k) = cn_state (n_conns n k)"
  "cn_receivedFirst (n_conns (new_bound h msg n) k) = cn_receivedFirst (n_conns n k)" "n_nextProto (new_bound h msg n) = n_nextProto n + 1"
  "tasks (new_bound h msg n) = tasks n" "owner (new_bound h msg n) = (owner n)(h := Some (n_nextProto n))" "events (new_bound h msg n) = events n"
  by (auto simp: new_bound_def Let_def upd_conn_def owner_def tasks_def events_def fun_eq_iff)

lemma owned_first_packet:
  assumes inv: "owned n" and open_h: "cn_state (n_conns n h) = CONNECTION_STATE_OPEN"
    and run: "first_packet env rsa services checksumEnabled h n = Some (goes_on, n')"
  shows "owned n'"
  using run
proof (cases rule: first_packet_steps)
  case (bound p m)
  then have "owned m" "owner m h = Some p" using inv by (auto intro: calm_owned) (auto simp: calm_def owner_def)
  then show ?thesis using owned_first_message bound(3,4) open_h by metis
next
  case none
  then show ?thesis using inv by (rule calm_owned)
next
  case (fresh m msg)
  then have "owned m" "owner m h = None" using inv by (auto intro: calm_owned) (auto simp: calm_def owner_def)
  then have "owned (new_bound h msg m)" by (rule owned_new_bound)
  then show ?thesis by (rule owned_first_message [OF _ _ _ fresh(5)]) (use fresh(3) open_h in simp_all)
qed

lemma count_packet_steps:
  assumes "count_packet env h n = (over, n')"
  shows "calm n n'" and "cn_state (n_conns n' h) = cn_state (n_conns n h)"
proof -
  have "\<exists>f. n' = upd_conn h f n \<and> (\<forall>c. cn_protocol (f c) = cn_protocol c \<and> cn_state (f c) = cn_state c \<and> cn_receivedFirst (f c) = cn_receivedFirst c)"
  proof -
    define f where "f = (\<lambda>c. c\<lparr>cn_packets := cn_packets c + 1\<rparr> :: connection)"
    define g where "g = (\<lambda>c. c\<lparr>cn_time := e_time env, cn_packets := 0\<rparr> :: connection)"
    have "n' = upd_conn h f n \<or> n' = upd_conn h g (upd_conn h f n)"
      using assms by (auto simp: count_packet_def f_def g_def Let_def split: if_splits)
    moreover have "upd_conn h g (upd_conn h f n) = upd_conn h (g \<circ> f) n" by (simp add: upd_conn_def)
    ultimately show ?thesis by (auto simp: f_def g_def)
  qed
  then obtain f where f: "n' = upd_conn h f n" "\<And>c. cn_protocol (f c) = cn_protocol c" "\<And>c. cn_state (f c) = cn_state c"
    "\<And>c. cn_receivedFirst (f c) = cn_receivedFirst c" by blast
  show "calm n n'" unfolding f(1) by (rule calm_upd_conn) (simp_all add: f)
  show "cn_state (n_conns n' h) = cn_state (n_conns n h)" by (simp add: f upd_conn_def)
qed

lemma handle_packet_steps:
  assumes run: "handle_packet env rsa services h n = Some n'"
  obtains (later) "calm n n'"
    | (first) m checksumEnabled goes_on n1 where "calm n m" "cn_state (n_conns m h) = cn_state (n_conns n h)" "\<not> cn_receivedFirst (n_conns m h)"
      "first_packet env rsa services checksumEnabled h m = Some (goes_on, n1)" "calm n1 n'"
proof -
  define n1 where "n1 = upd_conn h (\<lambda>c. c\<lparr>cn_pendingRead := cn_pendingRead c - 1\<rparr>) n"
  obtain checksumEnabled msg where msg: "packet_checksum (cn_msg (n_conns n1 h)) = Some (checksumEnabled, msg)"
    using run by (auto simp: handle_packet_def n1_def Let_def split: bind_splits)
  define n2 where "n2 = upd_conn h (\<lambda>c. c\<lparr>cn_msg := msg\<rparr>) n1"
  have "calm n n1" unfolding n1_def by (rule calm_upd_conn) simp_all
  moreover have "calm n1 n2" unfolding n2_def by (rule calm_upd_conn) simp_all
  ultimately have calm2: "calm n n2" by (rule calm_trans)
  have state: "cn_state (n_conns n2 h) = cn_state (n_conns n h)" by (simp add: n2_def n1_def upd_conn_def)
  define body where "body = (if \<not> cn_receivedFirst (n_conns n2 h) then first_packet env rsa services checksumEnabled h n2 else later_packet h n2)"
  have "handle_packet env rsa services h n = do {(goes_on, n) \<leftarrow> body; Some (if goes_on then conn_accept h n else n)}"
    using msg unfolding handle_packet_def body_def n2_def n1_def Let_def by simp
  then obtain goes_on n3 where n3: "body = Some (goes_on, n3)" "n' = (if goes_on then conn_accept h n3 else n3)"
    using run by (auto split: bind_splits)
  have calm3: "calm n3 n'" using n3(2) calm_accept by auto
  show ?thesis
  proof (cases "cn_receivedFirst (n_conns n2 h)")
    case True
    then have "later_packet h n2 = Some (goes_on, n3)" using n3(1) by (simp add: body_def)
    then have "calm n2 n3" by (auto simp: later_packet_def split: bind_splits intro!: calm_upd_conn)
    from that(1) [OF calm_trans [OF calm2 calm_trans [OF this calm3]]] show ?thesis .
  next
    case False
    then show ?thesis using that(2) [OF calm2 state False _ calm3] n3(1) by (simp add: body_def)
  qed
qed

lemma parsePacket_steps:
  assumes run: "conn_parsePacket env rsa services err bytes h n = Some n'"
  obtains (closed) "calm n n'"
    | (handled) m where "calm n m" "cn_state (n_conns m h) = CONNECTION_STATE_OPEN" "handle_packet env rsa services h m = Some n'"
proof -
  obtain buf where buf: "mem_write (m_buffer (cn_msg (n_conns n h))) NETWORK_HEADER_SIZE bytes = Some buf"
    using run by (auto simp: conn_parsePacket_def split: bind_splits)
  define n1 where "n1 = upd_conn h (\<lambda>c. c\<lparr>cn_readTimer := False, cn_msg := (cn_msg c)\<lparr>m_buffer := buf\<rparr>\<rparr>) n"
  define n2 where "n2 = (if err \<noteq> NoError then conn_handleReadError err h n1 else n1)"
  have "calm n n1" unfolding n1_def by (rule calm_upd_conn) simp_all
  moreover have "calm n1 n2" by (simp add: n2_def calm_handleError)
  ultimately have calm2: "calm n n2" by (rule calm_trans)
  obtain over n3 where n3: "count_packet env h n2 = (over, n3)" by (cases "count_packet env h n2")
  have calm3: "calm n n3" by (rule calm_trans [OF calm2 count_packet_steps(1) [OF n3]])
  have r: "(if cn_state (n_conns n2 h) \<noteq> CONNECTION_STATE_OPEN \<or> cn_readError (n_conns n2 h) then Some (conn_close h n2)
      else if over then Some (conn_close h n3) else handle_packet env rsa services h n3) = Some n'"
    using run unfolding conn_parsePacket_def buf bind.bind_lunit Let_def n1_def [symmetric] n2_def [symmetric] n3 prod.case .
  consider "n' = conn_close h n2" | "n' = conn_close h n3"
    | "cn_state (n_conns n2 h) = CONNECTION_STATE_OPEN" "handle_packet env rsa services h n3 = Some n'"
    using r by (metis option.inject)
  then show ?thesis
  proof cases
    case 3
    then show ?thesis using that(2) [OF calm3] count_packet_steps(2) [OF n3] by simp
  qed (use that(1) calm_trans [OF calm2 calm_close] calm_trans [OF calm3 calm_close] in auto)
qed

lemma owned_handle_packet:
  assumes inv: "owned n" and open_h: "cn_state (n_conns n h) = CONNECTION_STATE_OPEN" and run: "handle_packet env rsa services h n = Some n'"
  shows "owned n'"
  using run
proof (cases rule: handle_packet_steps)
  case later
  then show ?thesis using inv by (rule calm_owned)
next
  case (first m checksumEnabled goes_on n1)
  have "owned n1" by (rule owned_first_packet [OF calm_owned [OF first(1) inv] _ first(4)]) (simp add: first(2) open_h)
  with first(5) show ?thesis by (rule calm_owned)
qed

lemma owned_parsePacket:
  assumes inv: "owned n" and run: "conn_parsePacket env rsa services err bytes h n = Some n'"
  shows "owned n'"
  using run
proof (cases rule: parsePacket_steps)
  case closed
  then show ?thesis using inv by (rule calm_owned)
next
  case (handled m)
  then show ?thesis using owned_handle_packet calm_owned inv by blast
qed

section \<open>The login task and its protocol\<close>

lemma owned_run_task:
  assumes inv: "owned n" and cb: "tasks n = cb # cbs"
    and run: "run_task env H rnd cb (pool_startExecutionFrame (pop_task n), r) = Some (n', r')"
  shows "owned n'"
proof -
  define n1 where "n1 = pool_startExecutionFrame (pop_task n)"
  have "calm (pop_task n) n1" by (intro calm_frame) (simp_all add: n1_def pool_startExecutionFrame_def)
  then have inv1: "owned n1" using owned_pop [OF inv cb] by (rule calm_owned)
  have sel: "tasks n1 = cbs" "owner n1 = owner n" "bound n1 = bound n" "events n1 = events n"
    using tasks_pop [OF cb] by (auto simp: n1_def pool_startExecutionFrame_def tasks_def owner_def bound_def events_def pop_task_def fun_eq_iff)
  show ?thesis
  proof (cases cb)
    case (CloseConnection h)
    have "delegates_ok (owner n1) {h} (tasks n1)" using ownedD(5) [OF inv] by (simp add: cb CloseConnection sel)
    moreover have "conn_closeConnection h n1 = Some n'" using run by (auto simp: CloseConnection n1_def)
    ultimately show ?thesis by (rule owned_closeConnection [OF inv1])
  next
    case (ReleaseProtocol p)
    have one: "releases n p = 1" using ownedD(2) [OF inv, of p] by (simp add: releases_def cb ReleaseProtocol)
    then have "bound n1 p = Some None" using ownedD(3) [OF inv, of p] by (simp add: sel)
    moreover have "releases n1 p = 0" using one by (simp add: releases_def cb ReleaseProtocol sel)
    moreover have "p_releaseProtocol p n1 = Some n'" using run by (auto simp: ReleaseProtocol n1_def)
    ultimately show ?thesis by (rule owned_release [OF inv1])
  next
    case (Delegate p name password clientIp version)
    obtain cache db where "r = (cache, db)" by (cases r)
    moreover obtain cache' db' where "r' = (cache', db')" by (cases r')
    ultimately have "calm n1 n'" using run calm_delegate by (auto simp: Delegate n1_def)
    then show ?thesis using inv1 by (rule calm_owned)
  next
    case (InternalReleaseMessage m)
    then have "calm n1 n'" using run by (auto simp: n1_def intro: calm_internalRelease)
    then show ?thesis using inv1 by (rule calm_owned)
  next
    case (OnStop h)
    then have "calm n1 n'" using run by (auto simp: n1_def intro: calm_onStop)
    then show ?thesis using inv1 by (rule calm_owned)
  qed (use run inv1 calm_owned [OF calm_releaseConnection] calm_owned [OF calm_event] in \<open>auto simp: n1_def\<close>)
qed

lemma owned_dispatch:
  assumes inv: "owned n" and run: "dispatch_task now env H rnd (n, r) = Some (n', r')"
  shows "owned n'"
proof -
  obtain task d where td: "d_take (n_disp n) = (task, d)" by fastforce
  show ?thesis
  proof (cases task)
    case None
    then show ?thesis using run take_none [of "n_disp n" d] td inv by (auto simp: dispatch_task_def)
  next
    case (Some t)
    note pop = take_pops [OF td [unfolded Some]]
    show ?thesis
    proof (cases "hasExpired now t")
      case True
      then show ?thesis using run td owned_pop [OF inv pop(2)] by (auto simp: dispatch_task_def Some pop(1))
    next
      case False
      then obtain n1 r1 where "run_task env H rnd (tk_callback t) (pool_startExecutionFrame (pop_task n), r) = Some (n1, r1)"
        and n2: "pool_sendAll (e_config env) n1 = Some n'"
        using run td by (auto simp: dispatch_task_def Some pop(1) split: bind_splits)
      then have "owned n1" by (intro owned_run_task [OF inv pop(2)])
      then show ?thesis by (rule calm_owned [OF calm_sendAll [OF n2]])
    qed
  qed
qed

lemma owned_step: "login_step st st' \<Longrightarrow> owned (fst st) \<Longrightarrow> owned (fst st')"
proof (induction rule: login_step.induct)
  case (peer n h r cm now ip)
  then have "owned (n\<lparr>n_conns := (n_conns n)(h := new_connection now ip), n_cm := cm\<rparr>)" by (intro owned_peer) (simp_all add: owner_def)
  then show ?case using calm_owned [OF calm_accept] by simp
next
  case (posted n h rest n' r)
  have "calm n (n\<lparr>n_posted := rest\<rparr>)" by (intro calm_frame) simp_all
  from calm_trans [OF this calm_onStop [OF posted.hyps(2)]] show ?case using calm_owned posted.prems by simp
next
  case (reopen n r port ips)
  then show ?case using calm_owned [OF calm_event] by simp
next
  case (dispatch now env H rnd n r st)
  then show ?case using owned_dispatch [of n now env H rnd r "fst st" "snd st"] by simp
qed (auto intro: owned_parsePacket owned_event calm_owned calm_parseHeader calm_onWrite calm_timeout)

lemma owned_run: "login_step\<^sup>*\<^sup>* st st' \<Longrightarrow> owned (fst st) \<Longrightarrow> owned (fst st')"
  by (induction rule: rtranclp_induct) (auto intro: owned_step)

text \<open>The start of the server: no protocol yet, and nothing queued but tasks of other kinds.\<close>

lemma owned_start:
  assumes "n_protos n = Map.empty" and "\<And>h. cn_protocol (n_conns n h) = None"
    and "\<forall>cb \<in> set (tasks n). plain cb" and "\<forall>cb \<in> set (events n). plain cb"
  shows "owned n"
proof -
  have none: "count_list (tasks n) (ReleaseProtocol p) = 0" "count_list (events n) (ReleaseProtocol p) = 0" for p
    using count_plain [of "tasks n"] count_plain [of "events n"] assms(3,4) by simp_all
  have "delegates_ok (owner n) {} (tasks n)" using assms(3) by (intro delegates_ok_plain) blast
  moreover have "h \<notin> closes (tasks n)" for h using assms(3) by (auto simp: closes_def)
  ultimately show ?thesis using assms by (intro ownedI) (auto simp: none releases_def owner_def)
qed

text \<open>C10. The raw pointers of queued tasks are valid: in every state the server reaches, whatever the peers, timers and
  tasks do, every queued login task finds its protocol alive and bound to its connection, and every
  queued release of a protocol finds it alive, unbound, and is the only one.\<close>

theorem queued_tasks_find_their_protocol:
  assumes "login_step\<^sup>*\<^sup>* (n0, r0) (n, r)" and "owned n0"
  shows "(\<forall>p name password clientIp version. Delegate p name password clientIp version \<in> set (tasks n) \<longrightarrow>
       (\<exists>pr h. n_protos n p = Some pr \<and> pr_connection pr = Some h \<and> cn_protocol (n_conns n h) = Some p)) \<and>
     (\<forall>p. ReleaseProtocol p \<in> set (tasks n) \<longrightarrow>
       (\<exists>pr. n_protos n p = Some pr \<and> pr_connection pr = None) \<and> count_list (tasks n @ events n) (ReleaseProtocol p) = 1)"
proof -
  have inv: "owned n" using owned_run [OF assms(1)] assms(2) by simp
  note d = ownedD [OF inv]
  have "\<exists>pr h. n_protos n p = Some pr \<and> pr_connection pr = Some h \<and> cn_protocol (n_conns n h) = Some p"
    if del: "Delegate p name password clientIp version \<in> set (tasks n)" for p name password clientIp version
  proof -
    obtain h where h: "owner n h = Some p" using delegates_ok_member [OF d(5) del] by blast
    then show ?thesis using d(1) [OF h] by (auto simp: bound_def owner_def)
  qed
  moreover have "(\<exists>pr. n_protos n p = Some pr \<and> pr_connection pr = None) \<and> count_list (tasks n @ events n) (ReleaseProtocol p) = 1"
    if "ReleaseProtocol p \<in> set (tasks n)" for p
  proof -
    have "0 < releases n p" using that count_list_0_iff [of "tasks n" "ReleaseProtocol p"] by (simp add: releases_def)
    then show ?thesis using d(3) [of p] d(2) [of p] by (auto simp: releases_def bound_def)
  qed
  ultimately show ?thesis by blast
qed

definition queued_net :: net where
  "queued_net = add_task (Delegate 2 ''10'' ''secret'' 1 860) False
     (upd_conn 4 (\<lambda>c. c\<lparr>cn_protocol := Some 2\<rparr>) (demo_net\<lparr>n_protos := [2 \<mapsto> new_login_protocol (Some 4)], n_nextProto := 3\<rparr>))"

lemma queued_net_owned: "owned queued_net"
proof -
  define n where "n = upd_conn 4 (\<lambda>c. c\<lparr>cn_protocol := Some 2\<rparr>) (demo_net\<lparr>n_protos := [2 \<mapsto> new_login_protocol (Some 4)], n_nextProto := 3\<rparr>)"
  have sel: "tasks n = []" "events n = []" "owner n = (\<lambda>h. if h = 4 then Some 2 else None)"
    "n_protos n = [2 \<mapsto> new_login_protocol (Some 4)]" "n_nextProto n = 3"
    by (auto simp: n_def tasks_def events_def owner_def upd_conn_def demo_net_def new_dispatcher_def new_scheduler_def new_connection_def fun_eq_iff)
  have "owned n"
    by (rule ownedI) (auto simp: sel releases_def closes_def bound_def new_login_protocol_def new_protocol_def split: if_splits)
  then show ?thesis unfolding queued_net_def n_def [symmetric]
    by (rule owned_delegate [of n 4]) (simp_all add: sel, simp add: n_def upd_conn_def demo_net_def new_connection_def)
qed

theorem queued_tasks_find_their_protocol_witness:
  "\<exists>pr h. n_protos (conn_close 4 queued_net) 2 = Some pr \<and> pr_connection pr = Some h \<and> cn_protocol (n_conns (conn_close 4 queued_net) h) = Some 2"
proof -
  let ?n = "conn_close 4 queued_net"
  have "tasks ?n = [Delegate 2 ''10'' ''secret'' 1 860, CloseConnection 4]"
    by (simp add: tasks_def queued_net_def conn_close_def add_task_def upd_conn_def demo_net_def new_dispatcher_def d_addTask_def createTask_def new_connection_def)
  moreover have "owned ?n" by (rule calm_owned [OF calm_close queued_net_owned])
  ultimately show ?thesis
    using queued_tasks_find_their_protocol [where ?n0.0 = ?n and n = ?n and ?r0.0 = "(Map.empty, login_db)" and r = "(Map.empty, login_db)"] by auto
qed

end
