(* ===== verification/Login_Client.thy ===== *)
theory Login_Client
  imports Login_System Server
begin

text \<open>
  The client's side of a login, and the way of its request through the server, from the bytes it sends to the task
  that answers it: \<open>parseHeader\<close>, \<open>parsePacket\<close>, \<open>makeProtocol\<close> and \<open>onRecvFirstMessage\<close> put together. The
  client is the other party of the wire format; RSA is a cipher text of the client and the function
  that the server calls on it.
\<close>

section \<open>Reading the answer\<close>

text \<open>
  The other end of the wire, written with the receiving operations of the code: the frame in a
  message buffer, the checksum, the decryption, then the fields.
\<close>

definition client_message :: "u8 list \<Rightarrow> network_message" where
  "client_message frame = \<lparr>m_size = of_nat (length frame), m_position = 2, m_buffer = frame @ replicate (16384 - length frame) 0\<rparr>"

definition client_reads :: "xtea_key \<Rightarrow> msg_field list \<Rightarrow> u8 list \<Rightarrow> msg_field list option" where
  "client_reads key shape frame = do {
     (checked, m) \<leftarrow> packet_checksum (client_message frame);
     (valid, m) \<leftarrow> XTEA_decrypt key m;
     (fs, m) \<leftarrow> get_fields shape m;
     if checked \<and> valid then Some fs else None
   }"

lemma client_message_size:
  "length frame < 65536 \<Longrightarrow> unat (m_size (client_message frame)) = length frame"
  by (simp add: client_message_def unat_of_nat take_bit_nat_eq_self)

lemma outer_frame_checked:
  assumes "0 < length c" and "length c + 6 < 16384"
  shows "packet_checksum (client_message (outer_frame c)) = Some (True, (client_message (outer_frame c))\<lparr>m_position := 6\<rparr>)"
proof -
  define m where "m = client_message (outer_frame c)"
  have len: "length (outer_frame c) = length c + 6" by (simp add: outer_frame_def)
  have m: "unat (m_position m) = 2" "unat (m_size m) = 2 + 4 + length c" "length (m_buffer m) = 16384"
    using assms client_message_size [of "outer_frame c"] by (simp_all add: m_def len) (simp_all add: client_message_def len)
  have ahead: "msg_ahead m = le_encode 4 (adlerChecksum c (length c)) @ c @ replicate (16384 - (length c + 6)) 0"
    by (simp add: msg_ahead_def m_def client_message_def outer_frame_def)
  have "msg_wf m" using m by (simp add: msg_wf_def layout)
  from packet_checksum_value [OF this ahead] have "packet_checksum m = Some (True, msg_skip 4 m)"
    using assms m by simp
  moreover have "msg_skip 4 m = m\<lparr>m_position := 6\<rparr>" by (simp add: msg_skip_def m_def client_message_def u16_of_int_def)
  ultimately show ?thesis by (simp add: m_def)
qed

lemma client_reads_frame:
  assumes pr: "\<not> m_rawMessages pr" "m_checksumEnabled pr" "m_encryptionEnabled pr"
    and fs: "\<forall>f \<in> set fs. field_ok f" "length (fields_bytes fs) + 15 < NETWORK_BODY_SIZE"
  shows "client_reads (m_key pr) fs (wire_frame pr (fields_bytes fs)) = Some fs"
proof -
  define body where "body = fields_bytes fs"
  define c where "c = cipher_frame pr body"
  define m where "m = (client_message (outer_frame c))\<lparr>m_position := 6\<rparr>"
  have frame: "wire_frame pr body = outer_frame c" using pr by (simp add: wire_frame_def c_def)
  have len: "length c = length body + 2 + pad_length (length body + 2)" using pr(3) by (simp add: c_def length_cipher_frame)
  then have small: "0 < length c" "length c + 6 < 16384" using fs(2) pad_length_less [of "length body + 2"] by (simp_all add: body_def layout)
  have buf: "length (m_buffer m) = NETWORK_MAX_SIZE" and "m_position m = 6" "unat (m_size m) = 6 + length c" "6 + length c \<le> NETWORK_MAX_SIZE"
    "mem_read (m_buffer m) 6 (length c) = Some c"
    using small client_message_size [of "outer_frame c"]
    by (simp_all add: m_def outer_frame_def layout) (simp_all add: client_message_def mem_read_def)
  then obtain m' where m': "XTEA_decrypt (m_key pr) m = Some (True, m')" "m_position m' = 8" "mem_read (m_buffer m') 8 (length body) = Some body"
    "length (m_buffer m') = NETWORK_MAX_SIZE"
    using XTEA_decrypt_frame [of m pr body] pr(3) by (auto simp: c_def)
  have wf: "msg_wf m'" using m'(2,4) by (simp add: msg_wf_def layout)
  have "take (length body) (drop 8 (m_buffer m')) = body" using m'(3) by (simp add: mem_read_def split: if_splits)
  then have "drop 8 (m_buffer m') = body @ drop (length body) (drop 8 (m_buffer m'))" by (metis append_take_drop_id)
  moreover have "unat (m_position m') = 8" using m'(2) by simp
  ultimately have "msg_ahead m' = body @ drop (8 + length body) (m_buffer m')" by (simp add: msg_ahead_def add.commute)
  then have "get_fields fs m' = Some (fs, m'\<lparr>m_position := m_position m' + of_nat (length (fields_bytes fs))\<rparr>)"
    using wf fs small len by (intro get_fields_ahead [where rest = "drop (8 + length body) (m_buffer m')"]) (simp_all add: body_def layout)
  then show ?thesis
    using m' outer_frame_checked [OF small] by (simp add: client_reads_def frame [unfolded body_def] m_def)
qed

section \<open>The request of a client\<close>

record login_request =
  lr_platform :: u16
  lr_version :: u16
  lr_dat :: u32
  lr_spr :: u32
  lr_pic :: u32
  lr_key :: "u32 list"
  lr_name :: string
  lr_password :: string

text \<open>The part that is encrypted with RSA, filled up to 128 bytes, and the part in front of it.\<close>

definition request_fields :: "login_request \<Rightarrow> msg_field list" where
  "request_fields r = map FU32 (lr_key r) @ [FStr (lr_name r), FStr (lr_password r)]"

definition request_block :: "login_request \<Rightarrow> u8 list \<Rightarrow> u8 list" where
  "request_block r fill = 0 # fields_bytes (request_fields r) @ fill"

definition request_head :: "login_request \<Rightarrow> u8 list" where
  "request_head r = fields_bytes [FU8 1, FU16 (lr_platform r), FU16 (lr_version r), FU32 (lr_dat r), FU32 (lr_spr r), FU32 (lr_pic r)]"

definition request_frame :: "login_request \<Rightarrow> u8 list \<Rightarrow> u8 list" where
  "request_frame r cipher = outer_frame (request_head r @ cipher)"

text \<open>A request that the server may accept: its fields fit into the block and the client is up to date.\<close>

definition request_ok :: "login_request \<Rightarrow> u8 list \<Rightarrow> bool" where
  "request_ok r fill \<longleftrightarrow>
     length (lr_key r) = 4 \<and> length (request_block r fill) = 128 \<and> \<not> version_refused (lr_version r) \<and>
     CLIENT_VERSION_SPR \<le> lr_spr r \<and> CLIENT_VERSION_DAT \<le> lr_dat r \<and> CLIENT_VERSION_PIC \<le> lr_pic r"

section \<open>Reading field after field\<close>

lemma get_next:
  assumes wf: "msg_wf m" and ahead: "msg_ahead m = le_encode (sizeof TYPE('a)) (v :: 'a::len word) @ rest"
    and size: "LENGTH('a) \<le> 8 * sizeof TYPE('a)" and rest: "rest \<noteq> []"
  obtains m' where "msg_get False m = Some (v, m')" "msg_wf m'" "msg_ahead m' = rest" "m_size m' = m_size m"
    "m_buffer m' = m_buffer m" "unat (m_position m') = unat (m_position m) + sizeof TYPE('a)"
proof -
  have room: "unat (m_position m) + sizeof TYPE('a) < 16384" using ahead_room [OF wf ahead rest] by simp
  show ?thesis
    by (rule that [OF msg_get_ahead [OF wf ahead size rest, of False, simplified]])
      (use room msg_wf_advance [OF wf] msg_ahead_advance [OF ahead] in \<open>simp_all add: unat_u16_add\<close>)
qed

lemma getString_next:
  assumes wf: "msg_wf m" and ahead: "msg_ahead m = string_field s True @ rest" and rest: "rest \<noteq> []"
  obtains m' where "msg_getString False 0 m = Some (s, m')" "msg_wf m'" "msg_ahead m' = rest"
proof -
  have room: "unat (m_position m) + (length s + 2) < 16384" using ahead_room [OF wf ahead rest] by simp
  then have "msg_getString False 0 m = Some (s, m\<lparr>m_position := m_position m + of_nat (length s + 2)\<rparr>)"
    by (intro msg_getString_ahead [OF wf ahead _ rest]) simp
  then show ?thesis
    by (rule that) (use room msg_wf_advance [OF wf, of "length s + 2"] msg_ahead_advance [OF ahead] in simp_all)
qed

lemma read_signatures_request:
  assumes wf: "msg_wf m" and rest: "rest \<noteq> []"
    and ahead: "msg_ahead m = fields_bytes [FU16 platform, FU16 version, FU32 dat, FU32 spr, FU32 pic] @ rest"
  obtains m' where "read_signatures m = Some (\<lparr>fm_version = version, fm_dat = dat, fm_spr = spr, fm_pic = pic\<rparr>, m')"
    "msg_wf m'" "msg_ahead m' = rest" "m_size m' = m_size m" "m_buffer m' = m_buffer m" "unat (m_position m') = unat (m_position m) + 16"
proof -
  have a0: "msg_ahead m = le_encode 2 platform @ le_encode 2 version @ le_encode 4 dat @ le_encode 4 spr @ le_encode 4 pic @ rest"
    using ahead by (simp add: fields_bytes_def)
  have room: "unat (m_position m) + 2 < 16384" using ahead_room [OF wf, of "le_encode 2 platform"] a0 rest by simp
  define m0 where "m0 = msg_skip 2 m"
  have m0: "m0 = m\<lparr>m_position := m_position m + 2\<rparr>" by (simp add: m0_def msg_skip_def u16_of_int_def)
  have wf0: "msg_wf m0" "unat (m_position m0) = unat (m_position m) + 2"
    using msg_wf_advance [OF wf, of 2] unat_u16_add [of "m_position m" 2] room by (simp_all add: m0)
  have ahead0: "msg_ahead m0 = le_encode (sizeof TYPE(16)) version @ le_encode 4 dat @ le_encode 4 spr @ le_encode 4 pic @ rest"
    using msg_ahead_advance [OF a0] room by (simp add: m0)
  obtain m1 where 1: "msg_get False m0 = Some (version, m1)" "msg_wf m1"
    "msg_ahead m1 = le_encode (sizeof TYPE(32)) dat @ le_encode 4 spr @ le_encode 4 pic @ rest"
    "m_size m1 = m_size m0" "m_buffer m1 = m_buffer m0" "unat (m_position m1) = unat (m_position m0) + 2"
    using get_next [OF wf0(1) ahead0] rest by auto
  obtain m2 where 2: "msg_get False m1 = Some (dat, m2)" "msg_wf m2" "msg_ahead m2 = le_encode (sizeof TYPE(32)) spr @ le_encode 4 pic @ rest"
    "m_size m2 = m_size m1" "m_buffer m2 = m_buffer m1" "unat (m_position m2) = unat (m_position m1) + 4"
    using get_next [OF 1(2,3)] rest by auto
  obtain m3 where 3: "msg_get False m2 = Some (spr, m3)" "msg_wf m3" "msg_ahead m3 = le_encode (sizeof TYPE(32)) pic @ rest"
    "m_size m3 = m_size m2" "m_buffer m3 = m_buffer m2" "unat (m_position m3) = unat (m_position m2) + 4"
    using get_next [OF 2(2,3)] rest by auto
  obtain m4 where 4: "msg_get False m3 = Some (pic, m4)" "msg_wf m4" "msg_ahead m4 = rest"
    "m_size m4 = m_size m3" "m_buffer m4 = m_buffer m3" "unat (m_position m4) = unat (m_position m3) + 4"
    using get_next [OF 3(2,3)] rest by auto
  have "read_signatures m = Some (\<lparr>fm_version = version, fm_dat = dat, fm_spr = spr, fm_pic = pic\<rparr>, m4)"
    using 1(1) 2(1) 3(1) 4(1) by (simp add: read_signatures_def m0_def [symmetric])
  then show ?thesis by (rule that [of m4]) (use 1 2 3 4 wf0(2) in \<open>simp_all add: m0\<close>)
qed

lemma read_credentials_request:
  assumes wf: "msg_wf m" and ahead: "msg_ahead m = fields_bytes (request_fields r) @ rest" and rest: "rest \<noteq> []" and key: "length (lr_key r) = 4"
  obtains m' where "read_credentials m = Some ((lr_key r, lr_name r, lr_password r), m')" "msg_wf m'"
proof -
  obtain a b c d where k: "lr_key r = [a, b, c, d]" using key by (auto simp: length_Suc_conv numeral_eq_Suc)
  have a0: "msg_ahead m = le_encode (sizeof TYPE(32)) a @ le_encode 4 b @ le_encode 4 c @ le_encode 4 d @
      string_field (lr_name r) True @ string_field (lr_password r) True @ rest"
    using ahead by (simp add: request_fields_def fields_bytes_def k)
  obtain m1 where 1: "msg_get False m = Some (a, m1)" "msg_wf m1" "msg_ahead m1 = le_encode (sizeof TYPE(32)) b @ le_encode 4 c @ le_encode 4 d @
      string_field (lr_name r) True @ string_field (lr_password r) True @ rest" using get_next [OF wf a0] rest by auto
  obtain m2 where 2: "msg_get False m1 = Some (b, m2)" "msg_wf m2" "msg_ahead m2 = le_encode (sizeof TYPE(32)) c @ le_encode 4 d @
      string_field (lr_name r) True @ string_field (lr_password r) True @ rest" using get_next [OF 1(2,3)] rest by auto
  obtain m3 where 3: "msg_get False m2 = Some (c, m3)" "msg_wf m3" "msg_ahead m3 = le_encode (sizeof TYPE(32)) d @
      string_field (lr_name r) True @ string_field (lr_password r) True @ rest" using get_next [OF 2(2,3)] rest by auto
  obtain m4 where 4: "msg_get False m3 = Some (d, m4)" "msg_wf m4"
      "msg_ahead m4 = string_field (lr_name r) True @ string_field (lr_password r) True @ rest" using get_next [OF 3(2,3)] rest by auto
  obtain m5 where 5: "msg_getString False 0 m4 = Some (lr_name r, m5)" "msg_wf m5" "msg_ahead m5 = string_field (lr_password r) True @ rest"
    using getString_next [OF 4(2,3)] rest by auto
  obtain m6 where 6: "msg_getString False 0 m5 = Some (lr_password r, m6)" "msg_wf m6" using getString_next [OF 5(2,3) rest] by auto
  show ?thesis by (rule that [OF _ 6(2)]) (use 1(1) 2(1) 3(1) 4(1) 5(1) 6(1) in \<open>simp add: read_credentials_def k\<close>)
qed

section \<open>The first message\<close>

definition task_name :: "login_request \<Rightarrow> string" where
  "task_name r = (if lr_name r = [] then ''10'' else lr_name r)"

text \<open>The protocol after the request: it encrypts with the key of the client.\<close>

definition keyed :: "login_request \<Rightarrow> protocol \<Rightarrow> protocol" where
  "keyed r pr = setXTEAKey (lr_key r) (pr\<lparr>m_encryptionEnabled := True\<rparr>)"

lemma RSA_decrypt_request:
  assumes wf: "msg_wf m" and ahead: "msg_ahead m = cipher @ rest" and cipher: "length cipher = 128"
    and size: "unat (m_size m) = unat (m_position m) + 128" "unat (m_size m) \<le> NETWORK_MAX_SIZE"
    and rsa: "\<And>bs to. rsa bs = Some to \<Longrightarrow> length to = 128" "rsa cipher = Some (0 # block)"
  obtains m' where "RSA_decrypt rsa m = Some (True, m')" "msg_wf m'" "msg_ahead m' = block @ drop 128 (m_buffer m)"
proof -
  have buf: "length (m_buffer m) = NETWORK_MAX_SIZE" using wf by (simp add: msg_wf_def)
  have "take 128 (drop (unat (m_position m)) (m_buffer m)) = cipher" using ahead cipher by (simp add: msg_ahead_def)
  with RSA_decrypt_value [OF buf size(2) rsa(1)] size(1) rsa(2)
  have "RSA_decrypt rsa m = Some (True, m\<lparr>m_buffer := 0 # block @ drop 128 (m_buffer m), m_position := 1\<rparr>)" by simp
  moreover have "length block = 127" using rsa(1) [OF rsa(2)] by simp
  ultimately show ?thesis using buf by (intro that [of "m\<lparr>m_buffer := 0 # block @ drop 128 (m_buffer m), m_position := 1\<rparr>"]) (auto simp: msg_wf_def msg_ahead_def layout)
qed

lemma first_message_request:
  fixes n :: net and h :: nat
  defines "msg \<equiv> cn_msg (n_conns n h)"
  assumes wf: "msg_wf msg" and size: "unat (m_size msg) = unat (m_position msg) + 144" "unat (m_size msg) \<le> NETWORK_MAX_SIZE"
    and ahead: "msg_ahead msg = fields_bytes [FU16 (lr_platform r), FU16 (lr_version r), FU32 (lr_dat r), FU32 (lr_spr r), FU32 (lr_pic r)] @ cipher @ rest"
    and cipher: "length cipher = 128" "rsa cipher = Some (request_block r fill)" "request_ok r fill"
    and rsa: "\<And>bs to. rsa bs = Some to \<Longrightarrow> length to = 128"
    and proto: "n_protos n p = Some pr" "pr_connection pr = Some h"
    and enabled: "\<not> isDisabled (e_config env) (e_time env) (conn_getIP (n_conns n h)) protocolId (n_cm n)"
  obtains msg' where "onRecvFirstMessage env rsa p h n =
     Some (add_task (Delegate p (task_name r) (lr_password r) (conn_getIP (n_conns n h)) (lr_version r)) False
       ((upd_conn h (\<lambda>c. c\<lparr>cn_msg := msg'\<rparr>) n)\<lparr>n_protos := (n_protos n)(p \<mapsto> keyed r pr)\<rparr>))"
proof -
  have "cipher @ rest \<noteq> []" using cipher(1) by auto
  from read_signatures_request [OF wf this ahead] obtain m1 where
    m1: "read_signatures msg = Some (\<lparr>fm_version = lr_version r, fm_dat = lr_dat r, fm_spr = lr_spr r, fm_pic = lr_pic r\<rparr>, m1)"
      "msg_wf m1" "msg_ahead m1 = cipher @ rest" "m_size m1 = m_size msg" "m_buffer m1 = m_buffer msg" "unat (m_position m1) = unat (m_position msg) + 16" .
  have size1: "unat (m_size m1) = unat (m_position m1) + 128" "unat (m_size m1) \<le> NETWORK_MAX_SIZE" using size m1(4,6) by simp_all
  from RSA_decrypt_request [where block = "fields_bytes (request_fields r) @ fill", OF m1(2,3) cipher(1) size1, of rsa] rsa cipher(2)
  obtain m2 where m2: "RSA_decrypt rsa m1 = Some (True, m2)" "msg_wf m2"
    "msg_ahead m2 = fields_bytes (request_fields r) @ fill @ drop 128 (m_buffer m1)" by (auto simp: request_block_def)
  have "fill @ drop 128 (m_buffer m1) \<noteq> []" using m1(2) by simp
  from read_credentials_request [OF m2(2,3) this] cipher(3) obtain m3 where
    m3: "read_credentials m2 = Some ((lr_key r, lr_name r, lr_password r), m3)" by (auto simp: request_ok_def)
  define n' where "n' = (upd_conn h (\<lambda>c. c\<lparr>cn_msg := m3\<rparr>) n)\<lparr>n_protos := (n_protos n)(p \<mapsto> keyed r pr)\<rparr>"
  have "check_client env \<lparr>fm_version = lr_version r, fm_dat = lr_dat r, fm_spr = lr_spr r, fm_pic = lr_pic r\<rparr> p (lr_name r) (lr_password r) n' =
      Some (add_task (Delegate p (task_name r) (lr_password r) (conn_getIP (n_conns n h)) (lr_version r)) False n')"
    using cipher(3) proto(2) enabled
    by (auto simp: check_client_def request_ok_def task_name_def n'_def upd_conn_def keyed_def setXTEAKey_def conn_getIP_def Let_def not_less)
  then have "onRecvFirstMessage env rsa p h n = Some (add_task (Delegate p (task_name r) (lr_password r) (conn_getIP (n_conns n h)) (lr_version r)) False n')"
    using m1(1) m2(1) m3 proto(1)
    by (simp add: onRecvFirstMessage_def msg_def [symmetric] upd_proto_def n'_def upd_conn_def keyed_def Let_def)
  then show ?thesis unfolding n'_def by (rule that)
qed

section \<open>The packet\<close>

text \<open>What the way of a request leaves alone.\<close>

definition pool_part :: "net \<Rightarrow> bool \<times> nat list \<times> (nat \<Rightarrow> output_message) \<times> nat list \<times> nat list \<times> connection_manager" where
  "pool_part n = (p_shutdown n, p_free n, n_msgs n, p_autoSend n, p_addQueue n, n_cm n)"

text \<open>What it leads to: a new protocol with the key of the client, bound to the connection, and its task.\<close>

definition accepted_by :: "login_request \<Rightarrow> nat \<Rightarrow> net \<Rightarrow> net \<Rightarrow> bool" where
  "accepted_by r h n n' \<longleftrightarrow>
     n_protos n' (n_nextProto n) = Some (keyed r ((new_login_protocol None)\<lparr>pr_connection := Some h\<rparr>)) \<and>
     cn_protocol (n_conns n' h) = Some (n_nextProto n) \<and> cn_state (n_conns n' h) = cn_state (n_conns n h) \<and>
     cn_writeError (n_conns n' h) = cn_writeError (n_conns n h) \<and> cn_pendingWrite (n_conns n' h) = cn_pendingWrite (n_conns n h) \<and>
     pool_part n' = pool_part n \<and>
     n_disp n' = snd (d_addTask (createTask (Delegate (n_nextProto n) (task_name r) (lr_password r) (conn_getIP (n_conns n h)) (lr_version r))) False (n_disp n))"

lemma first_packet_request:
  fixes n :: net and h :: nat
  defines "msg \<equiv> cn_msg (n_conns n h)"
  assumes wf: "msg_wf msg" and size: "unat (m_size msg) = unat (m_position msg) + 145" "unat (m_size msg) \<le> NETWORK_MAX_SIZE"
    and ahead: "msg_ahead msg = request_head r @ cipher @ rest"
    and cipher: "length cipher = 128" "rsa cipher = Some (request_block r fill)" "request_ok r fill"
    and rsa: "\<And>bs to. rsa bs = Some to \<Longrightarrow> length to = 128"
    and conn: "cn_protocol (n_conns n h) = None" and service: "find (serves 1 checksum) services = Some sv"
    and enabled: "\<not> isDisabled (e_config env) (e_time env) (conn_getIP (n_conns n h)) protocolId (n_cm n)"
  obtains n' where "first_packet env rsa services checksum h n = Some (True, n')" "accepted_by r h n n'" "n_io n' = n_io n"
proof -
  let ?fields = "fields_bytes [FU16 (lr_platform r), FU16 (lr_version r), FU32 (lr_dat r), FU32 (lr_spr r), FU32 (lr_pic r)]"
  define n0 where "n0 = upd_conn h (\<lambda>c. c\<lparr>cn_receivedFirst := True\<rparr>) n"
  define q where "q = n_nextProto n0"
  have next_field: "msg_ahead msg = le_encode (sizeof TYPE(8)) (1 :: u8) @ ?fields @ cipher @ rest" using ahead by (simp add: request_head_def fields_bytes_def)
  have "?fields @ cipher @ rest \<noteq> []" using cipher(1) by auto
  from get_next [OF wf next_field _ this] obtain msg1 where
    msg1: "msg_get False msg = Some (1 :: u8, msg1)" "msg_wf msg1" "msg_ahead msg1 = ?fields @ cipher @ rest" "m_size msg1 = m_size msg"
      "unat (m_position msg1) = unat (m_position msg) + 1" by auto
  have same0: "cn_msg (n_conns n0 h) = msg" "cn_protocol (n_conns n0 h) = None" "q = n_nextProto n"
    using conn by (simp_all add: n0_def upd_conn_def msg_def q_def)
  define pr where "pr = (new_login_protocol None)\<lparr>pr_connection := Some h\<rparr>"
  define n2 where "n2 = upd_conn h (\<lambda>c. c\<lparr>cn_msg := msg1, cn_protocol := Some q\<rparr>) (n0\<lparr>n_protos := (n_protos n0)(q \<mapsto> pr), n_nextProto := q + 1\<rparr>)"
  from makeProtocol_new [of n0 h 1 msg1 checksum services sv q] msg1(1) same0(1) service q_def obtain n1 where
    n1: "makeProtocol services checksum h n0 = Some (Some q, n1)"
      "upd_proto q (\<lambda>pr. pr\<lparr>pr_connection := Some h\<rparr>) (upd_conn h (\<lambda>c. c\<lparr>cn_protocol := Some q\<rparr>) n1) = Some n2"
    unfolding n2_def pr_def by metis
  have same2: "cn_msg (n_conns n2 h) = msg1" "n_protos n2 q = Some pr" "pr_connection pr = Some h" "n_cm n2 = n_cm n"
    "conn_getIP (n_conns n2 h) = conn_getIP (n_conns n h)"
    by (simp_all add: n2_def n0_def upd_conn_def pr_def conn_getIP_def)
  have size1: "unat (m_size msg1) = unat (m_position msg1) + 144" "unat (m_size msg1) \<le> NETWORK_MAX_SIZE" using size msg1(4,5) by simp_all
  from first_message_request [of n2 h r cipher rest rsa fill q pr env, unfolded same2] msg1(2,3) size1 cipher rsa same2(3) enabled
  obtain msg3 where run: "onRecvFirstMessage env rsa q h n2 =
     Some (add_task (Delegate q (task_name r) (lr_password r) (conn_getIP (n_conns n h)) (lr_version r)) False
       ((upd_conn h (\<lambda>c. c\<lparr>cn_msg := msg3\<rparr>) n2)\<lparr>n_protos := (n_protos n2)(q \<mapsto> keyed r pr)\<rparr>))" by blast
  show ?thesis
  proof (rule that)
    show "first_packet env rsa services checksum h n = Some (True,
        add_task (Delegate q (task_name r) (lr_password r) (conn_getIP (n_conns n h)) (lr_version r)) False
         ((upd_conn h (\<lambda>c. c\<lparr>cn_msg := msg3\<rparr>) n2)\<lparr>n_protos := (n_protos n2)(q \<mapsto> keyed r pr)\<rparr>))"
      using run n1 same0(2) by (simp add: first_packet_def n0_def [symmetric])
  qed (simp_all add: accepted_by_def pool_part_def add_task_def n2_def n0_def upd_conn_def same0(3) pr_def)
qed

lemma request_head_length [simp]: "length (request_head r) = 17"
  by (simp add: request_head_def fields_bytes_def)

lemma handle_packet_request:
  fixes n :: net and h :: nat
  defines "msg \<equiv> cn_msg (n_conns n h)"
  assumes wf: "msg_wf msg" and size: "unat (m_size msg) = unat (m_position msg) + 149" "unat (m_size msg) \<le> NETWORK_MAX_SIZE"
    and ahead: "msg_ahead msg = le_encode 4 (adlerChecksum (request_head r @ cipher) 145) @ (request_head r @ cipher) @ rest" and rest: "rest \<noteq> []"
    and cipher: "length cipher = 128" "rsa cipher = Some (request_block r fill)" "request_ok r fill"
    and rsa: "\<And>bs to. rsa bs = Some to \<Longrightarrow> length to = 128"
    and conn: "cn_protocol (n_conns n h) = None" "\<not> cn_receivedFirst (n_conns n h)" and service: "find (serves 1 True) services = Some sv"
    and enabled: "\<not> isDisabled (e_config env) (e_time env) (conn_getIP (n_conns n h)) protocolId (n_cm n)"
  obtains n' where "handle_packet env rsa services h n = Some n'" "accepted_by r h n n'" "n_io n' = n_io n @ [ReadHeader h]"
proof -
  have len: "length (request_head r @ cipher) = 145" using cipher(1) by simp
  have body: "request_head r @ cipher \<noteq> []" "unat (m_size msg) = unat (m_position msg) + 4 + length (request_head r @ cipher)"
    unfolding len using len size(1) by auto
  have "packet_checksum msg = Some (True, msg_skip 4 msg)"
    using packet_checksum_value [OF wf ahead rest body] unfolding len by simp
  moreover define n1 where "n1 = upd_conn h (\<lambda>c. c\<lparr>cn_msg := msg_skip 4 msg\<rparr>) (upd_conn h (\<lambda>c. c\<lparr>cn_pendingRead := cn_pendingRead c - 1\<rparr>) n)"
  have msg1: "cn_msg (n_conns n1 h) = msg_skip 4 msg" "cn_protocol (n_conns n1 h) = None" "n_cm n1 = n_cm n" "conn_getIP (n_conns n1 h) = conn_getIP (n_conns n h)"
    using conn by (simp_all add: n1_def upd_conn_def conn_getIP_def)
  have room: "unat (m_position msg) + 4 \<le> NETWORK_MAX_SIZE" using size by simp
  have skip: "msg_wf (msg_skip 4 msg)" "unat (m_position (msg_skip 4 msg)) = unat (m_position msg) + 4" "m_size (msg_skip 4 msg) = m_size msg"
    using msg_skip_wf [OF wf room] by (simp_all add: msg_skip_def)
  have "msg_skip 4 msg = msg\<lparr>m_position := m_position msg + of_nat (length (le_encode 4 (adlerChecksum (request_head r @ cipher) 145)))\<rparr>"
    by (simp add: msg_skip_def u16_of_int_def)
  then have ahead1: "msg_ahead (msg_skip 4 msg) = request_head r @ cipher @ rest"
    using msg_ahead_advance [OF ahead] room by (simp add: layout)
  from first_packet_request [of n1 h r cipher rest rsa fill True services sv env, unfolded msg1] skip size ahead1 cipher rsa service enabled
  obtain n2 where n2: "first_packet env rsa services True h n1 = Some (True, n2)" "accepted_by r h n1 n2" "n_io n2 = n_io n1" by auto
  ultimately have "handle_packet env rsa services h n = Some (conn_accept h n2)"
    using conn(2) by (simp add: handle_packet_def msg_def n1_def upd_conn_def Let_def)
  moreover have "accepted_by r h n (conn_accept h n2)"
    using n2(2) by (simp add: accepted_by_def conn_accept_def pool_part_def n1_def upd_conn_def conn_getIP_def Let_def)
  ultimately show ?thesis by (rule that) (use n2(3) in \<open>simp add: conn_accept_def n1_def upd_conn_def Let_def\<close>)
qed

text \<open>The connection after its header: it waits for the 149 bytes of a request.\<close>

lemma parsePacket_request:
  assumes fresh: "fresh_session h 149 n" "\<not> cn_readError (n_conns n h)"
    and cipher: "length cipher = 128" "rsa cipher = Some (request_block r fill)" "request_ok r fill"
    and rsa: "\<And>bs to. rsa bs = Some to \<Longrightarrow> length to = 128"
    and service: "find (serves 1 True) services = Some sv"
    and enabled: "\<not> isDisabled (e_config env) (e_time env) (conn_getIP (n_conns n h)) protocolId (n_cm n)"
    and rate: "\<not> over_limit (e_config env) (e_time env) ((n_conns n h)\<lparr>cn_packets := cn_packets (n_conns n h) + 1\<rparr>)"
  obtains n' where "conn_parsePacket env rsa services NoError (drop 2 (request_frame r cipher)) h n = Some n'" "accepted_by r h n n'"
    "n_io n' = n_io n @ [ReadHeader h]"
proof -
  define sum where "sum = adlerChecksum (request_head r @ cipher) 145"
  have body: "drop 2 (request_frame r cipher) = le_encode 4 sum @ request_head r @ cipher"
    using cipher(1) by (simp add: request_frame_def outer_frame_def sum_def)
  define old where "old = m_buffer (cn_msg (n_conns n h))"
  define buf where "buf = take 2 old @ (le_encode 4 sum @ request_head r @ cipher) @ drop 151 old"
  have old: "length old = 16384" using fresh(1) by (simp add: old_def fresh_session_def layout)
  then have written: "mem_write old NETWORK_HEADER_SIZE (drop 2 (request_frame r cipher)) = Some buf"
    using cipher(1) by (simp add: mem_write_def body buf_def layout)
  define n1 where "n1 = upd_conn h (\<lambda>c. c\<lparr>cn_readTimer := False, cn_msg := (cn_msg c)\<lparr>m_buffer := buf\<rparr>\<rparr>) n"
  obtain over n2 where n2: "count_packet env h n1 = (over, n2)" by fastforce
  have c1: "n_conns n1 h = (n_conns n h)\<lparr>cn_readTimer := False, cn_msg := (cn_msg (n_conns n h))\<lparr>m_buffer := buf\<rparr>\<rparr>"
    by (simp add: n1_def upd_conn_def)
  have "\<not> over" using n2 rate by (auto simp: count_packet_def over_limit_def c1 upd_conn_def Let_def split: if_splits)
  obtain f where n2_conn: "n2 = upd_conn h f n1" "\<And>c. cn_msg (f c) = cn_msg c \<and> cn_protocol (f c) = cn_protocol c \<and> cn_receivedFirst (f c) = cn_receivedFirst c \<and>
      cn_state (f c) = cn_state c \<and> cn_writeError (f c) = cn_writeError c \<and> cn_pendingWrite (f c) = cn_pendingWrite c \<and> conn_getIP (f c) = conn_getIP c"
  proof (rule that)
    show "n2 = upd_conn h (\<lambda>c. c\<lparr>cn_time := cn_time (n_conns n2 h), cn_packets := cn_packets (n_conns n2 h)\<rparr>) n1"
      using n2 by (auto simp: count_packet_def Let_def upd_conn_def split: if_splits)
  qed (simp add: conn_getIP_def)
  have "conn_parsePacket env rsa services NoError (drop 2 (request_frame r cipher)) h n = handle_packet env rsa services h n2"
    using written n2 \<open>\<not> over\<close> fresh by (simp add: conn_parsePacket_def old_def [symmetric] n1_def [symmetric] c1 fresh_session_def)
  moreover have "accepted_by r h n n'" if "accepted_by r h n2 n'" for n'
    using that n2_conn(2) by (simp add: accepted_by_def n2_conn(1) n1_def upd_conn_def pool_part_def conn_getIP_def)
  moreover have "n_io n2 = n_io n" by (simp add: n2_conn(1) n1_def upd_conn_def)
  moreover obtain n' where "handle_packet env rsa services h n2 = Some n'" "accepted_by r h n2 n'" "n_io n' = n_io n2 @ [ReadHeader h]"
  proof (rule handle_packet_request [of n2 h r cipher "drop 151 old" rsa fill services sv env])
    have msg: "cn_msg (n_conns n2 h) = (cn_msg (n_conns n h))\<lparr>m_buffer := buf\<rparr>" by (simp add: n2_conn n1_def upd_conn_def)
    have buf: "length buf = 16384" using old cipher(1) by (simp add: buf_def)
    show "msg_wf (cn_msg (n_conns n2 h))" using buf fresh by (simp add: msg msg_wf_def fresh_session_def layout)
    show "unat (m_size (cn_msg (n_conns n2 h))) = unat (m_position (cn_msg (n_conns n2 h))) + 149"
      "unat (m_size (cn_msg (n_conns n2 h))) \<le> NETWORK_MAX_SIZE" using fresh by (simp_all add: msg fresh_session_def layout)
    show "msg_ahead (cn_msg (n_conns n2 h)) = le_encode 4 (adlerChecksum (request_head r @ cipher) 145) @ (request_head r @ cipher) @ drop 151 old"
      using fresh old by (simp add: msg msg_ahead_def buf_def sum_def fresh_session_def)
  qed (use cipher rsa service enabled fresh old n2_conn in \<open>auto simp: fresh_session_def n1_def upd_conn_def conn_getIP_def\<close>)
  ultimately show ?thesis by (intro that) simp_all
qed

section \<open>The header\<close>

text \<open>A connection that waits for its first header, with a pool that can answer.\<close>

definition accepting :: "nat \<Rightarrow> net \<Rightarrow> bool" where
  "accepting h n \<longleftrightarrow>
     cn_state (n_conns n h) = CONNECTION_STATE_OPEN \<and> cn_protocol (n_conns n h) = None \<and> \<not> cn_receivedFirst (n_conns n h) \<and>
     \<not> cn_writeError (n_conns n h) \<and> \<not> cn_readError (n_conns n h) \<and> cn_pendingWrite (n_conns n h) = 0 \<and>
     length (m_buffer (cn_msg (n_conns n h))) = NETWORK_MAX_SIZE \<and> \<not> p_shutdown n \<and>
     (\<forall>m \<in> set (p_free n). length (m_buffer (n_msgs n m)) = NETWORK_MAX_SIZE \<and> m_outputBufferStart (n_msgs n m) = 8)"

lemma header_value:
  "uint ((ucast (le_encode 2 w ! 0) :: u32) OR push_bit 8 (ucast (le_encode 2 w ! Suc 0))) = uint (w :: u16)"
proof -
  have "(ucast (ucast w :: u8) :: u32) OR push_bit 8 (ucast (ucast (drop_bit 8 w) :: u8)) = ucast w"
    by (rule bit_word_eqI) (auto simp: bit_simps dest: bit_imp_le_length)
  moreover have "uint (ucast w :: u32) = uint w" using uint_lt2p [of w] by (simp add: unsigned_ucast_eq take_bit_int_eq_self)
  ultimately show ?thesis by (simp add: le_encode_2)
qed

lemma parseHeader_request:
  assumes acc: "accepting h n" and cipher: "length cipher = 128"
  obtains n' where "conn_parseHeader NoError (take 2 (request_frame r cipher)) h n = Some n'" "fresh_session h 149 n'"
    "\<not> cn_readError (n_conns n' h)" "n_io n' = n_io n @ [ReadBody h 149]" "pool_part n' = pool_part n" "n_disp n' = n_disp n"
    "n_protos n' = n_protos n" "n_nextProto n' = n_nextProto n" "conn_getIP (n_conns n' h) = conn_getIP (n_conns n h)"
    "cn_packets (n_conns n' h) = cn_packets (n_conns n h)" "cn_time (n_conns n' h) = cn_time (n_conns n h)"
proof -
  define old where "old = m_buffer (cn_msg (n_conns n h))"
  have old: "length old = 16384" using acc by (simp add: accepting_def old_def layout)
  have header: "take 2 (request_frame r cipher) = le_encode 2 (149 :: u16)"
    using cipher by (simp add: request_frame_def outer_frame_def)
  define buf where "buf = le_encode 2 (149 :: u16) @ drop 2 old"
  have written: "mem_write old 0 (take 2 (request_frame r cipher)) = Some buf"
    unfolding header using old by (simp add: mem_write_def buf_def numeral_2_eq_2 [symmetric] del: le_encode.simps)
  define msg where "msg = (cn_msg (n_conns n h))\<lparr>m_buffer := buf, m_size := 149\<rparr>"
  have "mem_read buf 0 2 = Some (le_encode 2 (149 :: u16))" using old by (simp add: mem_read_def buf_def)
  then have decoded: "msg_decodeHeader ((cn_msg (n_conns n h))\<lparr>m_buffer := buf\<rparr>) = Some (149, msg)"
    by (simp add: msg_decodeHeader_def header_value msg_def Let_def) (simp add: u16_of_int_def)
  define n' where "n' = (upd_conn h (\<lambda>c. c\<lparr>cn_readTimer := True, cn_msg := msg\<lparr>m_size := 151, m_position := 2\<rparr>\<rparr>) n)\<lparr>n_io := n_io n @ [ReadBody h 149]\<rparr>"
  have run: "conn_parseHeader NoError (take 2 (request_frame r cipher)) h n = Some n'"
    using acc written decoded
    by (simp add: conn_parseHeader_def old_def [symmetric] accepting_def upd_conn_def n'_def msg_writeBuffer_def msg_setSize_def u16_of_int_def layout)
  have "length buf = 16384" using old by (simp add: buf_def)
  then show ?thesis
    by (intro that [OF run])
      (use acc in \<open>simp_all add: accepting_def fresh_session_def n'_def upd_conn_def pool_part_def conn_getIP_def msg_def layout\<close>)
qed

section \<open>The whole way\<close>

definition admitted :: "'s env \<Rightarrow> nat \<Rightarrow> net \<Rightarrow> bool" where
  "admitted env h n \<longleftrightarrow>
     \<not> isDisabled (e_config env) (e_time env) (conn_getIP (n_conns n h)) protocolId (n_cm n) \<and>
     \<not> over_limit (e_config env) (e_time env) ((n_conns n h)\<lparr>cn_packets := cn_packets (n_conns n h) + 1\<rparr>)"

lemma request_way:
  assumes acc: "accepting h n" and adm: "admitted env h n" and service: "find (serves 1 True) services = Some sv"
    and cipher: "length cipher = 128" "rsa cipher = Some (request_block r fill)" "request_ok r fill"
    and rsa: "\<And>bs to. rsa bs = Some to \<Longrightarrow> length to = 128"
  obtains n1 n2 where "conn_parseHeader NoError (take 2 (request_frame r cipher)) h n = Some n1"
    "n_io n1 = n_io n @ [ReadBody h (length (request_frame r cipher) - 2)]"
    "conn_parsePacket env rsa services NoError (drop 2 (request_frame r cipher)) h n1 = Some n2"
    "accepted_by r h n n2" "n_io n2 = n_io n1 @ [ReadHeader h]"
proof -
  from parseHeader_request [OF acc cipher(1)] obtain n1 where
    n1: "conn_parseHeader NoError (take 2 (request_frame r cipher)) h n = Some n1" "fresh_session h 149 n1" "\<not> cn_readError (n_conns n1 h)"
      "n_io n1 = n_io n @ [ReadBody h 149]" and same: "pool_part n1 = pool_part n" "n_disp n1 = n_disp n"
      "n_protos n1 = n_protos n" "n_nextProto n1 = n_nextProto n" "conn_getIP (n_conns n1 h) = conn_getIP (n_conns n h)"
      "cn_packets (n_conns n1 h) = cn_packets (n_conns n h)" "cn_time (n_conns n1 h) = cn_time (n_conns n h)" by metis
  have cm: "n_cm n1 = n_cm n" using same(1) by (simp add: pool_part_def)
  have enabled: "\<not> isDisabled (e_config env) (e_time env) (conn_getIP (n_conns n1 h)) protocolId (n_cm n1)"
    using adm by (simp add: admitted_def same(5) cm)
  have rate: "\<not> over_limit (e_config env) (e_time env) ((n_conns n1 h)\<lparr>cn_packets := cn_packets (n_conns n1 h) + 1\<rparr>)"
    using adm by (simp add: admitted_def over_limit_def same)
  from parsePacket_request [of h n1 cipher rsa r fill services sv env] n1(2,3) cipher rsa service enabled rate
  obtain n2 where n2: "conn_parsePacket env rsa services NoError (drop 2 (request_frame r cipher)) h n1 = Some n2" "accepted_by r h n1 n2"
    "n_io n2 = n_io n1 @ [ReadHeader h]" by blast
  have "accepted_by r h n n2" using n2(2) n1(2) acc by (simp add: accepted_by_def same accepting_def fresh_session_def)
  moreover have "length (request_frame r cipher) - 2 = 149" using cipher(1) by (simp add: request_frame_def outer_frame_def)
  ultimately show ?thesis using n1(1,4) n2(1,3) by (intro that [of n1 n2]) simp_all
qed

text \<open>The state after the request answers the task that waits in it.\<close>

lemma accepted_ready:
  assumes "accepting h n" and "accepted_by r h n n2" and "request_ok r fill"
  shows "reply_ready (n_nextProto n) (keyed r ((new_login_protocol None)\<lparr>pr_connection := Some h\<rparr>)) h n2"
    "m_checksumEnabled (keyed r ((new_login_protocol None)\<lparr>pr_connection := Some h\<rparr>))"
    "m_encryptionEnabled (keyed r ((new_login_protocol None)\<lparr>pr_connection := Some h\<rparr>))"
    "m_key (keyed r ((new_login_protocol None)\<lparr>pr_connection := Some h\<rparr>)) = lr_key r"
    "queues n2 = queues n" "n_cm n2 = n_cm n"
  using assms by (simp_all add: reply_ready_def accepting_def accepted_by_def pool_part_def queues_def keyed_def setXTEAKey_def
      new_login_protocol_def new_protocol_def request_ok_def)

text \<open>C7. A login request is understood: when the frame that a client builds from its key, name and password arrives on a
  fresh connection, in the two reads the server asks for, the server has made a protocol with
  exactly this key, bound to the connection, and the task that is queued last holds exactly this name (or 10 for an
  empty one), password, address and version.\<close>

theorem login_request_understood:
  assumes acc: "accepting h n" and adm: "admitted env h n" and service: "find (serves 1 True) services = Some sv"
    and running: "d_threadState (n_disp n) = STATE_RUNNING"
    and cipher: "length cipher = 128" "rsa cipher = Some (request_block r fill)" "request_ok r fill"
    and rsa: "\<And>bs to. rsa bs = Some to \<Longrightarrow> length to = 128"
  shows "\<exists>n1 n2 pr. conn_parseHeader NoError (take 2 (request_frame r cipher)) h n = Some n1 \<and>
     n_io n1 = n_io n @ [ReadBody h (length (request_frame r cipher) - 2)] \<and>
     conn_parsePacket env rsa services NoError (drop 2 (request_frame r cipher)) h n1 = Some n2 \<and>
     n_protos n2 (n_nextProto n) = Some pr \<and> pr_connection pr = Some h \<and> m_encryptionEnabled pr \<and> m_key pr = lr_key r \<and>
     cn_protocol (n_conns n2 h) = Some (n_nextProto n) \<and>
     tasks n2 = tasks n @ [Delegate (n_nextProto n) (task_name r) (lr_password r) (conn_getIP (n_conns n h)) (lr_version r)]"
proof -
  from request_way [of h n env services sv cipher rsa r fill] acc adm service cipher rsa obtain n1 n2 where
    run: "conn_parseHeader NoError (take 2 (request_frame r cipher)) h n = Some n1"
      "n_io n1 = n_io n @ [ReadBody h (length (request_frame r cipher) - 2)]"
      "conn_parsePacket env rsa services NoError (drop 2 (request_frame r cipher)) h n1 = Some n2" and acc2: "accepted_by r h n n2" by metis
  note ready = accepted_ready [OF acc acc2 cipher(3)]
  have "n_protos n2 (n_nextProto n) = Some (keyed r ((new_login_protocol None)\<lparr>pr_connection := Some h\<rparr>))"
    "cn_protocol (n_conns n2 h) = Some (n_nextProto n)" using acc2 by (simp_all add: accepted_by_def)
  moreover have "pr_connection (keyed r ((new_login_protocol None)\<lparr>pr_connection := Some h\<rparr>)) = Some h" using ready(1) by (simp add: reply_ready_def)
  moreover have "tasks n2 = tasks n @ [Delegate (n_nextProto n) (task_name r) (lr_password r) (conn_getIP (n_conns n h)) (lr_version r)]"
    using acc2 running by (simp add: accepted_by_def tasks_def d_addTask_def createTask_def)
  ultimately show ?thesis using run ready(3,4) by blast
qed

definition demo_request :: login_request where
  "demo_request = \<lparr>lr_platform = 2, lr_version = 963, lr_dat = 0xFFFFFFFF, lr_spr = 0xFFFFFFFF, lr_pic = 0xFFFFFFFF,
     lr_key = [1, 2, 3, 4], lr_name = ''10'', lr_password = ''secret''\<rparr>"

definition demo_fill :: "u8 list" where "demo_fill = replicate 99 0"

lemma demo_request_ok:
  "request_ok demo_request demo_fill" "length (request_block demo_request demo_fill) = 128" "find (serves 1 True) [login_service] = Some login_service"
  by (simp_all add: request_ok_def demo_request_def demo_fill_def request_block_def request_fields_def fields_bytes_def version_refused_def
      serves_def login_service_def CLIENT_VERSION_MIN_def CLIENT_VERSION_MAX_def CLIENT_VERSION_SPR_def CLIENT_VERSION_DAT_def CLIENT_VERSION_PIC_def layout)

definition session_env :: "nat env" where
  "session_env = login_env ((new_config (\<lambda>_. False) (\<lambda>_. 0))\<lparr>m_loaded := True, m_confNumber := (\<lambda>_. 0)(MAX_PACKETS_PER_SECOND := 25)\<rparr>)"

lemma demo_net_accepting:
  "accepting 4 demo_net" "admitted session_env 4 demo_net" "d_threadState (n_disp demo_net) = STATE_RUNNING"
  "tasks demo_net = []" "queues demo_net = ([], [])"
  by (simp_all add: accepting_def admitted_def demo_net_def new_connection_def new_network_message_def new_dispatcher_def tasks_def queues_def
      isDisabled_def over_limit_def session_env_def login_env_def demo_env_def u32_of_int_def to_i32_def new_config_def new_connection_manager_def getNumber_def layout)

theorem login_request_understood_witness:
  "\<exists>n1 n2. conn_parseHeader NoError (take 2 (request_frame demo_request (replicate 128 7))) 4 demo_net = Some n1 \<and>
     conn_parsePacket session_env (\<lambda>bs. Some (request_block demo_request demo_fill)) [login_service] NoError
       (drop 2 (request_frame demo_request (replicate 128 7))) 4 n1 = Some n2 \<and>
     tasks n2 = [Delegate (n_nextProto demo_net) ''10'' ''secret'' (conn_getIP (n_conns demo_net 4)) 963]"
  using login_request_understood [OF demo_net_accepting(1,2) demo_request_ok(3) demo_net_accepting(3), of "replicate 128 7"
      "\<lambda>bs. Some (request_block demo_request demo_fill)" demo_request demo_fill] demo_request_ok demo_net_accepting(4)
  by (auto simp: task_name_def demo_request_def)

section \<open>The task of the request\<close>

text \<open>The dispatcher takes the task of the request, which is alone in its queue, and answers it.\<close>

lemma dispatch_request:
  assumes acc: "accepting h n" and acc2: "accepted_by r h n n2" and ok: "request_ok r fill"
    and idle: "n_disp n = new_dispatcher" "queues n = ([], [])"
    and decided: "delegate_decide env H (task_name r) (lr_password r) (conn_getIP (n_conns n h)) (n_cm n) cache db = (d, cm1, cache1, db1)"
    and reply: "login_reply env rnd d db1 = Some (content, db2)"
    and fits: "\<forall>f \<in> set content. field_ok f" "length (fields_bytes content) + 15 < NETWORK_BODY_SIZE"
  obtains n3 m frame where "dispatch_task now env H rnd (n2, cache, db) = Some (n3, cache1, db2)" "n_io n3 = n_io n2 @ [Write h m frame]"
    "client_reads (lr_key r) content frame = Some content" "cn_state (n_conns n3 h) = CONNECTION_STATE_REQUEST_CLOSE" "n_cm n3 = cm1"
proof -
  define pr where "pr = keyed r ((new_login_protocol None)\<lparr>pr_connection := Some h\<rparr>)"
  note ready = accepted_ready [OF acc acc2 ok, folded pr_def]
  define frame where "frame = wire_frame pr (fields_bytes content)"
  define n2' where "n2' = pool_startExecutionFrame (n2\<lparr>n_disp := new_dispatcher\<rparr>)"
  have "n_disp n2 = new_dispatcher\<lparr>d_taskList := [createTask (Delegate (n_nextProto n) (task_name r) (lr_password r) (conn_getIP (n_conns n h)) (lr_version r))]\<rparr>"
    using acc2 idle(1) by (simp add: accepted_by_def d_addTask_def new_dispatcher_def)
  then have taken: "d_take (n_disp n2) = (Some (createTask (Delegate (n_nextProto n) (task_name r) (lr_password r) (conn_getIP (n_conns n h)) (lr_version r))), new_dispatcher)"
    by (simp add: d_take_def new_dispatcher_def)
  have "reply_ready (n_nextProto n) pr h n2'" using ready(1) by (simp add: n2'_def reply_ready_def pool_startExecutionFrame_def)
  moreover have cm: "n_cm n2' = n_cm n" "queues n2' = ([], [])" using ready(5,6) idle(2) by (simp_all add: n2'_def) (simp add: pool_startExecutionFrame_def)
  ultimately obtain n3 m where n3: "delegate env H rnd (n_nextProto n) (task_name r) (lr_password r) (conn_getIP (n_conns n h)) (n2', cache, db) = Some (n3, cache1, db2)"
    "n_io n3 = n_io n2' @ [Write h m frame]" "cn_state (n_conns n3 h) = CONNECTION_STATE_REQUEST_CLOSE" "queues n3 = queues n2'" "n_cm n3 = cm1"
    using delegate_answer [of "n_nextProto n" pr h n2' env H "task_name r"] decided reply fits unfolding frame_def by metis
  have "dispatch_task now env H rnd (n2, cache, db) = Some (n3, cache1, db2)"
    using n3(1,4) cm(2) sendAll_idle [of n3] by (simp add: dispatch_task_def taken hasExpired_def createTask_def n2'_def)
  moreover have "client_reads (m_key pr) content frame = Some content"
    unfolding frame_def using ready(1-3) fits by (intro client_reads_frame) (simp_all add: reply_ready_def)
  ultimately show ?thesis using that n3(2,3,5) ready(4) by (simp add: n2'_def pool_startExecutionFrame_def)
qed

text \<open>From the first byte of the request to the written answer.\<close>

lemma request_session:
  assumes acc: "accepting h n" and adm: "admitted env h n" and service: "find (serves 1 True) services = Some sv"
    and idle: "n_disp n = new_dispatcher" "queues n = ([], [])"
    and cipher: "length cipher = 128" "rsa cipher = Some (request_block r fill)" "request_ok r fill"
    and rsa: "\<And>bs to. rsa bs = Some to \<Longrightarrow> length to = 128"
    and decided: "delegate_decide env H (task_name r) (lr_password r) (conn_getIP (n_conns n h)) (n_cm n) cache db = (d, cm1, cache1, db1)"
    and reply: "login_reply env rnd d db1 = Some (content, db2)"
    and fits: "\<forall>f \<in> set content. field_ok f" "length (fields_bytes content) + 15 < NETWORK_BODY_SIZE"
  shows "\<exists>n1 n2 n3 m frame. conn_parseHeader NoError (take 2 (request_frame r cipher)) h n = Some n1 \<and>
     conn_parsePacket env rsa services NoError (drop 2 (request_frame r cipher)) h n1 = Some n2 \<and>
     dispatch_task now env H rnd (n2, cache, db) = Some (n3, cache1, db2) \<and>
     n_io n3 = n_io n @ [ReadBody h (length (request_frame r cipher) - 2), ReadHeader h, Write h m frame] \<and>
     client_reads (lr_key r) content frame = Some content \<and> n_cm n3 = cm1 \<and>
     cn_state (n_conns n3 h) = CONNECTION_STATE_REQUEST_CLOSE"
proof -
  from request_way [of h n env services sv cipher rsa r fill] acc adm service cipher rsa obtain n1 n2 where
    run: "conn_parseHeader NoError (take 2 (request_frame r cipher)) h n = Some n1"
      "n_io n1 = n_io n @ [ReadBody h (length (request_frame r cipher) - 2)]"
      "conn_parsePacket env rsa services NoError (drop 2 (request_frame r cipher)) h n1 = Some n2"
      "accepted_by r h n n2" "n_io n2 = n_io n1 @ [ReadHeader h]" by metis
  from dispatch_request [OF acc run(4) cipher(3) idle decided reply fits] obtain n3 m frame where
    "dispatch_task now env H rnd (n2, cache, db) = Some (n3, cache1, db2)" "n_io n3 = n_io n2 @ [Write h m frame]"
    "client_reads (lr_key r) content frame = Some content" "cn_state (n_conns n3 h) = CONNECTION_STATE_REQUEST_CLOSE" "n_cm n3 = cm1" by metis
  with run show ?thesis by (intro exI [of _ n1] exI [of _ n2] exI [of _ n3] exI [of _ m] exI [of _ frame]) simp
qed

text \<open>A peer that the port has accepted is on such a connection.\<close>

lemma served_peer:
  assumes services: "sp_services sp = sv # svs" "\<not> isSingleSocket sv"
    and handled: "sp_handle env acceptor ip NoError (sp, s) = (sp', s')"
    and peer: "ip \<noteq> 0" "fst (acceptConnection (word_of_int (e_ms env)) ip (n_cm (s_net s)))"
    and pool: "\<not> p_shutdown (s_net s)"
      "\<forall>m \<in> set (p_free (s_net s)). length (m_buffer (n_msgs (s_net s) m)) = NETWORK_MAX_SIZE \<and> m_outputBufferStart (n_msgs (s_net s) m) = 8"
  shows "accepting (s_nextConn s) (s_net s')" "conn_getIP (n_conns (s_net s') (s_nextConn s)) = ip" "n_disp (s_net s') = n_disp (s_net s)"
    "queues (s_net s') = queues (s_net s)" "n_io (s_net s') = n_io (s_net s) @ [ReadHeader (s_nextConn s)]" "cn_packets (n_conns (s_net s') (s_nextConn s)) = 0"
proof -
  have "s_net s' = conn_accept (s_nextConn s) ((s_net s)\<lparr>n_conns := (n_conns (s_net s))(s_nextConn s := new_connection (e_time env) ip),
      n_cm := cm_createConnection (s_nextConn s) (snd (acceptConnection (word_of_int (e_ms env)) ip (n_cm (s_net s))))\<rparr>)"
    using services handled peer
    by (auto simp: sp_handle_def accept_peer_def sp_isSingleSocket_def create_connection_def sp_accept_def Let_def split: prod.splits)
  then show "accepting (s_nextConn s) (s_net s')" "conn_getIP (n_conns (s_net s') (s_nextConn s)) = ip" "n_disp (s_net s') = n_disp (s_net s)"
    "queues (s_net s') = queues (s_net s)" "n_io (s_net s') = n_io (s_net s) @ [ReadHeader (s_nextConn s)]" "cn_packets (n_conns (s_net s') (s_nextConn s)) = 0"
    using pool by (simp_all add: accepting_def conn_accept_def upd_conn_def new_connection_def new_network_message_def conn_getIP_def queues_def Let_def)
qed

lemma first_packet_in_limit:
  assumes "cn_packets c = 0" and "0 < getNumber MAX_PACKETS_PER_SECOND cfg" "getNumber MAX_PACKETS_PER_SECOND cfg < 2 ^ 32"
  shows "\<not> over_limit cfg now (c\<lparr>cn_packets := cn_packets c + 1\<rparr>)"
proof -
  have "unat (u32_of_int (getNumber MAX_PACKETS_PER_SECOND cfg)) \<ge> 1"
    using assms(2,3) by (simp add: u32_of_int_def unat_eq_nat_uint uint_word_of_int)
  moreover have "unat ((1 :: u32) div x) \<le> 1" for x :: u32 by (simp add: unat_div)
  ultimately show ?thesis using assms(1) by (auto simp: over_limit_def word_less_nat_alt not_less intro: order_trans)
qed

end
