(* ===== verification/Login_Once.thy ===== *)
theory Login_Once
  imports Login_Client
begin

text \<open>
  How often a login is carried out. Only the first packet of a connection can queue a login task, and it does so for
  a protocol whose number is new; so a task that has been taken never comes back.
\<close>

section \<open>The invariant\<close>

fun is_login :: "nat \<Rightarrow> callback \<Rightarrow> bool" where
  "is_login p (Delegate q name password clientIp version) = (p = q)"
| "is_login p _ = False"

definition logins :: "net \<Rightarrow> nat \<Rightarrow> nat" where
  "logins n p = length (filter (is_login p) (tasks n))"

definition once :: "net \<Rightarrow> bool" where
  "once n \<longleftrightarrow>
     (\<forall>p. logins n p \<le> (if p < n_nextProto n then 1 else 0)) \<and>
     (\<forall>h p. owner n h = Some p \<longrightarrow> cn_receivedFirst (n_conns n h)) \<and>
     (\<forall>cb \<in> set (events n). \<forall>p. \<not> is_login p cb)"

text \<open>\<open>advances n n'\<close>: the invariant holds afterwards, and no protocol that was there has got a login task.\<close>

definition advances :: "net \<Rightarrow> net \<Rightarrow> bool" where
  "advances n n' \<longleftrightarrow> once n' \<and> n_nextProto n \<le> n_nextProto n' \<and> (\<forall>p < n_nextProto n. logins n' p \<le> logins n p)"

lemma onceD:
  assumes "once n"
  shows "p < n_nextProto n \<Longrightarrow> logins n p \<le> 1" and "n_nextProto n \<le> p \<Longrightarrow> logins n p = 0"
    and "owner n h = Some p \<Longrightarrow> cn_receivedFirst (n_conns n h)" and "cb \<in> set (events n) \<Longrightarrow> \<not> is_login p cb"
  using assms by (auto simp: once_def dest: spec [of _ p])

lemma advances_refl: "once n \<Longrightarrow> advances n n"
  by (simp add: advances_def)

lemma advances_trans: "advances n n' \<Longrightarrow> advances n' n'' \<Longrightarrow> advances n n''"
  unfolding advances_def by (meson le_trans less_le_trans)

lemma advances_once: "advances n n' \<Longrightarrow> once n'"
  by (simp add: advances_def)

text \<open>What is enough: the login tasks become no more, owners come from before and first packets are not forgotten.\<close>

lemma advancesI:
  assumes "once n" and "\<And>p. logins n' p \<le> logins n p" and "n_nextProto n' = n_nextProto n"
    and "\<And>h p. owner n' h = Some p \<Longrightarrow> owner n h = Some p" and "\<And>h. cn_receivedFirst (n_conns n h) \<Longrightarrow> owner n h \<noteq> None \<Longrightarrow> cn_receivedFirst (n_conns n' h)"
    and "\<And>cb p. cb \<in> set (events n') \<Longrightarrow> cb \<notin> set (events n) \<Longrightarrow> \<not> is_login p cb"
  shows "advances n n'"
proof -
  have "logins n' p \<le> (if p < n_nextProto n' then 1 else 0)" for p
    using assms(1) le_trans [OF assms(2)] by (simp add: once_def assms(3))
  moreover have "cn_receivedFirst (n_conns n' h)" if "owner n' h = Some p" for h p
    using assms(4) [OF that] assms(5) [of h] onceD(3) [OF assms(1)] by auto
  moreover have "\<not> is_login p cb" if "cb \<in> set (events n')" for cb p
    using that assms(6) [of cb p] onceD(4) [OF assms(1), of cb p] by blast
  ultimately show ?thesis using assms(2,3) by (simp add: advances_def once_def)
qed

lemma plain_no_login: "plain cb \<Longrightarrow> \<not> is_login p cb"
  by (cases cb) auto

lemma no_logins: "\<forall>cb \<in> set cbs. plain cb \<or> (\<exists>h. cb = CloseConnection h) \<Longrightarrow> filter (is_login p) cbs = []"
  by (auto simp: filter_empty_conv dest: plain_no_login)

lemma advances_calm:
  assumes "calm n n'" and "once n"
  shows "advances n n'"
proof -
  obtain front rear where t: "calm_tasks n n' front rear" using assms(1) by (auto simp: calm_def)
  have "filter (is_login p) front = []" "filter (is_login p) rear = []" for p
    using t by (auto simp: calm_tasks_def intro!: no_logins)
  then have "logins n' p = logins n p" for p using t by (simp add: logins_def calm_tasks_def)
  then show ?thesis using assms by (intro advancesI) (auto simp: calm_def owner_def dest: plain_no_login)
qed

section \<open>Steps\<close>

text \<open>A first message queues at most one login task, for the protocol that gets it.\<close>

lemma logins_delegate: "logins (add_task (Delegate p name password clientIp version) False n) q \<le> logins n q + (if q = p then 1 else 0)"
  by (auto simp: logins_def tasks_def add_task_def d_addTask_def createTask_def)

lemma once_first_message:
  assumes inv: "once n" and p: "p < n_nextProto n" "logins n p = 0"
    and run: "onRecvFirstMessage env rsa p h n = Some n'"
  shows "once n' \<and> n_nextProto n' = n_nextProto n \<and> (\<forall>q. q \<noteq> p \<longrightarrow> logins n' q \<le> logins n q)"
  using run
proof (cases rule: first_message_steps)
  case calm
  from advances_calm [OF calm inv] have a: "advances n n'" .
  moreover have "n_nextProto n' = n_nextProto n" using calm by (simp add: calm_def)
  moreover have "logins n' q \<le> logins n q" for q
    using a onceD(2) [OF advances_once [OF a], of q] calculation(2) by (cases "q < n_nextProto n") (auto simp: advances_def)
  ultimately show ?thesis by (simp add: advances_once)
next
  case (login m name password clientIp version)
  have a: "advances n m" by (rule advances_calm [OF login(1) inv])
  have next_proto: "n_nextProto m = n_nextProto n" using login(1) by (simp add: calm_def)
  have le: "logins m q \<le> logins n q" for q
    using a onceD(2) [OF advances_once [OF a], of q] next_proto by (cases "q < n_nextProto n") (auto simp: advances_def)
  have sel: "n_nextProto n' = n_nextProto m" "n_conns n' = n_conns m" "owner n' = owner m" "events n' = events m"
    by (simp_all add: login(3) add_task_def owner_def events_def fun_eq_iff)
  have le': "logins n' q \<le> logins m q + (if q = p then 1 else 0)" for q unfolding login(3) by (rule logins_delegate)
  have "logins n' q \<le> (if q < n_nextProto n' then 1 else 0)" for q
  proof (cases "q = p")
    case True
    then show ?thesis using le' [of p] le [of p] p by (simp add: sel next_proto)
  next
    case False
    then have "logins n' q \<le> logins m q" using le' [of q] by simp
    also have "logins m q \<le> (if q < n_nextProto m then 1 else 0)" using advances_once [OF a] by (simp only: once_def)
    finally show ?thesis by (simp only: sel)
  qed
  then have "once n'" using advances_once [OF a] by (simp add: once_def sel)
  moreover have "logins n' q \<le> logins n q" if "q \<noteq> p" for q using le' [of q] le [of q] that by simp
  ultimately show ?thesis using next_proto by (simp add: sel(1))
qed

lemma advances_new_bound:
  assumes "once n" and "owner n h = None" and "cn_receivedFirst (n_conns n h)"
  shows "once (new_bound h msg n)" "logins (new_bound h msg n) p = logins n p"
proof -
  show l: "logins (new_bound h msg n) p = logins n p" for p by (simp add: logins_def)
  have "logins n p \<le> (if p < n_nextProto n + 1 then 1 else 0)" for p using onceD(1,2) [OF assms(1), of p] by (cases "p < n_nextProto n") auto
  then show "once (new_bound h msg n)" using assms by (auto simp: once_def l split: if_splits)
qed

lemma advances_first_packet:
  assumes inv: "once n" and first: "\<not> cn_receivedFirst (n_conns n h)"
    and run: "first_packet env rsa services checksumEnabled h n = Some (goes_on, n')"
  shows "advances n n'"
  using run
proof (cases rule: first_packet_steps)
  case (bound p m)
  then show ?thesis using onceD(3) [OF inv bound(1)] first by simp
next
  case none
  then show ?thesis using inv by (rule advances_calm)
next
  case (fresh m msg)
  let ?m = "new_bound h msg m"
  have a: "advances n m" by (rule advances_calm [OF fresh(2) inv])
  have "owner m h = None" using fresh(1,2) by (simp add: calm_def owner_def)
  note b = advances_new_bound [OF advances_once [OF a] this fresh(4), of msg]
  have new: "logins ?m (n_nextProto m) = 0" using onceD(2) [OF advances_once [OF a]] by (simp add: b(2))
  have "once n' \<and> n_nextProto n' = n_nextProto ?m \<and> (\<forall>q. q \<noteq> n_nextProto m \<longrightarrow> logins n' q \<le> logins ?m q)"
    by (rule once_first_message [OF b(1) _ new fresh(5)]) simp
  then have "advances m n'" by (simp add: advances_def b(2))
  with a show ?thesis by (rule advances_trans)
qed

lemma advances_parsePacket:
  assumes inv: "once n" and run: "conn_parsePacket env rsa services err bytes h n = Some n'"
  shows "advances n n'"
  using run
proof (cases rule: parsePacket_steps)
  case closed
  then show ?thesis using inv by (rule advances_calm)
next
  case (handled m)
  have a: "advances n m" by (rule advances_calm [OF handled(1) inv])
  from handled(3) have "advances m n'"
  proof (cases rule: handle_packet_steps)
    case later
    then show ?thesis using advances_once [OF a] by (rule advances_calm)
  next
    case (first k checksumEnabled goes_on n1)
    have b: "advances m k" by (rule advances_calm [OF first(1) advances_once [OF a]])
    have c: "advances k n1" by (rule advances_first_packet [OF advances_once [OF b] first(3,4)])
    have "advances n1 n'" by (rule advances_calm [OF first(5) advances_once [OF c]])
    then show ?thesis using advances_trans b c by blast
  qed
  with a show ?thesis by (rule advances_trans)
qed

text \<open>Operations that neither queue tasks nor bind protocols.\<close>

lemma advances_quiet:
  assumes "once n" and "tasks n' = tasks n" "n_nextProto n' = n_nextProto n"
    and "\<And>h. cn_receivedFirst (n_conns n' h) = cn_receivedFirst (n_conns n h)" and "\<And>h p. owner n' h = Some p \<Longrightarrow> owner n h = Some p"
    and "set (events n') \<subseteq> insert (ReleaseProtocol p) (set (events n))"
  shows "advances n n'"
  using assms by (intro advancesI) (auto simp: logins_def)

lemma advances_release:
  assumes inv: "once n" and run: "p_releaseProtocol p n = Some n'"
  shows "advances n n'"
proof -
  consider "n' = add_event SCHEDULER_MINTICKS (ReleaseProtocol p) n" | "n' = p_deleteProtocolTask p n"
    using run by (auto simp: p_releaseProtocol_def split: if_splits bind_splits)
  then show ?thesis
  proof cases
    case 1
    have "set (events n') \<subseteq> insert (ReleaseProtocol p) (set (events n))" unfolding 1 by (rule set_events_add)
    then show ?thesis using inv by (intro advances_quiet) (simp_all add: 1 tasks_def add_event_def owner_def)
  next
    case 2
    then show ?thesis using inv by (intro advances_quiet) (simp_all add: p_deleteProtocolTask_def tasks_def owner_def events_def subset_insertI)
  qed
qed

lemma advances_upd_conn:
  assumes "once n" and "\<And>c p. cn_protocol (f c) = Some p \<Longrightarrow> cn_protocol c = Some p" and "\<And>c. cn_receivedFirst (f c) = cn_receivedFirst c"
  shows "advances n (upd_conn h f n)"
proof (rule advances_quiet [OF assms(1), where p = 0])
  show "owner n k = Some p" if "owner (upd_conn h f n) k = Some p" for k p
    using that assms(2) [of "n_conns n h" p] by (simp add: owner_def upd_conn_def split: if_splits)
  show "cn_receivedFirst (n_conns (upd_conn h f n) k) = cn_receivedFirst (n_conns n k)" for k by (simp add: upd_conn_def assms(3))
  have "tasks (upd_conn h f n) = tasks n" "n_nextProto (upd_conn h f n) = n_nextProto n" "events (upd_conn h f n) = events n"
    by (simp_all add: tasks_def events_def upd_conn_def)
  then show "tasks (upd_conn h f n) = tasks n" "n_nextProto (upd_conn h f n) = n_nextProto n"
    "set (events (upd_conn h f n)) \<subseteq> insert (ReleaseProtocol 0) (set (events n))" by auto
qed

lemma advances_upd_proto: "once n \<Longrightarrow> upd_proto p f n = Some n' \<Longrightarrow> advances n n'"
  by (rule advances_quiet) (auto simp: upd_proto_def tasks_def events_def owner_def)

lemma advances_closeConnection:
  assumes inv: "once n" and run: "conn_closeConnection h n = Some n'"
  shows "advances n n'"
proof (cases "cn_state (n_conns n h) = CONNECTION_STATE_REQUEST_CLOSE")
  case True
  let ?unbind = "upd_conn h (\<lambda>c. c\<lparr>cn_protocol := None\<rparr>)" and ?state = "\<lambda>st. upd_conn h (cn_state_update (\<lambda>_. st))"
  obtain n1 where n1: "advances n n1" and rest: "n' = ?state CONNECTION_STATE_CLOSING n1 \<or>
      (\<exists>n2. conn_closeSocket h (?state CONNECTION_STATE_CLOSING n1) = Some n2 \<and> n' = ?state CONNECTION_STATE_CLOSED (conn_releaseConnection h n2))"
  proof (cases "cn_protocol (n_conns n h)")
    case None
    then show ?thesis using run True that [OF advances_refl [OF inv]]
      by (auto simp: conn_closeConnection_def Let_def split: if_splits bind_splits)
  next
    case (Some p)
    obtain m k where steps: "upd_proto p (\<lambda>pr. pr\<lparr>pr_connection := None\<rparr>) n = Some m" "p_releaseProtocol p m = Some k"
      and rest: "?unbind k = n1 \<Longrightarrow> n' = ?state CONNECTION_STATE_CLOSING n1 \<or>
        (\<exists>n2. conn_closeSocket h (?state CONNECTION_STATE_CLOSING n1) = Some n2 \<and> n' = ?state CONNECTION_STATE_CLOSED (conn_releaseConnection h n2))" for n1
      using run True Some by (auto simp: conn_closeConnection_def Let_def split: if_splits bind_splits)
    have a: "advances n m" by (rule advances_upd_proto [OF inv steps(1)])
    have b: "advances m k" by (rule advances_release [OF advances_once [OF a] steps(2)])
    have "advances k (?unbind k)" by (rule advances_upd_conn [OF advances_once [OF b]]) simp_all
    then show ?thesis using that rest [OF refl] a b advances_trans by blast
  qed
  define n2 where "n2 = ?state CONNECTION_STATE_CLOSING n1"
  have a: "advances n1 n2" unfolding n2_def by (rule advances_upd_conn [OF advances_once [OF n1]]) simp_all
  have "advances n2 n'"
    using rest unfolding n2_def [symmetric]
  proof (elim disjE exE conjE)
    fix n3
    assume n3: "conn_closeSocket h n2 = Some n3" "n' = ?state CONNECTION_STATE_CLOSED (conn_releaseConnection h n3)"
    have b: "advances n2 (conn_releaseConnection h n3)"
      by (rule advances_calm [OF calm_trans [OF calm_closeSocket [OF n3(1)] calm_releaseConnection] advances_once [OF a]])
    have "advances (conn_releaseConnection h n3) n'" unfolding n3(2) by (rule advances_upd_conn [OF advances_once [OF b]]) simp_all
    with b show ?thesis by (rule advances_trans)
  qed (simp add: advances_refl [OF advances_once [OF a]])
  with n1 a show ?thesis by (meson advances_trans)
qed (use run inv in \<open>simp add: conn_closeConnection_def advances_refl\<close>)

lemma advances_pop:
  assumes "once n" and "tasks n = cb # cbs"
  shows "advances n (pop_task n)"
  using assms tasks_pop [OF assms(2)] by (intro advancesI) (simp_all add: logins_def)

lemma advances_run_task:
  assumes inv: "once n" and run: "run_task env H rnd cb (pool_startExecutionFrame n, r) = Some (n', r')"
  shows "advances n n'"
proof -
  define n1 where "n1 = pool_startExecutionFrame n"
  have "calm n n1" by (intro calm_frame) (simp_all add: n1_def pool_startExecutionFrame_def)
  then have a: "advances n n1" using inv by (rule advances_calm)
  note inv1 = advances_once [OF a]
  have "advances n1 n'"
  proof (cases cb)
    case (Delegate p name password clientIp version)
    obtain cache db cache' db' where "r = (cache, db)" "r' = (cache', db')" by (cases r, cases r')
    then have "delegate env H rnd p name password clientIp (n1, cache, db) = Some (n', cache', db')" using run by (simp add: Delegate n1_def)
    from advances_calm [OF calm_delegate [OF this] inv1] show ?thesis .
  qed (use run inv1 in \<open>auto simp: n1_def [symmetric] intro: advances_closeConnection advances_release advances_calm calm_internalRelease
      calm_onStop calm_releaseConnection advances_calm [OF calm_event] advances_refl\<close>)
  with a show ?thesis by (rule advances_trans)
qed

section \<open>Runs\<close>

text \<open>A round of the dispatcher adds nothing to what is left when the task is taken.\<close>

lemma advances_taken:
  assumes inv: "once n" and taken: "d_take (n_disp n) = (Some t, d)" and run: "dispatch_task now env H rnd (n, r) = Some (n', r')"
  shows "advances (pop_task n) n'"
proof -
  note pop = take_pops [OF taken]
  have inv1: "once (pop_task n)" by (rule advances_once [OF advances_pop [OF inv pop(2)]])
  show ?thesis
  proof (cases "hasExpired now t")
    case True
    then show ?thesis using run taken advances_refl [OF inv1] by (auto simp: dispatch_task_def pop(1))
  next
    case False
    then obtain n1 r1 where n1: "run_task env H rnd (tk_callback t) (pool_startExecutionFrame (pop_task n), r) = Some (n1, r1)"
      and n2: "pool_sendAll (e_config env) n1 = Some n'"
      using run taken by (auto simp: dispatch_task_def pop(1) split: bind_splits)
    have a: "advances (pop_task n) n1" by (rule advances_run_task [OF inv1 n1])
    from advances_trans [OF a advances_calm [OF calm_sendAll [OF n2] advances_once [OF a]]] show ?thesis .
  qed
qed

lemma advances_dispatch:
  assumes inv: "once n" and run: "dispatch_task now env H rnd (n, r) = Some (n', r')"
  shows "advances n n'"
proof (cases "d_take (n_disp n)")
  case (Pair task d)
  show ?thesis
  proof (cases task)
    case None
    then show ?thesis using run take_none [of "n_disp n" d] Pair inv by (auto simp: dispatch_task_def advances_refl)
  next
    case (Some t)
    note taken = Pair [unfolded Some]
    from advances_trans [OF advances_pop [OF inv take_pops(2) [OF taken]] advances_taken [OF inv taken run]] show ?thesis .
  qed
qed

lemma advances_event:
  assumes inv: "once n" and run: "schedule_event n = Some n'"
  shows "advances n n'"
proof -
  have sel: "n_nextProto n' = n_nextProto n" "n_conns n' = n_conns n"
    using run by (auto simp: schedule_event_def split: option.splits prod.splits bool.splits)
  consider (same) "events n' = events n" "tasks n' = tasks n" | (gone) cb cbs where "events n = cb # cbs" "events n' = cbs" "tasks n' = tasks n"
    | (moved) cb cbs where "events n = cb # cbs" "events n' = cbs" "tasks n' = cb # tasks n"
    using run by (rule schedule_event_steps)
  then have "logins n' p \<le> logins n p \<and> set (events n') \<subseteq> set (events n)" for p
    using onceD(4) [OF inv] by cases (auto simp: logins_def)
  then show ?thesis using inv by (intro advancesI) (auto simp: sel owner_def)
qed

lemma advances_step: "login_step st st' \<Longrightarrow> once (fst st) \<Longrightarrow> advances (fst st) (fst st')"
proof (induction rule: login_step.induct)
  case (peer n h r cm now ip)
  let ?n = "n\<lparr>n_conns := (n_conns n)(h := new_connection now ip), n_cm := cm\<rparr>"
  have "advances n ?n"
    using peer by (intro advancesI) (auto simp: logins_def tasks_def events_def owner_def new_connection_def split: if_splits)
  from advances_trans [OF this advances_calm [OF calm_accept advances_once [OF this]]] show ?case by simp
next
  case (posted n h rest n' r)
  have "calm n (n\<lparr>n_posted := rest\<rparr>)" by (intro calm_frame) simp_all
  from calm_trans [OF this calm_onStop [OF posted.hyps(2)]] show ?case using advances_calm posted.prems by simp
next
  case (reopen n r port ips)
  then show ?case using advances_calm [OF calm_event] by simp
next
  case (dispatch now env H rnd n r st)
  then show ?case using advances_dispatch [of n now env H rnd r "fst st" "snd st"] by simp
qed (auto intro: advances_parsePacket advances_event advances_calm calm_parseHeader calm_onWrite calm_timeout)

lemma advances_run: "login_step\<^sup>*\<^sup>* st st' \<Longrightarrow> once (fst st) \<Longrightarrow> advances (fst st) (fst st')"
proof (induction rule: rtranclp_induct)
  case (step st' st'')
  then show ?case using advances_trans advances_step advances_once by blast
qed (rule advances_refl)

lemma once_start:
  assumes "\<And>h. cn_protocol (n_conns n h) = None" and "\<forall>cb \<in> set (tasks n @ events n). plain cb"
  shows "once n"
proof -
  have "filter (is_login p) (tasks n) = []" for p using assms(2) by (intro no_logins) simp
  then show ?thesis using assms plain_no_login by (auto simp: once_def logins_def owner_def)
qed

section \<open>The property\<close>

text \<open>C11. A login is carried out once: when the dispatcher has taken the login task of a protocol, in whatever state the
  peers, timers and tasks have brought the server to, then in no later state a login task for this
  protocol is queued again. So no client gets a second answer to its request.\<close>

theorem login_carried_out_once:
  assumes start: "\<And>h. cn_protocol (n_conns n0 h) = None" "\<forall>cb \<in> set (tasks n0 @ events n0). plain cb"
    and before: "login_step\<^sup>*\<^sup>* (n0, r0) (n, r)"
    and taken: "d_take (n_disp n) = (Some t, disp)" "tk_callback t = Delegate p name password clientIp version"
    and run: "dispatch_task now env H rnd (n, r) = Some (n1, r1)" and later: "login_step\<^sup>*\<^sup>* (n1, r1) (n2, r2)"
  shows "Delegate p name' password' clientIp' version' \<notin> set (tasks n2)"
proof -
  have inv: "once n" using advances_once [OF advances_run [OF before]] once_start [OF start] by simp
  note pop = take_pops [OF taken(1)]
  have "logins n p = logins (pop_task n) p + 1" using pop(2) taken(2) by (simp add: logins_def)
  then have p: "p < n_nextProto n" "logins (pop_task n) p = 0"
    using onceD(1,2) [OF inv, of p] by (cases "p < n_nextProto n"; simp)+
  note after = advances_taken [OF inv taken(1) run]
  have "advances (pop_task n) n2"
    using advances_trans [OF after] advances_run [OF later] advances_once [OF after] by simp
  then have "logins n2 p \<le> logins (pop_task n) p" using p(1) by (simp add: advances_def)
  then have "logins n2 p = 0" using p(2) by simp
  then show ?thesis by (auto simp: logins_def filter_empty_conv)
qed

text \<open>The witness is the session of one client.\<close>

theorem login_carried_out_once_witness:
  "\<exists>n2 n3. tasks n2 = [Delegate 0 ''10'' ''secret'' (conn_getIP (n_conns demo_net 4)) 963] \<and>
     dispatch_task 0 session_env plain_hash (\<lambda>_. (0, 0)) (n2, Map.empty, login_db) = Some (n3, Map.empty, login_db) \<and>
     Delegate 0 ''10'' ''secret'' 0 963 \<notin> set (tasks n3)"
proof -
  let ?r = "(Map.empty, login_db) :: (u32 \<rightharpoonup> string) \<times> nat database" and ?rsa = "\<lambda>bs :: u8 list. Some (request_block demo_request demo_fill)"
  let ?content = "[FU8 0x14, FStr (''0'' @ newline_str), FU8 0x64, FU8 0, FU16 0]"
  let ?frame = "request_frame demo_request (replicate 128 7)"
  have pre: "length (replicate 128 7 :: u8 list) = 128" "?rsa (replicate 128 7) = Some (request_block demo_request demo_fill)"
    "\<And>bs to. ?rsa bs = Some to \<Longrightarrow> length to = 128" using demo_request_ok(2) by auto
  from request_way [of 4 demo_net session_env "[login_service]" login_service "replicate 128 7" ?rsa demo_request demo_fill] demo_net_accepting(1,2)
    demo_request_ok(1,3) pre obtain n1 n2 where n: "conn_parseHeader NoError (take 2 ?frame) 4 demo_net = Some n1"
    "conn_parsePacket session_env ?rsa [login_service] NoError (drop 2 ?frame) 4 n1 = Some n2" and acc: "accepted_by demo_request 4 demo_net n2" by metis
  obtain a cm1 where d: "delegate_decide session_env plain_hash (task_name demo_request) (lr_password demo_request) (conn_getIP (n_conns demo_net 4))
      (n_cm demo_net) Map.empty login_db = (Accept a, cm1, Map.empty, login_db)" "number a = 10" "premiumDays a = 0"
    using login_decides by (fastforce simp: session_env_def task_name_def demo_request_def)
  have reply: "login_reply session_env (\<lambda>_. (0, 0)) (Accept a) login_db = Some (?content, login_db)"
    unfolding session_env_def by (rule login_content) (use d in \<open>simp_all add: getNumber_def getString_def getBool_def new_config_def\<close>)
  have fits: "\<forall>f \<in> set ?content. field_ok f" "length (fields_bytes ?content) + 15 < NETWORK_BODY_SIZE"
    by (simp_all add: layout newline_str_def fields_bytes_def)
  have disp: "n_disp demo_net = new_dispatcher" by (simp add: demo_net_def)
  obtain n3 where n3: "dispatch_task 0 session_env plain_hash (\<lambda>_. (0, 0)) (n2, Map.empty, login_db) = Some (n3, Map.empty, login_db)"
    using dispatch_request [OF demo_net_accepting(1) acc demo_request_ok(1) disp demo_net_accepting(5) d(1) reply fits] by metis
  have queue: "d_take (n_disp n2) = (Some (createTask (Delegate 0 ''10'' ''secret'' (conn_getIP (n_conns demo_net 4)) 963)), new_dispatcher)"
    "tasks n2 = [Delegate 0 ''10'' ''secret'' (conn_getIP (n_conns demo_net 4)) 963]"
    using acc by (simp_all add: accepted_by_def demo_net_def new_dispatcher_def d_addTask_def d_take_def tasks_def createTask_def task_name_def demo_request_def)
  have "login_step\<^sup>*\<^sup>* (demo_net, ?r) (n2, ?r)"
    using login_step.header [OF n(1)] login_step.packet [OF n(2)] by (meson rtranclp.rtrancl_refl rtranclp.rtrancl_into_rtrancl)
  moreover have "cn_protocol (n_conns demo_net h) = None" "\<forall>cb \<in> set (tasks demo_net @ events demo_net). plain cb" for h
    by (simp_all add: demo_net_def new_connection_def tasks_def events_def new_dispatcher_def new_scheduler_def)
  ultimately have "Delegate 0 ''10'' ''secret'' 0 963 \<notin> set (tasks n3)"
    using login_carried_out_once [of demo_net ?r n2 ?r, OF _ _ _ queue(1) _ n3 rtranclp.rtrancl_refl] by (simp add: createTask_def)
  then show ?thesis using queue(2) n3 by blast
qed

end
