(* ===== verification/Platform.thy ===== *)
theory Platform
  imports Tools
begin

text \<open>
  The clock and byte-order helpers of \<open>otsystem.h\<close>. The operating system is a parameter: what
  \<open>gettimeofday\<close> fills in is an argument, and what \<open>nanosleep\<close> is given is the result.
\<close>

section \<open>The clock\<close>

definition OTSYS_TIME :: "int \<Rightarrow> int \<Rightarrow> int" where
  "OTSYS_TIME tv_sec tv_usec = c_div tv_usec 1000 + tv_sec * 1000"

text \<open>The seconds and nanoseconds that \<open>OTSYS_SLEEP\<close> gives to \<open>nanosleep\<close>.\<close>

definition OTSYS_SLEEP :: "int \<Rightarrow> int \<times> int" where
  "OTSYS_SLEEP n = (c_div n 1000, (n - c_div n 1000 * 1000) * 1000000)"

section \<open>Byte order\<close>

definition swap_uint32 :: "u32 \<Rightarrow> u32" where
  "swap_uint32 val =
     (let val = ((push_bit 8 val) AND 0xFF00FF00) OR ((drop_bit 8 val) AND 0xFF00FF)
      in (push_bit 16 val) OR (drop_bit 16 val))"

section \<open>Properties\<close>

text \<open>The clock is the time of day in milliseconds, rounded down.\<close>

lemma OTSYS_TIME_floor:
  assumes "0 \<le> tv_usec"
  shows "OTSYS_TIME tv_sec tv_usec = (tv_sec * 1000000 + tv_usec) div 1000"
  using assms by (simp add: OTSYS_TIME_def c_div_def)

lemma OTSYS_TIME_mono:
  assumes "0 \<le> u" "0 \<le> u'" "s * 1000000 + u \<le> s' * 1000000 + u'"
  shows "OTSYS_TIME s u \<le> OTSYS_TIME s' u'"
  using assms by (simp add: OTSYS_TIME_floor zdiv_mono1)

text \<open>A wait of \<open>n\<close> milliseconds, whose nanoseconds are in the range that \<open>nanosleep\<close> accepts.\<close>

lemma OTSYS_SLEEP_ok:
  assumes "0 \<le> n"
  shows "case OTSYS_SLEEP n of (sec, nsec) \<Rightarrow>
           0 \<le> sec \<and> 0 \<le> nsec \<and> nsec < 1000000000 \<and> sec * 1000000000 + nsec = n * 1000000"
proof -
  have "n div 1000 * 1000 + n mod 1000 = n" by simp
  then have "n div 1000 * 1000000000 + n mod 1000 * 1000000 = n * 1000000" by linarith
  then show ?thesis using assms by (auto simp: OTSYS_SLEEP_def c_div_def minus_div_mult_eq_mod)
qed

text \<open>The four bytes change places.\<close>

lemma swap_uint32_bit:
  "bit (swap_uint32 w) k \<longleftrightarrow> k < 32 \<and> bit w (8 * (3 - k div 8) + k mod 8)"
proof (cases "k < 32")
  case True
  have "\<forall>k \<in> {..<32}. bit (swap_uint32 w) k \<longleftrightarrow> bit w (8 * (3 - k div 8) + k mod 8)"
    by (simp add: swap_uint32_def Let_def bit_simps lessThan_nat_numeral lessThan_Suc
        numeral_2_eq_2 [symmetric])
  then show ?thesis using True by simp
qed (auto dest: bit_imp_le_length)

lemma swap_uint32_twice: "swap_uint32 (swap_uint32 w) = w"
proof (rule bit_eqI)
  fix k :: nat
  let ?i = "8 * (3 - k div 8) + k mod 8"
  assume "possible_bit TYPE(u32) k"
  then have k: "k < 32" by simp
  then have "k div 8 \<le> 3" by simp
  then have "?i < 32" "?i div 8 = 3 - k div 8" "?i mod 8 = k mod 8" by auto
  moreover have "8 * (3 - (3 - k div 8)) + k mod 8 = k" using \<open>k div 8 \<le> 3\<close> by simp
  ultimately show "bit (swap_uint32 (swap_uint32 w)) k \<longleftrightarrow> bit w k"
    using k by (simp add: swap_uint32_bit)
qed

end
