(* ===== verification/Numbers.thy ===== *)
theory Numbers
  imports Tools Complex_Main
begin

text \<open>
  The helpers of \<open>tools.h\<close> and \<open>tools.cpp\<close> on floating-point and on random numbers, and the texts of numbers.

  The arithmetic of the machine is a parameter: \<open>'f\<close> stands for \<open>float\<close>, \<open>'d\<close> for \<open>double\<close>, and every
  operation the code uses, each with its own rounding, is a field of \<open>fpu\<close>. The values that \<open>rand()\<close> returns are a
  sequence, of which the state counts how many have been used. A float that is converted to \<open>int32_t\<close> without being
  in its range is \<open>None\<close>, as is a loop that does not end.
\<close>

section \<open>The arithmetic of the machine\<close>

text \<open>
  \<open>f_sqrt\<close> and \<open>f_log\<close> give the result for a float as a double: which overload C++ takes is part of the
  parameter, since a float is also a double.
\<close>

record ('f, 'd) fpu =
  f_of_int :: "int \<Rightarrow> 'f"
  f_to_int :: "'f \<Rightarrow> int option"
  f_floor :: "'f \<Rightarrow> 'f"
  f_add :: "'f \<Rightarrow> 'f \<Rightarrow> 'f"
  f_sub :: "'f \<Rightarrow> 'f \<Rightarrow> 'f"
  f_mul :: "'f \<Rightarrow> 'f \<Rightarrow> 'f"
  f_div :: "'f \<Rightarrow> 'f \<Rightarrow> 'f"
  f_less :: "'f \<Rightarrow> 'f \<Rightarrow> bool"
  f_sqrt :: "'f \<Rightarrow> 'd"
  f_log :: "'f \<Rightarrow> 'd"
  f_of_d :: "'d \<Rightarrow> 'f"
  d_of_f :: "'f \<Rightarrow> 'd"
  d_lit :: "rat \<Rightarrow> 'd"
  d_sub :: "'d \<Rightarrow> 'd \<Rightarrow> 'd"
  d_mul :: "'d \<Rightarrow> 'd \<Rightarrow> 'd"
  d_div :: "'d \<Rightarrow> 'd \<Rightarrow> 'd"
  d_less :: "'d \<Rightarrow> 'd \<Rightarrow> bool"
  d_le :: "'d \<Rightarrow> 'd \<Rightarrow> bool"
  d_sqrt :: "'d \<Rightarrow> 'd"

definition roundValue :: "('f, 'd) fpu \<Rightarrow> 'f \<Rightarrow> int option" where
  "roundValue fpu v = do {
     t \<leftarrow> f_to_int fpu (f_floor fpu v);
     Some (if d_less fpu (d_lit fpu (1 / 2)) (d_of_f fpu (f_sub fpu v (f_of_int fpu t))) then t + 1 else t)
   }"

section \<open>Random numbers\<close>

text \<open>How many numbers have been used, and the two static variables of \<open>box_muller\<close>.\<close>

record 'f random_state =
  rs_used :: nat
  rs_useLast :: bool
  rs_y2 :: 'f

definition RAND_MAX :: int where "RAND_MAX = 2147483647"

text \<open>A point of the square, from two random numbers, and its distance from the middle, squared.\<close>

definition box_point :: "('f, 'd) fpu \<Rightarrow> (nat \<Rightarrow> int) \<Rightarrow> nat \<Rightarrow> 'f \<times> 'f \<times> 'f" where
  "box_point fpu rand k =
     (let r1 = d_of_f fpu (f_div fpu (f_of_int fpu (rand k)) (f_of_int fpu RAND_MAX));
          r2 = d_of_f fpu (f_div fpu (f_of_int fpu (rand (k + 1))) (f_of_int fpu RAND_MAX));
          x1 = f_of_d fpu (d_sub fpu (d_mul fpu (d_lit fpu 2) r1) (d_lit fpu 1));
          x2 = f_of_d fpu (d_sub fpu (d_mul fpu (d_lit fpu 2) r2) (d_lit fpu 1))
      in (x1, x2, f_add fpu (f_mul fpu x1 x1) (f_mul fpu x2 x2)))"

partial_function (option) box_loop :: "('f, 'd) fpu \<Rightarrow> (nat \<Rightarrow> int) \<Rightarrow> nat \<Rightarrow> (('f \<times> 'f \<times> 'f) \<times> nat) option" where
  "box_loop fpu rand k =
     (case box_point fpu rand k of (x1, x2, w) \<Rightarrow>
        if d_le fpu (d_lit fpu 1) (d_of_f fpu w) then box_loop fpu rand (k + 2) else Some ((x1, x2, w), k + 2))"

definition box_muller :: "('f, 'd) fpu \<Rightarrow> (nat \<Rightarrow> int) \<Rightarrow> 'f \<Rightarrow> 'f \<Rightarrow> 'f random_state \<Rightarrow> ('f \<times> 'f random_state) option" where
  "box_muller fpu rand m s st =
     (if rs_useLast st then Some (f_add fpu m (f_mul fpu (rs_y2 st) s), st\<lparr>rs_useLast := False\<rparr>)
      else do {
        ((x1, x2, w), k) \<leftarrow> box_loop fpu rand (rs_used st);
        let w = f_of_d fpu (d_sqrt fpu (d_div fpu (d_mul fpu (d_lit fpu (- 2)) (f_log fpu w)) (d_of_f fpu w)));
        let y1 = f_mul fpu x1 w;
        Some (f_add fpu m (f_mul fpu y1 s), \<lparr>rs_used = k, rs_useLast = True, rs_y2 = f_mul fpu x2 w\<rparr>)
      })"

datatype distribution = DISTRO_UNIFORM | DISTRO_SQUARE | DISTRO_NORMAL

definition f_max :: "('f, 'd) fpu \<Rightarrow> 'f \<Rightarrow> 'f \<Rightarrow> 'f" where
  "f_max fpu a b = (if f_less fpu a b then b else a)"

definition f_min :: "('f, 'd) fpu \<Rightarrow> 'f \<Rightarrow> 'f \<Rightarrow> 'f" where
  "f_min fpu a b = (if f_less fpu b a then b else a)"

text \<open>The number of \<open>float(highestNumber - lowestNumber)\<close> parts that belongs to a share of the range.\<close>

definition share_of :: "('f, 'd) fpu \<Rightarrow> int \<Rightarrow> int \<Rightarrow> 'f \<Rightarrow> int option" where
  "share_of fpu lo hi u = map_option (\<lambda>i. lo + i) (f_to_int fpu (f_mul fpu (f_of_int fpu (hi - lo)) u))"

definition random_range_of :: "('f, 'd) fpu \<Rightarrow> (nat \<Rightarrow> int) \<Rightarrow> int \<Rightarrow> int \<Rightarrow> distribution \<Rightarrow> 'f random_state \<Rightarrow> (int \<times> 'f random_state) option" where
  "random_range_of fpu rand lowestNumber highestNumber type st =
     (if highestNumber = lowestNumber then Some (lowestNumber, st)
      else let (lo, hi) = (if lowestNumber > highestNumber then (highestNumber, lowestNumber) else (lowestNumber, highestNumber));
               k = rs_used st;
               zero = f_of_int fpu 0;
               one = f_of_int fpu 1
      in case type of
           DISTRO_UNIFORM \<Rightarrow> Some (random_range (rand k) (rand (k + 1)) lo hi, st\<lparr>rs_used := k + 2\<rparr>)
         | DISTRO_NORMAL \<Rightarrow> do {
             (b, st) \<leftarrow> box_muller fpu rand (f_of_d fpu (d_lit fpu (1 / 2))) (f_of_d fpu (d_lit fpu (1 / 4))) st;
             x \<leftarrow> share_of fpu lo hi (f_min fpu one (f_max fpu zero b));
             Some (x, st)
           }
         | DISTRO_SQUARE \<Rightarrow> do {
             let r = f_div fpu (f_mul fpu one (f_of_int fpu (uint (rand24b (rand k) (rand (k + 1)))))) (f_of_int fpu 16777216);
             x \<leftarrow> share_of fpu lo hi (f_of_d fpu (d_sub fpu (d_of_f fpu one) (f_sqrt fpu r)));
             Some (x, st\<lparr>rs_used := k + 2\<rparr>)
           })"

section \<open>Texts of numbers\<close>

text \<open>\<open>asString\<close> and \<open>fromString\<close> at \<open>int32_t\<close>: a text of white space leaves the result without a value.\<close>

definition asString :: "int \<Rightarrow> string" where
  "asString n = show_int n"

definition fromString :: "string \<Rightarrow> int option" where
  "fromString s =
     (if dropWhile is_space_char s = [] then None
      else Some (max (- (2 ^ 31)) (min (2 ^ 31 - 1) (strtol s))))"

section \<open>Files\<close>

text \<open>What \<open>boost::filesystem\<close> knows of a path is a parameter.\<close>

definition fileExists :: "(string \<Rightarrow> bool) \<Rightarrow> string \<Rightarrow> bool" where
  "fileExists exists_path filename = exists_path filename"

section \<open>Properties of texts\<close>

lemma strtol_negative:
  assumes "n < 2 ^ 63"
  shows "strtol (CHR ''-'' # show_nat n) = - int n"
proof -
  have "\<not> is_space_char CHR ''-''" by code_simp
  then show ?thesis using assms by (simp add: strtol_def Let_def read_digits_show_nat max_def min_def)
qed

lemma show_nat_no_space:
  obtains c cs where "show_nat n = c # cs" "\<not> is_space_char c"
proof -
  obtain c cs where s: "show_nat n = c # cs" by (cases "show_nat n") auto
  then have "is_digit_char c" using show_nat_digits [of c n] by simp
  then have "\<not> is_space_char c" by (auto simp: is_digit_char_def is_space_char_def Let_def)
  then show ?thesis using that s by blast
qed

text \<open>A number that is written is read back.\<close>

lemma fromString_asString:
  assumes "- (2 ^ 31) \<le> n" "n < 2 ^ 31"
  shows "fromString (asString n) = Some n"
proof (cases "n < 0")
  case True
  have "\<not> is_space_char CHR ''-''" by code_simp
  moreover have "strtol (CHR ''-'' # show_nat (nat (- n))) = n" using strtol_negative [of "nat (- n)"] True assms by simp
  ultimately show ?thesis using True assms by (simp add: fromString_def asString_def show_int_def)
next
  case False
  obtain c cs where "show_nat (nat n) = c # cs" "\<not> is_space_char c" by (rule show_nat_no_space)
  then show ?thesis using strtol_show_nat [of "nat n"] False assms by (simp add: fromString_def asString_def show_int_def)
qed

section \<open>Properties of random numbers\<close>

text \<open>
  What IEEE 754 demands of the operations, with \<open>fv\<close> and \<open>dv\<close> for the value of a float and of a double that is a
  finite number: integers up to \<open>2^24\<close> are exact, comparisons are those of the values, a product with 1 is exact, and rounding
  never leaves an interval whose ends are floats.
\<close>

definition fpu_laws :: "('f, 'd) fpu \<Rightarrow> ('f \<Rightarrow> rat option) \<Rightarrow> ('d \<Rightarrow> rat option) \<Rightarrow> bool" where
  "fpu_laws fpu fv dv \<longleftrightarrow>
     (\<forall>n. 0 \<le> n \<and> n \<le> 2 ^ 24 \<longrightarrow> fv (f_of_int fpu n) = Some (of_int n)) \<and>
     (\<forall>a u. fv a = Some u \<and> 0 \<le> u \<and> u \<le> 2 ^ 24 \<longrightarrow> f_to_int fpu a = Some \<lfloor>u\<rfloor>) \<and>
     (\<forall>a b u v. fv a = Some u \<and> fv b = Some v \<longrightarrow> (f_less fpu a b \<longleftrightarrow> u < v)) \<and>
     (\<forall>a b x u v. fv a = Some u \<and> fv b = Some v \<and> f_less fpu a x \<and> f_less fpu x b \<longrightarrow> fv x \<noteq> None) \<and>
     (\<forall>a b u v. fv a = Some u \<and> fv b = Some v \<and> 0 \<le> u \<and> 0 \<le> v \<and> v \<le> 1 \<longrightarrow> (\<exists>w. fv (f_mul fpu a b) = Some w \<and> 0 \<le> w \<and> w \<le> u)) \<and>
     (\<forall>a u. fv a = Some u \<longrightarrow> fv (f_mul fpu (f_of_int fpu 1) a) = Some u) \<and>
     (\<forall>a b u v. fv a = Some u \<and> fv b = Some v \<and> 0 \<le> u \<and> u \<le> v \<and> 0 < v \<longrightarrow> (\<exists>w. fv (f_div fpu a b) = Some w \<and> 0 \<le> w \<and> w \<le> 1)) \<and>
     (\<forall>a u. fv a = Some u \<and> 0 \<le> u \<and> u \<le> 1 \<longrightarrow> (\<exists>w. dv (f_sqrt fpu a) = Some w \<and> 0 \<le> w \<and> w \<le> 1)) \<and>
     (\<forall>a u. dv a = Some u \<and> 0 \<le> u \<and> u \<le> 1 \<longrightarrow>
        (\<exists>w. dv (d_sub fpu (d_of_f fpu (f_of_int fpu 1)) a) = Some w \<and> 0 \<le> w \<and> w \<le> 1)) \<and>
     (\<forall>a u. dv a = Some u \<and> 0 \<le> u \<and> u \<le> 1 \<longrightarrow> (\<exists>w. fv (f_of_d fpu a) = Some w \<and> 0 \<le> w \<and> w \<le> 1))"

lemma fpu_lawsD:
  assumes "fpu_laws fpu fv dv"
  shows "0 \<le> n \<Longrightarrow> n \<le> 2 ^ 24 \<Longrightarrow> fv (f_of_int fpu n) = Some (of_int n)"
    and "fv a = Some u \<Longrightarrow> 0 \<le> u \<Longrightarrow> u \<le> 2 ^ 24 \<Longrightarrow> f_to_int fpu a = Some \<lfloor>u\<rfloor>"
    and "fv a = Some u \<Longrightarrow> fv b = Some v \<Longrightarrow> f_less fpu a b \<longleftrightarrow> u < v"
    and "fv a = Some u \<Longrightarrow> fv b = Some v \<Longrightarrow> f_less fpu a x \<Longrightarrow> f_less fpu x b \<Longrightarrow> fv x \<noteq> None"
    and "fv a = Some u \<Longrightarrow> fv b = Some v \<Longrightarrow> 0 \<le> u \<Longrightarrow> 0 \<le> v \<Longrightarrow> v \<le> 1 \<Longrightarrow> \<exists>w. fv (f_mul fpu a b) = Some w \<and> 0 \<le> w \<and> w \<le> u"
    and "fv a = Some u \<Longrightarrow> fv (f_mul fpu (f_of_int fpu 1) a) = Some u"
    and "fv a = Some u \<Longrightarrow> fv b = Some v \<Longrightarrow> 0 \<le> u \<Longrightarrow> u \<le> v \<Longrightarrow> 0 < v \<Longrightarrow> \<exists>w. fv (f_div fpu a b) = Some w \<and> 0 \<le> w \<and> w \<le> 1"
    and "fv a = Some u \<Longrightarrow> 0 \<le> u \<Longrightarrow> u \<le> 1 \<Longrightarrow> \<exists>w. dv (f_sqrt fpu a) = Some w \<and> 0 \<le> w \<and> w \<le> 1"
    and "dv d = Some u \<Longrightarrow> 0 \<le> u \<Longrightarrow> u \<le> 1 \<Longrightarrow> \<exists>w. dv (d_sub fpu (d_of_f fpu (f_of_int fpu 1)) d) = Some w \<and> 0 \<le> w \<and> w \<le> 1"
    and "dv d = Some u \<Longrightarrow> 0 \<le> u \<Longrightarrow> u \<le> 1 \<Longrightarrow> \<exists>w. fv (f_of_d fpu d) = Some w \<and> 0 \<le> w \<and> w \<le> 1"
  using assms unfolding fpu_laws_def by meson+

lemma share_in_range:
  assumes laws: "fpu_laws fpu fv dv" and u: "fv u = Some v" "0 \<le> v" "v \<le> 1" and range: "0 \<le> hi - lo" "hi - lo \<le> 2 ^ 24"
  shows "\<exists>x. share_of fpu lo hi u = Some x \<and> lo \<le> x \<and> x \<le> hi"
proof -
  note d = fpu_lawsD [OF laws]
  have n: "fv (f_of_int fpu (hi - lo)) = Some (of_int (hi - lo))" "(0 :: rat) \<le> of_int (hi - lo)" using range d(1) by simp_all
  obtain w where w: "fv (f_mul fpu (f_of_int fpu (hi - lo)) u) = Some w" "0 \<le> w" "w \<le> of_int (hi - lo)"
    using d(5) [OF n(1) u(1) n(2) u(2,3)] by blast
  have "(of_int (hi - lo) :: rat) \<le> of_int (2 ^ 24)" unfolding of_int_le_iff by (rule range(2))
  then have "f_to_int fpu (f_mul fpu (f_of_int fpu (hi - lo)) u) = Some \<lfloor>w\<rfloor>" using w by (intro d(2)) simp_all
  moreover have "0 \<le> \<lfloor>w\<rfloor>" using w(2) by simp
  moreover have "\<lfloor>w\<rfloor> \<le> hi - lo" using floor_mono [OF w(3)] by simp
  ultimately show ?thesis by (simp add: share_of_def)
qed

text \<open>The clamped value is between 0 and 1, whatever float it comes from, the infinite ones and those that are no number included.\<close>

lemma clamp_in_range:
  assumes laws: "fpu_laws fpu fv dv"
  shows "\<exists>v. fv (f_min fpu (f_of_int fpu 1) (f_max fpu (f_of_int fpu 0) b)) = Some v \<and> 0 \<le> v \<and> v \<le> 1"
proof -
  note d = fpu_lawsD [OF laws]
  have ends: "fv (f_of_int fpu 0) = Some 0" "fv (f_of_int fpu 1) = Some 1" using d(1) [of 0] d(1) [of 1] by simp_all
  show ?thesis
  proof (cases "f_less fpu (f_of_int fpu 0) b \<and> f_less fpu b (f_of_int fpu 1)")
    case True
    then obtain v where v: "fv b = Some v" using d(4) [OF ends, of b] by blast
    then have "0 < v" "v < 1" using True d(3) [OF ends(1) v] d(3) [OF v ends(2)] by simp_all
    then show ?thesis using True v by (simp add: f_min_def f_max_def)
  next
    case False
    have "\<not> f_less fpu (f_of_int fpu 0) (f_of_int fpu 0)" using d(3) [OF ends(1) ends(1)] by simp
    then have "f_min fpu (f_of_int fpu 1) (f_max fpu (f_of_int fpu 0) b) = f_of_int fpu 0 \<or>
        f_min fpu (f_of_int fpu 1) (f_max fpu (f_of_int fpu 0) b) = f_of_int fpu 1"
      using False by (auto simp: f_min_def f_max_def)
    then show ?thesis using ends by auto
  qed
qed

lemma rand24b_less: "uint (rand24b i j) < 2 ^ 24"
proof -
  have "rand24b i j = take_bit 24 (push_bit 12 (u32_of_int i) XOR u32_of_int j)"
    by (simp add: rand24b_def take_bit_eq_mask mask_eq_exp_minus_1)
  moreover have "uint (take_bit 24 w) < 2 ^ 24" for w :: u32 using take_bit_int_less_exp [of 24 "uint w"] by (simp add: unsigned_take_bit_eq)
  ultimately show ?thesis by metis
qed

lemma root_in_range:
  assumes laws: "fpu_laws fpu fv dv"
  shows "\<exists>v. fv (f_of_d fpu (d_sub fpu (d_of_f fpu (f_of_int fpu 1))
       (f_sqrt fpu (f_div fpu (f_mul fpu (f_of_int fpu 1) (f_of_int fpu (uint (rand24b i j)))) (f_of_int fpu 16777216))))) = Some v \<and> 0 \<le> v \<and> v \<le> 1"
proof -
  note d = fpu_lawsD [OF laws]
  define n where "n = uint (rand24b i j)"
  have n: "0 \<le> n" "n \<le> 2 ^ 24" using rand24b_less [of i j] by (simp_all add: n_def)
  have a: "fv (f_mul fpu (f_of_int fpu 1) (f_of_int fpu n)) = Some (of_int n)" by (rule d(6) [OF d(1) [OF n]])
  have b: "fv (f_of_int fpu 16777216) = Some (of_int 16777216)" by (rule d(1)) simp_all
  have "(of_int n :: rat) \<le> of_int 16777216" unfolding of_int_le_iff using n(2) by simp
  then obtain w where w: "fv (f_div fpu (f_mul fpu (f_of_int fpu 1) (f_of_int fpu n)) (f_of_int fpu 16777216)) = Some w" "0 \<le> w" "w \<le> 1"
    using d(7) [OF a b] n(1) by auto
  from d(8) [OF w] obtain w1 where w1: "dv (f_sqrt fpu (f_div fpu (f_mul fpu (f_of_int fpu 1) (f_of_int fpu n)) (f_of_int fpu 16777216))) = Some w1"
    "0 \<le> w1" "w1 \<le> 1" by blast
  from d(9) [OF w1] obtain w2 where w2: "dv (d_sub fpu (d_of_f fpu (f_of_int fpu 1))
      (f_sqrt fpu (f_div fpu (f_mul fpu (f_of_int fpu 1) (f_of_int fpu n)) (f_of_int fpu 16777216)))) = Some w2" "0 \<le> w2" "w2 \<le> 1" by blast
  from d(10) [OF w2] show ?thesis unfolding n_def .
qed

text \<open>The loop ends when some later pair of random numbers is a point inside the circle.\<close>

definition inside :: "('f, 'd) fpu \<Rightarrow> (nat \<Rightarrow> int) \<Rightarrow> nat \<Rightarrow> bool" where
  "inside fpu rand k \<longleftrightarrow> (case box_point fpu rand k of (x1, x2, w) \<Rightarrow> \<not> d_le fpu (d_lit fpu 1) (d_of_f fpu w))"

lemma box_loop_returns: "inside fpu rand (k + 2 * j) \<Longrightarrow> \<exists>r. box_loop fpu rand k = Some r"
proof (induction j arbitrary: k)
  case 0
  then show ?case by (subst box_loop.simps) (auto simp: inside_def split: prod.splits)
next
  case (Suc j)
  then have "\<exists>r. box_loop fpu rand (k + 2) = Some r" using Suc.IH [of "k + 2"] by (simp add: add.commute add.left_commute)
  then show ?case by (subst box_loop.simps) (auto split: prod.split)
qed

lemma box_muller_returns:
  assumes "rs_useLast st \<or> (\<exists>j. inside fpu rand (rs_used st + 2 * j))"
  shows "\<exists>r. box_muller fpu rand m s st = Some r"
proof (cases "rs_useLast st")
  case False
  then obtain r where "box_loop fpu rand (rs_used st) = Some r" using assms box_loop_returns by blast
  then show ?thesis using False by (cases r) (auto simp: box_muller_def Let_def)
qed (simp add: box_muller_def)

text \<open>C38. With every distribution \<open>random_range\<close> returns a number of the range, in whichever order its ends are given, when
  the range has at most \<open>2^24\<close> steps; the normal distribution needs a random point in the circle for that, and
  stays in the range even when its variable is infinite or no number.\<close>

theorem random_range_in_range:
  assumes laws: "fpu_laws fpu fv dv" and range: "\<bar>highestNumber - lowestNumber\<bar> \<le> 2 ^ 24"
    and point: "type = DISTRO_NORMAL \<Longrightarrow> rs_useLast st \<or> (\<exists>j. inside fpu rand (rs_used st + 2 * j))"
  shows "\<exists>x st'. random_range_of fpu rand lowestNumber highestNumber type st = Some (x, st') \<and>
     min lowestNumber highestNumber \<le> x \<and> x \<le> max lowestNumber highestNumber"
proof (cases "highestNumber = lowestNumber")
  case False
  define lo hi where "lo = min lowestNumber highestNumber" and "hi = max lowestNumber highestNumber"
  have ends: "(if lowestNumber > highestNumber then (highestNumber, lowestNumber) else (lowestNumber, highestNumber)) = (lo, hi)"
    by (simp add: lo_def hi_def)
  have r: "0 \<le> hi - lo" "hi - lo \<le> 2 ^ 24" "lo \<le> hi" using range by (auto simp: lo_def hi_def)
  show ?thesis
  proof (cases type)
    case DISTRO_UNIFORM
    then show ?thesis using False random_range_bounds [OF r(3)] unfolding random_range_of_def ends by (simp add: Let_def lo_def hi_def)
  next
    case DISTRO_SQUARE
    let ?k = "rs_used st"
    obtain v where "fv (f_of_d fpu (d_sub fpu (d_of_f fpu (f_of_int fpu 1)) (f_sqrt fpu (f_div fpu (f_mul fpu (f_of_int fpu 1)
        (f_of_int fpu (uint (rand24b (rand ?k) (rand (?k + 1)))))) (f_of_int fpu 16777216))))) = Some v" "0 \<le> v" "v \<le> 1"
      using root_in_range [OF laws] by blast
    from share_in_range [OF laws this r(1,2)] show ?thesis
      using False DISTRO_SQUARE unfolding random_range_of_def ends by (auto simp: Let_def lo_def hi_def)
  next
    case DISTRO_NORMAL
    obtain b st' where b: "box_muller fpu rand (f_of_d fpu (d_lit fpu (1 / 2))) (f_of_d fpu (d_lit fpu (1 / 4))) st = Some (b, st')"
      using box_muller_returns [OF point [OF DISTRO_NORMAL]] by (metis surj_pair)
    obtain v where "fv (f_min fpu (f_of_int fpu 1) (f_max fpu (f_of_int fpu 0) b)) = Some v" "0 \<le> v" "v \<le> 1"
      using clamp_in_range [OF laws] by blast
    from share_in_range [OF laws this r(1,2)] show ?thesis
      using False DISTRO_NORMAL b unfolding random_range_of_def ends by (auto simp: Let_def lo_def hi_def)
  qed
qed (simp add: random_range_of_def)

text \<open>The witness: arithmetic without rounding, and a variable far above the range.\<close>

definition exact_fpu :: "(rat, rat) fpu" where
  "exact_fpu = \<lparr>f_of_int = of_int, f_to_int = (\<lambda>v. Some (if 0 \<le> v then \<lfloor>v\<rfloor> else \<lceil>v\<rceil>)), f_floor = (\<lambda>v. of_int \<lfloor>v\<rfloor>), f_add = (+), f_sub = (-),
     f_mul = (*), f_div = (/), f_less = (<), f_sqrt = id, f_log = id, f_of_d = id, d_of_f = id, d_lit = id, d_sub = (-), d_mul = (*),
     d_div = (/), d_less = (<), d_le = (\<le>), d_sqrt = id\<rparr>"

lemma exact_fpu_laws: "fpu_laws exact_fpu Some Some"
  unfolding fpu_laws_def by (auto simp: exact_fpu_def intro: mult_right_le_one_le)

theorem random_range_in_range_witness:
  "\<exists>st'. random_range_of exact_fpu (\<lambda>_. 0) 20 10 DISTRO_NORMAL \<lparr>rs_used = 0, rs_useLast = True, rs_y2 = 3\<rparr> = Some (20, st')"
proof -
  let ?st = "\<lparr>rs_used = 0, rs_useLast = True, rs_y2 = 3 :: rat\<rparr>"
  have "\<exists>x st'. random_range_of exact_fpu (\<lambda>_. 0) 20 10 DISTRO_NORMAL ?st = Some (x, st') \<and> min 20 10 \<le> x \<and> x \<le> max 20 10"
    by (rule random_range_in_range [OF exact_fpu_laws]) simp_all
  moreover have "map_option fst (random_range_of exact_fpu (\<lambda>_. 0) 20 10 DISTRO_NORMAL ?st) = Some 20"
    by (simp add: random_range_of_def box_muller_def share_of_def f_min_def f_max_def exact_fpu_def)
  ultimately show ?thesis by auto
qed

end
