(* ===== verification/Spec2Isabelle.thy ===== *)
theory Spec2Isabelle
  imports Main_Program Message_Pool Login_Once Platform Numbers
begin

text \<open>
  A verification development of the login server in \<open>src/src\<close>: a daemon that accepts game clients on
  one TCP port, reads one RSA- and XTEA-protected packet from each, checks the account against a
  MySQL database, and answers with the list of characters or a refusal.

  \<^bold>\<open>The program.\<close> \<open>otlogin.cpp\<close> reads the command line, loads \<open>config.json\<close> and \<open>worlds.json\<close>, checks the RSA key,
  connects to the database and opens the port. Asynchronous I/O completes on the main thread and
  drives ports (\<open>net/server\<close>) and connections (\<open>net/connection\<close>); these hand work to the dispatcher
  thread (\<open>tasks\<close>) and to the scheduler thread (\<open>scheduler\<close>). A connection parses a header and a packet into
  its message buffer (\<open>net/networkmessage\<close>) and gives the first packet to a login protocol
  (\<open>protocol/protocol\<close>, \<open>protocol/protocollogin\<close>), which posts the login task. The task asks \<open>io/io\<close> and the
  connection manager, and writes its answer into a message of the output pool
  (\<open>net/outputmessage\<close>), which the connection encrypts, frames and writes.

  \<^bold>\<open>The theories\<close>, from the leaves up; each opens with what it models.
  \<^item> \<open>Prelude\<close>: words and byte strings, bounded memory access as \<open>option\<close>, ordered maps, decimal numbers, and
    the locales \<open>std_map\<close>, \<open>guarded_machine\<close>, \<open>stepwise_inverse\<close> and \<open>simulation\<close>, interpreted on the model below.
  \<^item> \<open>Definitions\<close> (\<open>definitions.h\<close>), \<open>Tools\<close> (\<open>tools.cpp\<close>): constants; strings, splitting, hashes, Adler-32.
    \<open>Numbers\<close> (\<open>tools.h\<close>, \<open>tools.cpp\<close>): floating-point and random numbers, the texts of numbers.
  \<^item> \<open>Network_Message\<close>, \<open>Output_Message\<close>: the record of a message (buffer, position, size) and every read, write and header
    operation; \<open>None\<close> is an access outside the buffer. The trace of a debug build is in \<open>Output_Message\<close>.
  \<^item> \<open>Xtea\<close>, \<open>Protocol\<close> (\<open>protocol.cpp\<close>): the cipher on bytes and words, padding, frames, \<open>RSA_decrypt\<close>.
  \<^item> \<open>Config_Manager\<close>, \<open>Worlds\<close>: settings as functions from their enumerations, JSON as a datatype.
  \<^item> \<open>Database\<close>, \<open>Db_Workers\<close> (\<open>database.cpp\<close>): one connection with its results, inserts and transactions; the worker
    pool as a step relation.
  \<^item> \<open>Io\<close> (\<open>io/io.cpp\<close>): accounts, bans, premium time.
  \<^item> \<open>Connection_Manager\<close>: the list of connections, the flood guard and the login attempts.
  \<^item> \<open>Dispatcher\<close>, \<open>Scheduler\<close>: task queue and event queue, each with its thread as a step relation.
  \<^item> \<open>Network\<close>: the object store (connections, protocols, messages by number) and every handler of
    \<open>Connection\<close> and \<open>OutputMessagePool\<close>; a deleted protocol is \<open>None\<close>. \<open>Connection\<close> and \<open>Message_Pool\<close> hold its properties.
  \<^item> \<open>Protocol_Login\<close>: \<open>onRecvFirstMessage\<close>, the decision and the answer of \<open>delegate\<close>.
  \<^item> \<open>Session\<close>: \<open>parsePacket\<close> and the choice of a protocol. \<open>Server\<close>: ports, accepts, the service manager.
  \<^item> \<open>Rsa_Key\<close>, \<open>Process\<close>, \<open>Startup\<close> (\<open>otlogin.cpp\<close>): the key with the numbers calculated for it, the settings, the terminal and the
    exits of the process, the command line and the loading. \<open>Main_Program\<close>: \<open>main\<close> and all its threads as one step relation.
  \<^item> \<open>Login_System\<close>: connections, protocols, dispatcher and scheduler together, as one step relation.
  \<^item> \<open>Login_Once\<close>: how often the task of one login is queued along the runs of \<open>Login_System\<close>.
  \<^item> \<open>Login_Client\<close>: an honest client, which builds a request and reads the answer, and what the server makes of it.
  \<^item> \<open>Platform\<close> (\<open>otsystem.h\<close>): clock, sleep and byte order.
  \<^item> \<open>Text_Logger\<close> (\<open>textlogger.cpp\<close>, dates of \<open>tools.cpp\<close>): log files and the handler of the standard streams.

  \<^bold>\<open>What is shown.\<close>
  \<^item> The login: a whole session of an honest client, from the accept to the answer that it reads with its own
    key (this theory); who is accepted; that a request is understood as it was meant; that exactly one
    answer is written and the connection closed; that a login carried out is never carried out again.
  \<^item> The wire: the frame format, Adler-32 against its definition, XTEA in place against the block cipher,
    fields written and read back, a message as an implementation of a bounded builder.
  \<^item> Robustness: no message operation, header or first packet of a peer leaves a buffer or uses a
    deleted object; reference counters are exact, so no protocol is deleted under a message, and
    queued tasks find their protocol alive because a close never overtakes a login task;
    connection states only move forward; the flood guard; SQL text stays inside its literal;
    a thread leaves no session at the database behind.
  \<^item> Threads: dispatcher and worker pool lose and repeat no task and get to the next one; timed events
    are not early. Random numbers stay in their range for any arithmetic that rounds as IEEE 754 demands.
  \<^item> Start and services: that the key decrypts, what a successful start guarantees, that the program can always go
    online, what opening a port does, which peers are
    served, and that ports stay exclusive. Logging: whole lines only, none lost.
  \<^item> Limits of the code, proved as such: a connection closed during a write is never released, the first
    event of an empty scheduler is not delayed, a long message of the day overflows its buffer, the login
    lock never engages, a failed reconnection is final, shutdowns can leave a thread waiting, a port that
    cannot be bound is given up after one retry, an option without a value reads past a vector; \<open>main\<close> never
    returns, and the signal of the loader can be lost.

  \<^bold>\<open>Parameters and bounds.\<close> OpenSSL (digests, large numbers, RSA, the key check), the MySQL client, the JSON parser, the file
  system, the Discord request, clocks, random numbers, the floating-point arithmetic of the machine,
  the terminal and \<open>bind\<close> are arguments of the definitions
  that use them. Integers keep their width wherever the code could wrap; lists stand for buffers
  of \<open>NETWORK_MAX_SIZE\<close> bytes. Loops are structural or have a termination proof; those that can diverge
  (\<open>replaceString\<close>, \<open>explodeString\<close> with an empty separator, the loop of \<open>box_muller\<close>) are a \<open>partial_function\<close> into \<open>option\<close>, with
  theorems that they return. No fuel is used. Counters of objects are assumed below \<open>2^32\<close> where stated.

  \<^bold>\<open>Not modelled.\<close> The log calls inside the handlers and the progress messages of the start; platform macros; usage
  texts; the signal settings of \<open>otlogin.cpp\<close>, and \<open>fork\<close> beyond its result; texts of floating-point numbers; exceptions thrown while an asynchronous operation is started.
  Handlers of connections and of the pool run under their locks and are single steps, and in \<open>Login_System\<close>
  so is the callback of a task; data races outside the locks are not considered.
\<close>

section \<open>From the login to the screen of the client\<close>

text \<open>The answer arrives: when the login task of a client with a session key runs, exactly one frame is
  written, and the client that checks and decrypts it reads exactly the fields of the answer:
  the character list when it may enter, the refusal otherwise.\<close>

theorem login_reply_reaches_client:
  assumes ready: "reply_ready p pr h n" and enc: "m_checksumEnabled pr" "m_encryptionEnabled pr"
    and decided: "delegate_decide env H name password clientIp (n_cm n) cache db = (d, cm1, cache1, db1)"
    and reply: "login_reply env rnd d db1 = Some (content, db2)"
    and fits: "\<forall>f \<in> set content. field_ok f" "length (fields_bytes content) + 15 < NETWORK_BODY_SIZE"
  shows "\<exists>n' m frame. delegate env H rnd p name password clientIp (n, cache, db) = Some (n', cache1, db2) \<and>
     n_io n' = n_io n @ [Write h m frame] \<and> client_reads (m_key pr) content frame = Some content \<and>
     cn_state (n_conns n' h) = CONNECTION_STATE_REQUEST_CLOSE"
proof -
  have "\<not> m_rawMessages pr" using ready by (simp add: reply_ready_def)
  then have "client_reads (m_key pr) content (wire_frame pr (fields_bytes content)) = Some content"
    using enc fits by (intro client_reads_frame)
  then show ?thesis using delegate_answer [OF ready decided reply fits] by blast
qed

theorem login_reply_reaches_client_witness:
  "\<exists>n' m frame. delegate (login_env (new_config (\<lambda>_. False) (\<lambda>_. 4))) plain_hash (\<lambda>_. (0, 0)) 2 ''10'' ''secret'' 0
       (login_net\<lparr>n_protos := [2 \<mapsto> (new_login_protocol (Some 4))\<lparr>m_encryptionEnabled := True, m_key := [1, 2, 3, 4]\<rparr>]\<rparr>,
        Map.empty, login_db) = Some (n', Map.empty, login_db) \<and>
     n_io n' = [Write 4 m frame] \<and>
     client_reads [1, 2, 3, 4] [FU8 0x14, FStr (''0'' @ newline_str), FU8 0x64, FU8 0, FU16 0] frame =
       Some [FU8 0x14, FStr (''0'' @ newline_str), FU8 0x64, FU8 0, FU16 0]"
proof -
  let ?env = "login_env (new_config (\<lambda>_. False) (\<lambda>_. 4))"
  let ?content = "[FU8 0x14, FStr (''0'' @ newline_str), FU8 0x64, FU8 0, FU16 0]"
  let ?pr = "(new_login_protocol (Some 4))\<lparr>m_encryptionEnabled := True, m_key := [1, 2, 3, 4]\<rparr>"
  let ?n = "login_net\<lparr>n_protos := [2 \<mapsto> ?pr]\<rparr>"
  obtain a cm1 where d: "delegate_decide ?env plain_hash ''10'' ''secret'' 0 (n_cm ?n) Map.empty login_db = (Accept a, cm1, Map.empty, login_db)"
    "number a = 10" "premiumDays a = 0" using login_decides by blast
  have ready: "reply_ready 2 ?pr 4 ?n" using login_net_ready by (simp add: reply_ready_def login_net_def)
  have "\<forall>f \<in> set ?content. field_ok f" "length (fields_bytes ?content) + 15 < NETWORK_BODY_SIZE"
    by (simp_all add: layout newline_str_def fields_bytes_def)
  note fits = this
  have "m_checksumEnabled ?pr" "m_encryptionEnabled ?pr" "m_key ?pr = [1, 2, 3, 4]" "n_io ?n = []"
    by (simp_all add: new_login_protocol_def login_net_def demo_net_def)
  with login_reply_reaches_client [OF ready _ _ d(1) login_content [OF d(2,3) login_config] fits, of "\<lambda>_. (0, 0)"] show ?thesis by auto
qed

section \<open>A whole session\<close>

text \<open>C2. A login from the accept to the answer: when the port has accepted an admitted peer on an idle server, and the
  frame of a request arrives in the two reads that the server asks for, the dispatcher runs the task it
  leaves, and the one frame that is written is read by the client, with the key it has sent, as the answer to
  its own name and password: the character list when it may enter, the refusal otherwise. Then the
  connection is asked to close.\<close>

theorem login_session:
  fixes s :: server
  defines "h \<equiv> s_nextConn s"
  assumes services: "sp_services sp = sv # svs" "\<not> isSingleSocket sv" "find (serves 1 True) (sp_services sp) = Some sv1"
    and handled: "sp_handle env0 acceptor ip NoError (sp, s) = (sp', s')"
    and peer: "ip \<noteq> 0" "fst (acceptConnection (word_of_int (e_ms env0)) ip (n_cm (s_net s)))"
    and limits: "\<not> isDisabled (e_config env) (e_time env) ip protocolId (n_cm (s_net s'))"
      "0 < getNumber MAX_PACKETS_PER_SECOND (e_config env)" "getNumber MAX_PACKETS_PER_SECOND (e_config env) < 2 ^ 32"
    and idle: "n_disp (s_net s) = new_dispatcher" "queues (s_net s) = ([], [])" "\<not> p_shutdown (s_net s)"
      "\<forall>m \<in> set (p_free (s_net s)). length (m_buffer (n_msgs (s_net s) m)) = NETWORK_MAX_SIZE \<and> m_outputBufferStart (n_msgs (s_net s) m) = 8"
    and cipher: "length cipher = 128" "rsa cipher = Some (request_block r fill)" "request_ok r fill"
    and rsa: "\<And>bs to. rsa bs = Some to \<Longrightarrow> length to = 128"
    and decided: "delegate_decide env H (task_name r) (lr_password r) ip (n_cm (s_net s')) cache db = (d, cm1, cache1, db1)"
    and reply: "login_reply env rnd d db1 = Some (content, db2)"
    and fits: "\<forall>f \<in> set content. field_ok f" "length (fields_bytes content) + 15 < NETWORK_BODY_SIZE"
  shows "\<exists>n1 n2 n3 m frame. conn_parseHeader NoError (take 2 (request_frame r cipher)) h (s_net s') = Some n1 \<and>
     conn_parsePacket env rsa (sp_services sp) NoError (drop 2 (request_frame r cipher)) h n1 = Some n2 \<and>
     dispatch_task now env H rnd (n2, cache, db) = Some (n3, cache1, db2) \<and>
     n_io n3 = n_io (s_net s) @ [ReadHeader h, ReadBody h (length (request_frame r cipher) - 2), ReadHeader h, Write h m frame] \<and>
     client_reads (lr_key r) content frame = Some content \<and> n_cm n3 = cm1 \<and>
     cn_state (n_conns n3 h) = CONNECTION_STATE_REQUEST_CLOSE"
proof -
  note served = served_peer [OF services(1,2) handled peer idle(3,4), folded h_def]
  have adm: "admitted env h (s_net s')"
    using limits first_packet_in_limit [OF served(6) limits(2,3)] by (simp add: admitted_def served(2))
  from request_session [OF served(1) adm services(3), of cipher rsa r fill H cache db d cm1 cache1 db1 rnd content db2 now]
  show ?thesis using served idle(1,2) cipher rsa decided reply fits by auto
qed

theorem login_session_witness:
  "\<exists>sp' s' n1 n2 n3 m frame. sp_handle session_env 0 0x7F000001 NoError (new_service_port\<lparr>sp_services := [login_service]\<rparr>, demo_server) = (sp', s') \<and>
     conn_parseHeader NoError (take 2 (request_frame demo_request (replicate 128 7))) 5 (s_net s') = Some n1 \<and>
     conn_parsePacket session_env (\<lambda>bs. Some (request_block demo_request demo_fill)) [login_service] NoError
       (drop 2 (request_frame demo_request (replicate 128 7))) 5 n1 = Some n2 \<and>
     dispatch_task 0 session_env plain_hash (\<lambda>_. (0, 0)) (n2, Map.empty, login_db) = Some (n3, Map.empty, login_db) \<and>
     n_io n3 = [ReadHeader 5, ReadBody 5 149, ReadHeader 5, Write 5 m frame] \<and>
     client_reads [1, 2, 3, 4] [FU8 0x14, FStr (''0'' @ newline_str), FU8 0x64, FU8 0, FU16 0] frame =
       Some [FU8 0x14, FStr (''0'' @ newline_str), FU8 0x64, FU8 0, FU16 0]"
proof -
  let ?content = "[FU8 0x14, FStr (''0'' @ newline_str), FU8 0x64, FU8 0, FU16 0]"
  let ?sp = "new_service_port\<lparr>sp_services := [login_service]\<rparr>"
  obtain sp' s' where run: "sp_handle session_env 0 0x7F000001 NoError (?sp, demo_server) = (sp', s')" by fastforce
  obtain a cm1 where d: "delegate_decide session_env plain_hash (task_name demo_request) (lr_password demo_request) 0x7F000001 (n_cm (s_net s')) Map.empty login_db =
      (Accept a, cm1, Map.empty, login_db)" "number a = 10" "premiumDays a = 0"
    using login_decides by (fastforce simp: session_env_def task_name_def demo_request_def)
  have reply: "login_reply session_env (\<lambda>_. (0, 0)) (Accept a) login_db = Some (?content, login_db)"
    unfolding session_env_def by (rule login_content) (use d in \<open>simp_all add: getNumber_def getString_def getBool_def new_config_def\<close>)
  have fits: "\<forall>f \<in> set ?content. field_ok f" "length (fields_bytes ?content) + 15 < NETWORK_BODY_SIZE"
    by (simp_all add: layout newline_str_def fields_bytes_def)
  have len: "length (request_frame demo_request (replicate 128 7)) - 2 = 149" by (simp add: request_frame_def outer_frame_def)
  have services: "sp_services ?sp = [login_service]" "\<not> isSingleSocket login_service" by (simp_all add: login_service_def)
  have cfg: "getNumber MAX_PACKETS_PER_SECOND (e_config session_env) = 25" "\<not> isDisabled (e_config session_env) t ip k cm" for t ip k cm
    by (simp_all add: session_env_def login_env_def demo_env_def getNumber_def isDisabled_def to_i32_def)
  have adm: "fst (acceptConnection (word_of_int (e_ms session_env)) 0x7F000001 (n_cm (s_net demo_server)))"
    by (simp add: acceptConnection_def demo_server_def demo_net_def cm_createConnection_def new_connection_manager_def)
  have net: "n_disp (s_net demo_server) = new_dispatcher" "queues (s_net demo_server) = ([], [])" "\<not> p_shutdown (s_net demo_server)"
    "p_free (s_net demo_server) = []" "n_io (s_net demo_server) = []" "s_nextConn demo_server = 5" "lr_key demo_request = [1, 2, 3, 4]"
    by (simp_all add: demo_server_def demo_net_def queues_def demo_request_def)
  from login_session [where now = 0, OF services(1,2) _ run _ adm cfg(2) _ _ net(1-3), of login_service "replicate 128 7"
      "\<lambda>bs. Some (request_block demo_request demo_fill)" demo_request demo_fill plain_hash Map.empty login_db, OF _ _ _ _ _ _ _ _ _ d(1) reply fits]
  show ?thesis using run demo_request_ok net(4-7) services(1) cfg(1) unfolding len by simp blast
qed

section \<open>From the accept to the first packet\<close>

text \<open>C5. No peer can break the server with its first packet: after the port has accepted a peer, whatever
  two bytes arrive as the header and however the read ends, \<open>parseHeader\<close> finishes; and when it
  asks for a body, whatever part of that body arrives, \<open>parsePacket\<close> finishes. No buffer is
  left and no missing object is used on the way.\<close>

theorem peer_cannot_break_server:
  assumes services: "sp_services sp = sv # svs" "\<not> isSingleSocket sv"
    and handled: "sp_handle env acceptor remoteIp NoError (sp, s) = (sp', s')"
    and admitted: "remoteIp \<noteq> 0" "fst (acceptConnection (word_of_int (e_ms env)) remoteIp (n_cm (s_net s)))"
    and pool: "\<not> p_shutdown (s_net s')"
      "\<forall>m \<in> set (p_free (s_net s')). length (m_buffer (n_msgs (s_net s') m)) = NETWORK_MAX_SIZE \<and> m_outputBufferStart (n_msgs (s_net s') m) = 8"
    and header: "length header = 2" and rsa: "\<And>bs to. rsa bs = Some to \<Longrightarrow> length to = 128"
  shows "\<exists>n1. conn_parseHeader err header (s_nextConn s) (s_net s') = Some n1 \<and>
     (\<forall>k bytes. n_io n1 = n_io (s_net s') @ [ReadBody (s_nextConn s) k] \<and> length bytes \<le> k \<longrightarrow>
        (\<exists>n2. conn_parsePacket env' rsa (sp_services sp) err' bytes (s_nextConn s) n1 = Some n2))"
proof -
  define h where "h = s_nextConn s"
  define n where "n = s_net s'"
  have c: "n_conns n h = (new_connection (e_time env) remoteIp)\<lparr>cn_pendingRead := 1, cn_readTimer := True\<rparr>"
    using peer_served [OF services handled refl] admitted by (simp add: h_def n_def)
  then have "length (m_buffer (cn_msg (n_conns n h))) = NETWORK_MAX_SIZE" by (simp add: new_connection_def new_network_message_def)
  from parseHeader_cases [OF this header, of err] obtain n1 where n1: "conn_parseHeader err header h n = Some n1"
    and "n_io n1 = n_io n \<or>
      (\<exists>k msg. n1 = (upd_conn h (\<lambda>c. c\<lparr>cn_readTimer := True, cn_msg := msg\<rparr>) n)\<lparr>n_io := n_io n @ [ReadBody h k]\<rparr> \<and>
         NETWORK_HEADER_SIZE + k < NETWORK_MAX_SIZE \<and> unat (m_size msg) = NETWORK_HEADER_SIZE + k \<and>
         m_position msg = 2 \<and> length (m_buffer msg) = NETWORK_MAX_SIZE)" by blast
  then have "fresh_session h k n1" if "n_io n1 = n_io n @ [ReadBody h k]" for k
    using that c pool by (auto simp: fresh_session_def n_def upd_conn_def new_connection_def)
  then show ?thesis
    using n1 parsePacket_total [where rsa = rsa] rsa unfolding h_def n_def by blast
qed

theorem peer_cannot_break_server_witness:
  "\<exists>sp' s' n1. sp_handle (login_env (new_config (\<lambda>_. False) (\<lambda>_. 4))) 0 0x7F000001 NoError
       (new_service_port\<lparr>sp_services := [login_service]\<rparr>, demo_server) = (sp', s') \<and>
     conn_parseHeader NoError [1, 0] 5 (s_net s') = Some n1"
proof -
  let ?sp = "new_service_port\<lparr>sp_services := [login_service]\<rparr>"
  let ?env = "login_env (new_config (\<lambda>_. False) (\<lambda>_. 4))"
  obtain sp' s' where run: "sp_handle ?env 0 0x7F000001 NoError (?sp, demo_server) = (sp', s')" by fastforce
  have adm: "fst (acceptConnection (word_of_int (e_ms ?env)) 0x7F000001 (n_cm (s_net demo_server)))"
    by (simp add: acceptConnection_def demo_server_def demo_net_def cm_createConnection_def new_connection_manager_def)
  have "sp_services ?sp = login_service # []" "\<not> isSingleSocket login_service" by (simp_all add: login_service_def)
  moreover have "\<not> p_shutdown (s_net s')" "p_free (s_net s') = []"
    using run by (auto simp: sp_handle_def accept_peer_def demo_server_def demo_net_def create_connection_def conn_accept_def upd_conn_def
        sp_accept_def sp_isSingleSocket_def login_service_def Let_def split: prod.splits if_splits)
  ultimately have "\<exists>n1. conn_parseHeader NoError [1, 0] (s_nextConn demo_server) (s_net s') = Some n1"
    using peer_cannot_break_server [of ?sp login_service "[]" ?env 0 "0x7F000001" demo_server sp' s' "[1, 0]" "\<lambda>bs. None" NoError ?env NoError] run adm
    by auto
  then show ?thesis using run by (auto simp: demo_server_def)
qed

end
